(* ===== verification/Prelude.thy ===== *)
theory Prelude
  imports Main "HOL-Library.Char_ord" "HOL-Library.List_Lexorder"
begin

text \<open>
  What every component of the development shares: the outcome of a C++ operation, the
  operations of the standard library's strings and ordered maps that the sources call, and
  the rewriting rules about them.

  A C++ call may return, throw an exception, or run into undefined behaviour (an access the
  language standard gives no meaning to, such as removing more characters from a
  \<^verbatim>\<open>std::string_view\<close> than it has).  The three are values of type \<open>outcome\<close>, so that no
  definition of the development hides a failure behind an unspecified value.
\<close>

named_theorems cpp_simps \<open>equations that evaluate the models of library calls\<close>

section \<open>Outcomes\<close>

datatype cpp_exn =
    OutOfRange
  | InvalidArgument
  | FilesystemError
  | RuntimeError

datatype 'a outcome =
    Returns 'a
  | Throws cpp_exn
  | Undefined

fun obind :: "'a outcome \<Rightarrow> ('a \<Rightarrow> 'b outcome) \<Rightarrow> 'b outcome" where
  "obind (Returns x) f = f x"
| "obind (Throws e) f = Throws e"
| "obind Undefined f = Undefined"

lemma obind_assoc: "obind (obind m f) g = obind m (\<lambda>x. obind (f x) g)"
  by (cases m) simp_all

lemma obind_Returns_right [simp]: "obind m Returns = m"
  by (cases m) simp_all

lemma obind_eq_Returns:
  "obind m f = Returns y \<longleftrightarrow> (\<exists>x. m = Returns x \<and> f x = Returns y)"
  by (cases m) simp_all

lemma obind_cong [fundef_cong]:
  "m = m' \<Longrightarrow> (\<And>x. m' = Returns x \<Longrightarrow> f x = g x) \<Longrightarrow> obind m f = obind m' g"
  by (cases m') simp_all

text \<open>
  The early returns of a function that yields an error or a result beside a state: it yields a
  result exactly when none of them is taken.
\<close>

lemma early_return_sum:
  "(case x of Inl e \<Rightarrow> Returns (Inl (h e), p) | Inr m \<Rightarrow> f m) = Returns (Inr r, q) \<longleftrightarrow>
   (\<exists>m. x = Inr m \<and> f m = Returns (Inr r, q))"
  by (cases x) simp_all

lemma early_return_sum_plain:
  "(case x of Inl e \<Rightarrow> Returns (Inl (h e)) | Inr m \<Rightarrow> g m) = Returns (Inr r) \<longleftrightarrow>
   (\<exists>m. x = Inr m \<and> g m = Returns (Inr r))"
  by (cases x) simp_all

lemma early_return_option:
  "(case x of None \<Rightarrow> g | Some e \<Rightarrow> Returns (Inl (h e), p)) = Returns (Inr r, q) \<longleftrightarrow>
   x = None \<and> g = Returns (Inr r, q)"
  by (cases x) simp_all

lemma early_return_if:
  "(if b then Returns (Inl e, p) else g) = Returns (Inr r, q) \<longleftrightarrow> \<not> b \<and> g = Returns (Inr r, q)"
  by simp

lemmas early_returns = early_return_sum early_return_sum_plain early_return_option early_return_if

section \<open>Searching and cutting strings\<close>

text \<open>
  \<open>None\<close> is \<^verbatim>\<open>std::string::npos\<close>.
\<close>

fun find_index :: "('a \<Rightarrow> bool) \<Rightarrow> 'a list \<Rightarrow> nat option" where
  "find_index P [] = None"
| "find_index P (x # xs) = (if P x then Some 0 else map_option Suc (find_index P xs))"

lemma find_index_None_iff: "find_index P xs = None \<longleftrightarrow> (\<forall>x \<in> set xs. \<not> P x)"
  by (induction xs) auto

lemma find_index_append_hit:
  "(\<forall>x \<in> set xs. \<not> P x) \<Longrightarrow> P c \<Longrightarrow> find_index P (xs @ c # ys) = Some (length xs)"
  by (induction xs) auto

lemma find_index_SomeD:
  "find_index P xs = Some i \<Longrightarrow>
   i < length xs \<and> P (xs ! i) \<and> (\<forall>x \<in> set (take i xs). \<not> P x)"
  by (induction xs arbitrary: i) (auto split: if_splits)

lemma find_index_char_hit [cpp_simps]:
  "d \<notin> set xs \<Longrightarrow> find_index (\<lambda>c. c = d) (xs @ d # ys) = Some (length xs)"
  by (rule find_index_append_hit) auto

lemma find_index_split:
  assumes "find_index P xs = Some i"
  shows "\<exists>c ys. drop i xs = c # ys \<and> xs = take i xs @ c # ys \<and> P c \<and>
    (\<forall>x \<in> set (take i xs). \<not> P x) \<and> i < length xs"
proof -
  from find_index_SomeD [OF assms] have "drop i xs = xs ! i # drop (Suc i) xs"
    by (simp add: Cons_nth_drop_Suc)
  moreover from this have "xs = take i xs @ xs ! i # drop (Suc i) xs"
    by (metis append_take_drop_id)
  ultimately show ?thesis using find_index_SomeD [OF assms] by blast
qed

text \<open>\<^verbatim>\<open>s.find(c, pos)\<close>: the first position at or after \<open>pos\<close>; a \<open>pos\<close> past the end finds nothing.\<close>

definition find_char :: "string \<Rightarrow> char \<Rightarrow> nat \<Rightarrow> nat option" where
  "find_char s c pos =
     (if pos \<le> length s then map_option ((+) pos) (find_index (\<lambda>x. x = c) (drop pos s)) else None)"

lemma find_char_bounds: "find_char s c pos = Some i \<Longrightarrow> pos \<le> i \<and> i < length s"
  by (auto simp: find_char_def split: if_splits dest!: find_index_SomeD)

lemma find_char_nth: "find_char s c pos = Some i \<Longrightarrow> s ! i = c"
  by (auto simp: find_char_def split: if_splits dest!: find_index_SomeD)

text \<open>
  \<^verbatim>\<open>view.substr(pos, n)\<close> and \<^verbatim>\<open>str.substr(pos, n)\<close> throw when \<open>pos\<close> is past the end and
  clip \<open>n\<close> at the end; \<^verbatim>\<open>view.remove_prefix(n)\<close> and \<^verbatim>\<open>view.remove_suffix(n)\<close> are undefined when \<open>n\<close>
  exceeds the size; \<^verbatim>\<open>view.at(i)\<close> throws out of range.
\<close>

definition substr :: "string \<Rightarrow> nat \<Rightarrow> nat \<Rightarrow> string outcome" where
  "substr s pos n = (if pos \<le> length s then Returns (take n (drop pos s)) else Throws OutOfRange)"

definition remove_prefix :: "nat \<Rightarrow> string \<Rightarrow> string outcome" where
  "remove_prefix n v = (if n \<le> length v then Returns (drop n v) else Undefined)"

definition remove_suffix :: "nat \<Rightarrow> string \<Rightarrow> string outcome" where
  "remove_suffix n v = (if n \<le> length v then Returns (take (length v - n) v) else Undefined)"

definition char_at :: "string \<Rightarrow> nat \<Rightarrow> char outcome" where
  "char_at v i = (if i < length v then Returns (v ! i) else Throws OutOfRange)"

definition starts_with :: "string \<Rightarrow> string \<Rightarrow> bool" where
  "starts_with v p \<longleftrightarrow> take (length p) v = p"

definition ends_with_char :: "string \<Rightarrow> char \<Rightarrow> bool" where
  "ends_with_char v c \<longleftrightarrow> v \<noteq> [] \<and> last v = c"

lemma remove_prefix_append [cpp_simps]: "remove_prefix (length xs) (xs @ ys) = Returns ys"
  by (simp add: remove_prefix_def)

lemma remove_prefix_Returns: "remove_prefix n v = Returns w \<Longrightarrow> w = drop n v \<and> n \<le> length v"
  by (auto simp: remove_prefix_def split: if_splits)

lemma remove_prefix_never_throws [simp]: "remove_prefix n v \<noteq> Throws e"
  by (simp add: remove_prefix_def)

lemma char_at_Cons [cpp_simps]: "char_at (c # cs) 0 = Returns c"
  by (simp add: char_at_def)

lemma char_at_Nil [cpp_simps]: "char_at [] i = Throws OutOfRange"
  by (simp add: char_at_def)

lemma starts_with_append [simp]: "starts_with (p @ r) p"
  by (simp add: starts_with_def)

lemma starts_with_iff: "starts_with v p \<longleftrightarrow> (\<exists>r. v = p @ r)"
  unfolding starts_with_def by (metis append_eq_conv_conj append_take_drop_id)

lemma starts_with_Cons [cpp_simps]:
  "starts_with (x # v) (c # p) \<longleftrightarrow> x = c \<and> starts_with v p"
  "starts_with [] (c # p) \<longleftrightarrow> False"
  "starts_with v [] \<longleftrightarrow> True"
  by (auto simp: starts_with_def)

text \<open>\<^verbatim>\<open>a[i]\<close> on a \<^verbatim>\<open>std::array\<close>: undefined outside the array.\<close>

definition array_at :: "'a list \<Rightarrow> nat \<Rightarrow> 'a outcome" where
  "array_at a i = (if i < length a then Returns (a ! i) else Undefined)"

section \<open>Numbers as text\<close>

text \<open>
  \<^verbatim>\<open>std::to_string\<close> and the \<^verbatim>\<open>{}\<close> of \<^verbatim>\<open>std::format\<close> on an \<^verbatim>\<open>int\<close>.  \<^verbatim>\<open>static_cast<int>\<close> of a
  \<^verbatim>\<open>char\<close> reads it as a signed byte, as on the platforms the build files name.
\<close>

definition digit_char :: "nat \<Rightarrow> char" where
  "digit_char d = ''0123456789'' ! d"

fun nat_to_string :: "nat \<Rightarrow> string" where
  "nat_to_string n =
     (if n < 10 then [digit_char n] else nat_to_string (n div 10) @ [digit_char (n mod 10)])"

declare nat_to_string.simps [simp del]

definition int_to_string :: "int \<Rightarrow> string" where
  "int_to_string i = (if i < 0 then CHR ''-'' # nat_to_string (nat (- i)) else nat_to_string (nat i))"

definition char_code :: "char \<Rightarrow> int" where
  "char_code c = (let n = of_char c :: int in if n < 128 then n else n - 256)"

section \<open>Ordered maps\<close>

text \<open>
  A \<^verbatim>\<open>std::map<std::string, std::string>\<close> iterates over its keys in ascending order of
  \<^verbatim>\<open>operator<\<close> on strings, which compares bytes as unsigned values from the left: the order of
  \<open>HOL-Library.List_Lexorder\<close> over the characters of \<open>HOL-Library.Char_ord\<close>.  The map is kept as
  the list of its entries in that order; \<open>smap_set\<close> is \<^verbatim>\<open>m[k] = v\<close>.
\<close>

type_synonym strmap = "(string \<times> string) list"

fun smap_set :: "strmap \<Rightarrow> string \<Rightarrow> string \<Rightarrow> strmap" where
  "smap_set [] k v = [(k, v)]"
| "smap_set ((k', v') # m) k v =
     (if k < k' then (k, v) # (k', v') # m
      else if k = k' then (k, v) # m
      else (k', v') # smap_set m k v)"

abbreviation smap_get :: "strmap \<Rightarrow> string \<Rightarrow> string option" where
  "smap_get \<equiv> map_of"

definition smap_ok :: "strmap \<Rightarrow> bool" where
  "smap_ok m \<longleftrightarrow> sorted_wrt (<) (map fst m)"

lemma smap_ok_Nil [simp]: "smap_ok []"
  by (simp add: smap_ok_def)

lemma smap_ok_Cons: "smap_ok ((k, v) # m) \<longleftrightarrow> (\<forall>k' \<in> fst ` set m. k < k') \<and> smap_ok m"
  by (auto simp: smap_ok_def)

lemma smap_get_set [simp]: "smap_get (smap_set m k v) = (smap_get m)(k \<mapsto> v)"
  by (induction m k v rule: smap_set.induct) (auto simp: fun_eq_iff)

lemma smap_keys_set: "fst ` set (smap_set m k v) = insert k (fst ` set m)"
  by (induction m k v rule: smap_set.induct) auto

lemma smap_ok_set [intro]: "smap_ok m \<Longrightarrow> smap_ok (smap_set m k v)"
  by (induction m k v rule: smap_set.induct) (auto simp: smap_ok_Cons smap_keys_set)

text \<open>Setting a key above all others appends it, so reading the entries of a map back in order rebuilds it.\<close>

lemma smap_set_append: "(\<forall>k' \<in> fst ` set m. k' < k) \<Longrightarrow> smap_set m k v = m @ [(k, v)]"
proof (induction m)
  case (Cons a m)
  then show ?case by (cases a) (auto dest: order_less_asym)
qed simp

lemma smap_rebuild_aux:
  "smap_ok (m @ es) \<Longrightarrow> foldl (\<lambda>m (k, v). smap_set m k v) m es = m @ es"
proof (induction es arbitrary: m)
  case (Cons e es)
  obtain k v where [simp]: "e = (k, v)" by (cases e)
  from Cons.prems have "\<forall>k' \<in> fst ` set m. k' < k"
    by (auto simp: smap_ok_def sorted_wrt_append)
  with Cons show ?case by (simp add: smap_set_append)
qed simp

lemma smap_rebuild: "smap_ok es \<Longrightarrow> foldl (\<lambda>m (k, v). smap_set m k v) [] es = es"
  using smap_rebuild_aux [of "[]" es] by simp

lemma smap_ok_foldl_set:
  "smap_ok m \<Longrightarrow> smap_ok (foldl (\<lambda>m (k, v). smap_set m k v) m es)"
  by (induction es arbitrary: m) auto

lemmas smap_lemmas = smap_ok_set smap_rebuild smap_ok_foldl_set

end
