(* ===== verification/LockFreeQueue.thy ===== *)
theory LockFreeQueue
  imports Prelude "HOL-Library.Word"
begin

text \<open>
  \<^verbatim>\<open>include/simpleserv/utility/lock_free_queue.hpp\<close>: the ring buffer between the accepting thread and
  the worker threads, one operation at a time (the interleavings are in \<open>QueueConcurrent\<close>).  The
  counters are 32-bit words.  \<open>capacity\<close> is the template's argument; a capacity above the limit of the
  index table does not compile (the table's type is then \<^verbatim>\<open>void\<close>), so that capacities from 1 to 100
  are the instances there are.
\<close>

section \<open>The functions of the source\<close>

type_synonym u32 = "32 word"

definition SMALL_INTEGER_OPTIMISATION_LIMIT :: nat where
  "SMALL_INTEGER_OPTIMISATION_LIMIT = 100"

record 't queue =
  q_arr :: "'t list"
  q_head :: u32
  q_tail :: u32
  q_size :: u32
  q_next :: "u32 list"

definition new_queue :: "nat \<Rightarrow> 't \<Rightarrow> 't queue" where
  "new_queue capacity d =
     \<lparr>q_arr = replicate capacity d, q_head = 0, q_tail = 0, q_size = 0,
      q_next =
        (if capacity \<le> SMALL_INTEGER_OPTIMISATION_LIMIT
         then (map (\<lambda>i. word_of_nat i + 1) [0..<capacity])[capacity - 1 := 0] else [])\<rparr>"

definition next_index :: "nat \<Rightarrow> 't queue \<Rightarrow> u32 \<Rightarrow> u32 outcome" where
  "next_index capacity q current =
     (if capacity < SMALL_INTEGER_OPTIMISATION_LIMIT then array_at (q_next q) (unat current)
      else Returns ((current + 1) mod word_of_nat capacity))"

text \<open>Both overloads of \<^verbatim>\<open>push\<close>; the element moved from is the caller's temporary.\<close>

definition push :: "nat \<Rightarrow> 't \<Rightarrow> 't queue \<Rightarrow> (bool \<times> 't queue) outcome" where
  "push capacity elem q =
     (let tail = q_tail q
      in obind (next_index capacity q tail) (\<lambda>next_tail.
         if unat tail < length (q_arr q) then
           Returns (True, q\<lparr>q_arr := (q_arr q)[unat tail := elem], q_tail := next_tail, q_size := q_size q + 1\<rparr>)
         else Undefined))"

text \<open>
  \<^verbatim>\<open>compare_exchange_weak\<close> may fail although the values agree: \<open>spurious\<close>.  \<open>moved\<close> is what a move
  leaves of a value, unspecified by the language.
\<close>

definition pop :: "nat \<Rightarrow> ('t \<Rightarrow> 't) \<Rightarrow> bool \<Rightarrow> 't queue \<Rightarrow> ('t option \<times> 't queue) outcome" where
  "pop capacity moved spurious q =
     (let head = q_head q
      in if head = q_tail q then Returns (None, q)
         else obind (next_index capacity q head) (\<lambda>next_head.
           if spurious then Returns (None, q)
           else if unat head < length (q_arr q) then
             Returns (Some (q_arr q ! unat head),
               q\<lparr>q_head := next_head, q_arr := (q_arr q)[unat head := moved (q_arr q ! unat head)],
                 q_size := q_size q - 1\<rparr>)
           else Undefined))"

definition empty :: "'t queue \<Rightarrow> bool" where
  "empty q \<longleftrightarrow> q_head q = q_tail q"

definition full :: "nat \<Rightarrow> 't queue \<Rightarrow> bool outcome" where
  "full capacity q = obind (next_index capacity q (q_tail q)) (\<lambda>n. Returns (n = q_head q))"

section \<open>The index arithmetic\<close>

definition queue_ok :: "nat \<Rightarrow> 't queue \<Rightarrow> bool" where
  "queue_ok capacity q \<longleftrightarrow>
     0 < capacity \<and> capacity \<le> SMALL_INTEGER_OPTIMISATION_LIMIT \<and>
     length (q_arr q) = capacity \<and> unat (q_head q) < capacity \<and> unat (q_tail q) < capacity \<and>
     length (q_next q) = capacity \<and>
     (\<forall>i < capacity. unat (q_next q ! i) = (i + 1) mod capacity)"

lemma unat_small: "i < 2 ^ 32 \<Longrightarrow> unat (word_of_nat i :: u32) = i"
  by (simp add: unsigned_of_nat take_bit_nat_eq_self)

lemma unat_same: "unat (a :: u32) = unat b \<longleftrightarrow> a = b"
  by (simp add: word_eq_iff_unsigned [where 'a = nat])

lemma new_queue_ok:
  assumes "0 < capacity" and "capacity \<le> SMALL_INTEGER_OPTIMISATION_LIMIT"
  shows "queue_ok capacity (new_queue capacity d)"
proof -
  have "unat ((map (\<lambda>i. word_of_nat i + 1 :: u32) [0..<capacity])[capacity - 1 := 0] ! i) = (i + 1) mod capacity"
    if "i < capacity" for i
  proof (cases "i = capacity - 1")
    case True
    with assms(1) show ?thesis by simp
  next
    case False
    have "(word_of_nat i + 1 :: u32) = word_of_nat (i + 1)" by (simp add: add.commute)
    moreover have "unat (word_of_nat (i + 1) :: u32) = i + 1"
      using that assms(2) by (intro unat_small) (simp add: SMALL_INTEGER_OPTIMISATION_LIMIT_def)
    ultimately have "unat (word_of_nat i + 1 :: u32) = i + 1" by metis
    with False that show ?thesis by simp
  qed
  with assms show ?thesis by (simp add: queue_ok_def new_queue_def SMALL_INTEGER_OPTIMISATION_LIMIT_def)
qed

text \<open>The table and the modulo agree: both step to the next slot of the ring.\<close>

lemma next_index_ring:
  assumes "queue_ok capacity q" and "unat i < capacity"
  shows "\<exists>n. next_index capacity q i = Returns n \<and> unat n = (unat i + 1) mod capacity"
proof (cases "capacity < SMALL_INTEGER_OPTIMISATION_LIMIT")
  case True
  with assms show ?thesis by (auto simp: next_index_def array_at_def queue_ok_def)
next
  case False
  from assms have c: "capacity \<le> 100" by (simp add: queue_ok_def SMALL_INTEGER_OPTIMISATION_LIMIT_def)
  with assms have "unat (i + 1) = unat i + 1" by (subst unat_add_lem [THEN iffD1]) simp_all
  moreover have "unat (word_of_nat capacity :: u32) = capacity" using c by (intro unat_small) simp
  ultimately have "unat ((i + 1) mod word_of_nat capacity) = (unat i + 1) mod capacity" by (simp add: unat_mod)
  with False show ?thesis by (simp add: next_index_def)
qed

section \<open>What the ring holds\<close>

definition ring :: "nat \<Rightarrow> 't list \<Rightarrow> nat \<Rightarrow> nat \<Rightarrow> 't list" where
  "ring capacity arr h n = map (\<lambda>i. arr ! ((h + i) mod capacity)) [0..<n]"

definition count_between :: "nat \<Rightarrow> nat \<Rightarrow> nat \<Rightarrow> nat" where
  "count_between capacity h t = (t + capacity - h) mod capacity"

definition contents :: "nat \<Rightarrow> 't queue \<Rightarrow> 't list" where
  "contents capacity q =
     ring capacity (q_arr q) (unat (q_head q)) (count_between capacity (unat (q_head q)) (unat (q_tail q)))"

lemma count_cases:
  "h < c \<Longrightarrow> t < c \<Longrightarrow> count_between c h t = (if h \<le> t then t - h else t + c - h)"
  by (auto simp: count_between_def mod_if)

lemma mod_shift: "h < c \<Longrightarrow> i < c \<Longrightarrow> (h + i) mod c = (if h + i < c then h + i else h + i - (c::nat))"
  by (simp add: mod_if)

lemma suc_mod: "h < c \<Longrightarrow> Suc h mod c = (if Suc h < c then Suc h else 0)"
  by (auto simp: mod_if)

lemma count_push:
  assumes "h < c" and "t < c"
  shows "count_between c h (Suc t mod c) =
    (if count_between c h t < c - 1 then Suc (count_between c h t) else 0)"
  using assms by (auto simp: count_cases suc_mod)

lemma count_pop:
  assumes "h < c" and "t < c" and "h \<noteq> t"
  shows "count_between c (Suc h mod c) t = count_between c h t - 1"
  using assms by (auto simp: count_cases suc_mod)

lemma count_less: "h < c \<Longrightarrow> t < c \<Longrightarrow> count_between c h t < c"
  by (auto simp: count_cases)

lemma count_zero: "h < c \<Longrightarrow> t < c \<Longrightarrow> count_between c h t = 0 \<longleftrightarrow> h = t"
  by (auto simp: count_cases)

lemma ring_push:
  assumes "h < c" and "t < c" and "length arr = c"
  shows "ring c (arr[t := x]) h (count_between c h t + 1) = ring c arr h (count_between c h t) @ [x]"
proof -
  let ?n = "count_between c h t"
  have last: "(h + ?n) mod c = t" using assms by (auto simp: count_cases mod_shift)
  have "t \<noteq> (h + i) mod c" if "i < ?n" for i
    using that assms by (auto simp: count_cases mod_shift split: if_splits)
  with last assms show ?thesis by (simp add: ring_def)
qed

lemma ring_pop:
  assumes "h < c" and "t < c" and "h \<noteq> t" and "length arr = c"
  shows "ring c arr h (count_between c h t) =
    arr ! h # ring c (arr[h := y]) ((h + 1) mod c) (count_between c h t - 1)"
proof -
  let ?n = "count_between c h t"
  from assms have n: "?n = Suc (?n - 1)" using count_zero [of h c t] by simp
  have "map (\<lambda>i. arr ! ((h + i) mod c)) [0..<?n] = arr ! h # map (\<lambda>i. arr ! ((h + Suc i) mod c)) [0..<?n - 1]"
    by (subst n, subst map_upt_Suc) (use assms(1) in simp)
  moreover have "arr ! ((h + Suc i) mod c) = arr[h := y] ! (((h + 1) mod c + i) mod c)" if "i < ?n - 1" for i
  proof -
    have "((h + 1) mod c + i) mod c = (h + Suc i) mod c" by (simp add: mod_simps)
    moreover have "(h + Suc i) mod c \<noteq> h"
      using that assms(1) count_less [OF assms(1,2)] mod_shift [of h c "Suc i"] by (auto split: if_splits)
    ultimately show ?thesis using assms by simp
  qed
  ultimately show ?thesis by (simp add: ring_def)
qed

section \<open>The operations on what the ring holds\<close>

lemma contents_length: "queue_ok c q \<Longrightarrow> length (contents c q) < c"
  by (simp add: contents_def ring_def queue_ok_def count_less)

lemma contents_empty: "queue_ok c q \<Longrightarrow> contents c q = [] \<longleftrightarrow> empty q"
  by (auto simp: contents_def ring_def queue_ok_def count_zero empty_def unat_same)

lemma contents_new: "0 < c \<Longrightarrow> contents c (new_queue c d) = []"
  by (simp add: contents_def ring_def new_queue_def count_cases)

lemma push_step:
  assumes ok: "queue_ok c q"
  shows "\<exists>q'. push c x q = Returns (True, q') \<and> queue_ok c q' \<and> q_size q' = q_size q + 1 \<and>
    contents c q' = (if length (contents c q) < c - 1 then contents c q @ [x] else [])"
proof -
  let ?h = "unat (q_head q)" let ?t = "unat (q_tail q)"
  from ok have b: "?h < c" "?t < c" "length (q_arr q) = c" by (simp_all add: queue_ok_def)
  obtain n where n: "next_index c q (q_tail q) = Returns n" "unat n = (?t + 1) mod c"
    using next_index_ring [OF ok b(2)] by blast
  let ?q = "q\<lparr>q_arr := (q_arr q)[?t := x], q_tail := n, q_size := q_size q + 1\<rparr>"
  have "contents c ?q = (if length (contents c q) < c - 1 then contents c q @ [x] else [])"
  proof -
    have len: "length (contents c q) = count_between c ?h ?t" by (simp add: contents_def ring_def)
    have "contents c ?q = ring c ((q_arr q)[?t := x]) ?h (count_between c ?h (Suc ?t mod c))"
      by (simp add: contents_def n(2))
    then show ?thesis unfolding len
      using ring_push [OF b(1,2,3), of x] count_push [OF b(1,2)]
      by (simp add: contents_def) (simp add: ring_def)
  qed
  moreover have "queue_ok c ?q" using ok n(2) by (auto simp: queue_ok_def)
  ultimately show ?thesis using b n by (simp add: push_def)
qed

lemma pop_step:
  assumes ok: "queue_ok c q"
  shows "\<exists>q'. queue_ok c q' \<and>
    (case contents c q of
       [] \<Rightarrow> pop c moved spurious q = Returns (None, q)
     | x # xs \<Rightarrow>
         if spurious then pop c moved spurious q = Returns (None, q)
         else pop c moved spurious q = Returns (Some x, q') \<and> contents c q' = xs \<and> q_size q' = q_size q - 1)"
proof (cases "empty q")
  case True
  with ok contents_empty [OF ok] show ?thesis by (auto simp: pop_def empty_def)
next
  case False
  let ?h = "unat (q_head q)" let ?t = "unat (q_tail q)"
  from ok have b: "?h < c" "?t < c" "length (q_arr q) = c" by (simp_all add: queue_ok_def)
  from False have ht: "?h \<noteq> ?t" by (simp add: empty_def unat_same)
  obtain n where n: "next_index c q (q_head q) = Returns n" "unat n = (?h + 1) mod c"
    using next_index_ring [OF ok b(1)] by blast
  let ?q = "q\<lparr>q_head := n, q_arr := (q_arr q)[?h := moved (q_arr q ! ?h)], q_size := q_size q - 1\<rparr>"
  have "contents c q = q_arr q ! ?h # contents c ?q"
    using ring_pop [OF b(1,2) ht b(3), of "moved (q_arr q ! ?h)"]
    by (simp add: contents_def n(2) count_pop [OF b(1,2) ht])
  moreover have "queue_ok c ?q" using ok n(2) by (auto simp: queue_ok_def)
  ultimately show ?thesis using b n False
    by (intro exI [of _ ?q]) (auto simp: pop_def empty_def Let_def)
qed

section \<open>A bounded queue\<close>

text \<open>
  What the thread pool needs of its queue, as an interface: what is held is a list, a push appends while
  there is room, a pop takes the first or, when it gives up, changes nothing.  The client's facts are
  about any sequence of calls.
\<close>

datatype 't queue_op = Push 't | Pop bool

text \<open>The values a sequence of calls takes out, in order, and the queue after it.\<close>

fun queue_run ::
  "('t \<Rightarrow> 'q \<Rightarrow> (bool \<times> 'q) outcome) \<Rightarrow> (bool \<Rightarrow> 'q \<Rightarrow> ('t option \<times> 'q) outcome) \<Rightarrow>
   't queue_op list \<Rightarrow> 'q \<Rightarrow> ('t list \<times> 'q) outcome" where
  "queue_run put get [] q = Returns ([], q)"
| "queue_run put get (Push x # ops) q = obind (put x q) (\<lambda>(_, q'). queue_run put get ops q')"
| "queue_run put get (Pop gives_up # ops) q =
     obind (get gives_up q) (\<lambda>(r, q').
     obind (queue_run put get ops q') (\<lambda>(rs, q''). Returns ((case r of None \<Rightarrow> rs | Some x \<Rightarrow> x # rs), q'')))"

text \<open>The same calls on a list; \<open>None\<close> where a push finds no room.\<close>

fun list_run :: "nat \<Rightarrow> 't queue_op list \<Rightarrow> 't list \<Rightarrow> ('t list \<times> 't list) option" where
  "list_run room [] xs = Some ([], xs)"
| "list_run room (Push x # ops) xs = (if length xs < room then list_run room ops (xs @ [x]) else None)"
| "list_run room (Pop gives_up # ops) xs =
     (if gives_up \<or> xs = [] then list_run room ops xs
      else map_option (\<lambda>(rs, xs'). (hd xs # rs, xs')) (list_run room ops (tl xs)))"

fun pushed :: "'t queue_op list \<Rightarrow> 't list" where
  "pushed [] = []"
| "pushed (Push x # ops) = x # pushed ops"
| "pushed (Pop _ # ops) = pushed ops"

lemma list_run_conserves: "list_run room ops xs = Some (rs, xs') \<Longrightarrow> rs @ xs' = xs @ pushed ops"
proof (induction room ops xs arbitrary: rs rule: list_run.induct)
  case (3 room gives_up ops xs)
  then show ?case by (cases xs) (auto split: if_splits)
qed (auto split: if_splits)

locale bounded_queue =
  fixes put :: "'t \<Rightarrow> 'q \<Rightarrow> (bool \<times> 'q) outcome"
    and get :: "bool \<Rightarrow> 'q \<Rightarrow> ('t option \<times> 'q) outcome"
    and held :: "'q \<Rightarrow> 't list"
    and well_formed :: "'q \<Rightarrow> bool"
    and room :: nat
  assumes put_room: "well_formed q \<Longrightarrow> length (held q) < room \<Longrightarrow>
      \<exists>q'. put x q = Returns (True, q') \<and> well_formed q' \<and> held q' = held q @ [x]"
    and get_none: "well_formed q \<Longrightarrow> gives_up \<or> held q = [] \<Longrightarrow> get gives_up q = Returns (None, q)"
    and get_first: "well_formed q \<Longrightarrow> held q = x # xs \<Longrightarrow>
      \<exists>q'. get False q = Returns (Some x, q') \<and> well_formed q' \<and> held q' = xs"
begin

lemma refines_list:
  "well_formed q \<Longrightarrow> list_run room ops (held q) = Some (rs, xs) \<Longrightarrow>
   \<exists>q'. queue_run put get ops q = Returns (rs, q') \<and> well_formed q' \<and> held q' = xs"
proof (induction ops arbitrary: q rs)
  case (Cons op ops)
  show ?case
  proof (cases op)
    case (Push x)
    with Cons.prems have "length (held q) < room" by (auto split: if_splits)
    with put_room [OF Cons.prems(1)] obtain q1 where
      q1: "put x q = Returns (True, q1)" "well_formed q1" "held q1 = held q @ [x]" by blast
    with Cons.IH [OF q1(2)] Cons.prems(2) Push show ?thesis by (auto split: if_splits)
  next
    case (Pop b)
    show ?thesis
    proof (cases "b \<or> held q = []")
      case True
      with get_none [OF Cons.prems(1)] have "get b q = Returns (None, q)" by blast
      with Cons.IH [OF Cons.prems(1)] Cons.prems(2) Pop True show ?thesis by auto
    next
      case False
      then obtain x xs1 where x: "held q = x # xs1" "b = False" by (cases "held q") auto
      with get_first [OF Cons.prems(1)] obtain q1 where
        q1: "get b q = Returns (Some x, q1)" "well_formed q1" "held q1 = xs1" by blast
      with Cons.IH [OF q1(2)] Cons.prems(2) Pop x show ?thesis by auto
    qed
  qed
qed simp

end

text \<open>The ring provides it, with room for one element less than its capacity.\<close>

definition queue_sized :: "nat \<Rightarrow> 't queue \<Rightarrow> bool" where
  "queue_sized c q \<longleftrightarrow> queue_ok c q \<and> q_size q = word_of_nat (length (contents c q))"

lemma new_queue_sized: "0 < c \<Longrightarrow> c \<le> 100 \<Longrightarrow> queue_sized c (new_queue c d)"
  using new_queue_ok [of c d] contents_new [of c d]
  by (simp add: queue_sized_def SMALL_INTEGER_OPTIMISATION_LIMIT_def) (simp add: new_queue_def)

interpretation lock_free: bounded_queue "push c" "pop c moved" "contents c" "queue_sized c" "c - 1" for c moved
proof unfold_locales
  fix q :: "'a queue" and x b xs
  assume q: "queue_sized c q"
  then have ok: "queue_ok c q" and size: "q_size q = word_of_nat (length (contents c q))"
    by (simp_all add: queue_sized_def)
  show "length (contents c q) < c - 1 \<Longrightarrow>
      \<exists>q'. push c x q = Returns (True, q') \<and> queue_sized c q' \<and> contents c q' = contents c q @ [x]"
    using push_step [OF ok, of x] size by (auto simp: queue_sized_def add.commute)
  show "b \<or> contents c q = [] \<Longrightarrow> pop c moved b q = Returns (None, q)"
    using pop_step [OF ok, of moved b] by (cases "contents c q") auto
  show "contents c q = x # xs \<Longrightarrow> \<exists>q'. pop c moved False q = Returns (Some x, q') \<and> queue_sized c q' \<and> contents c q' = xs"
    using pop_step [OF ok, of moved False] size by (auto simp: queue_sized_def)
qed

text \<open>
  C10. The queue is a first-in first-out list while there is room.  From a new queue, any sequence of
  pushes and pops (pops that give up because the exchange failed included) in which no push finds
  \<open>capacity - 1\<close> elements held behaves as on a list: no operation is undefined, the values taken out are
  those the list gives, followed by what is left they are the pushed values in order, and the size
  counter counts what is left.
\<close>

theorem queue_refines_list:
  assumes "0 < c" and "c \<le> 100" and "list_run (c - 1) ops [] = Some (rs, xs)"
  shows "\<exists>q. queue_run (push c) (pop c moved) ops (new_queue c d) = Returns (rs, q) \<and>
    contents c q = xs \<and> rs @ xs = pushed ops \<and> q_size q = word_of_nat (length xs) \<and> (empty q \<longleftrightarrow> xs = [])"
proof -
  from lock_free.refines_list [OF new_queue_sized [OF assms(1,2), of d], where ops = ops and rs = rs and xs = xs and moved = moved] assms contents_new [OF assms(1), of d]
  obtain q where "queue_run (push c) (pop c moved) ops (new_queue c d) = Returns (rs, q)"
    "queue_sized c q" "contents c q = xs" by auto
  with list_run_conserves [OF assms(3)] contents_empty [of c q] show ?thesis
    by (auto simp: queue_sized_def)
qed

theorem queue_refines_list_witness:
  "\<exists>q. queue_run (push 3) (pop 3 (\<lambda>_. ''''))
       [Push ''a'', Pop True, Push ''b'', Pop False, Push ''c'', Pop False, Push ''d'', Pop False] (new_queue 3 '''') =
     Returns ([''a'', ''b'', ''c''], q) \<and> contents 3 q = [''d'']"
  using queue_refines_list [of 3 "[Push ''a'', Pop True, Push ''b'', Pop False, Push ''c'', Pop False, Push ''d'', Pop False]"
      "[''a'', ''b'', ''c'']" "[''d'']" "\<lambda>_. ''''" "''''"] by auto

text \<open>
  C34. The push into a full queue.  \<^verbatim>\<open>push\<close> does not ask \<^verbatim>\<open>full\<close>: with \<open>capacity - 1\<close> elements held it
  still stores the element and reports success, and the queue is empty afterwards: all \<open>capacity\<close>
  elements are out of reach and a pop finds none, while the size counter says \<open>capacity\<close>.
\<close>

theorem push_into_full_loses_all:
  assumes "queue_ok c q" and "length (contents c q) = c - 1"
  shows "full c q = Returns True \<and>
    (\<exists>q'. push c x q = Returns (True, q') \<and> contents c q' = [] \<and> pop c moved spurious q' = Returns (None, q') \<and>
      q_size q' = q_size q + 1)"
proof
  let ?h = "unat (q_head q)" let ?t = "unat (q_tail q)"
  from assms(1) have b: "?h < c" "?t < c" by (simp_all add: queue_ok_def)
  obtain n where n: "next_index c q (q_tail q) = Returns n" "unat n = Suc ?t mod c"
    using next_index_ring [OF assms(1) b(2)] by auto
  have "count_between c ?h ?t = c - 1" using assms(2) by (simp add: contents_def ring_def)
  with count_push [OF b] have "count_between c ?h (unat n) = 0" by (simp add: n(2))
  with count_zero [OF b(1), of "unat n"] b(2) have "?h = unat n" by (simp add: n(2))
  with n(1) show "full c q = Returns True" by (simp add: full_def unat_same)
  from push_step [OF assms(1), of x] assms(2) obtain q' where
    q': "push c x q = Returns (True, q')" "queue_ok c q'" "contents c q' = []" "q_size q' = q_size q + 1"
    by auto
  with pop_step [OF q'(2), of moved spurious] show
    "\<exists>q'. push c x q = Returns (True, q') \<and> contents c q' = [] \<and> pop c moved spurious q' = Returns (None, q') \<and>
      q_size q' = q_size q + 1" by auto
qed

theorem push_into_full_loses_all_witness:
  "\<exists>q q'. queue_run (push 3) (pop 3 id) [Push (1::nat), Push 2] (new_queue 3 0) = Returns ([], q) \<and>
     push 3 3 q = Returns (True, q') \<and> pop 3 id False q' = Returns (None, q') \<and> q_size q' = 3"
proof -
  obtain q where q: "queue_run (push 3) (pop 3 id) [Push (1::nat), Push 2] (new_queue 3 0) = Returns ([], q)"
    "queue_ok 3 q" "contents 3 q = [1, 2]" "q_size q = 2"
    using lock_free.refines_list [OF new_queue_sized [of 3 "0::nat"], where ops = "[Push 1, Push 2]" and rs = "[]" and xs = "[1, 2]" and moved = id]
      contents_new [of 3 "0::nat"]
    by (auto simp: queue_sized_def simp del: queue_run.simps)
  from push_into_full_loses_all [OF q(2), of 3 id False] q show ?thesis by auto
qed

end
