(* ===== verification/QueueConcurrent.thy ===== *)
theory QueueConcurrent
  imports LockFreeQueue "HOL-Library.Multiset"
begin

text \<open>
  The same queue under concurrency: \<^verbatim>\<open>push\<close> and \<^verbatim>\<open>pop\<close> cut into their accesses to shared memory, one
  producer (the accepting thread) and any number of consumers (the workers of the thread pool),
  interleaved in every order.  The accesses are sequentially consistent here: this is one part of what the code
  does, the executions in which every load reads the newest value.  The orders that the code asks for, of which
  the relaxed load of the head allows more, are in \<open>QueueWeak\<close>; \<open>QueueSequential\<close> relates the two.  \<open>started\<close> and \<open>delivered\<close> record
  what happened and are read by nothing.
\<close>

section \<open>The accesses\<close>

datatype 't producer =
    PIdle
  | PLoaded 't u32
  | PWritten u32
  | PStored

datatype 't consumer =
    CIdle
  | CHead u32
  | CNonEmpty u32
  | CWon u32
  | CTaken 't

record 't shared =
  sh_queue :: "'t queue"
  sh_producer :: "'t producer"
  sh_consumers :: "'t consumer list"
  started :: "'t list"
  delivered :: "'t list"

datatype 't mem_access =
    LoadTail 't
  | WriteSlot
  | StoreTail
  | IncSize
  | LoadHead nat
  | CompareTail nat
  | Exchange nat bool
  | MoveSlot nat
  | DecSize nat

definition new_shared :: "nat \<Rightarrow> nat \<Rightarrow> 't \<Rightarrow> 't shared" where
  "new_shared c workers d =
     \<lparr>sh_queue = new_queue c d, sh_producer = PIdle, sh_consumers = replicate workers CIdle,
      started = [], delivered = []\<rparr>"

definition at :: "'t shared \<Rightarrow> nat \<Rightarrow> 't consumer option" where
  "at s i = (if i < length (sh_consumers s) then Some (sh_consumers s ! i) else None)"

definition goto :: "nat \<Rightarrow> 't consumer \<Rightarrow> 't shared \<Rightarrow> 't shared" where
  "goto i pc s = s\<lparr>sh_consumers := (sh_consumers s)[i := pc]\<rparr>"

text \<open>One access; \<open>None\<close> where the thread is not at that access, or the access is undefined.\<close>

fun access :: "nat \<Rightarrow> ('t \<Rightarrow> 't) \<Rightarrow> 't mem_access \<Rightarrow> 't shared \<Rightarrow> 't shared option" where
  "access c moved (LoadTail x) s =
     (case sh_producer s of
        PIdle \<Rightarrow> Some (s\<lparr>sh_producer := PLoaded x (q_tail (sh_queue s)), started := started s @ [x]\<rparr>)
      | _ \<Rightarrow> None)"
| "access c moved WriteSlot s =
     (let q = sh_queue s in
      case sh_producer s of
        PLoaded x t \<Rightarrow>
          if unat t < length (q_arr q)
          then Some (s\<lparr>sh_queue := q\<lparr>q_arr := (q_arr q)[unat t := x]\<rparr>, sh_producer := PWritten t\<rparr>) else None
      | _ \<Rightarrow> None)"
| "access c moved StoreTail s =
     (let q = sh_queue s in
      case sh_producer s of
        PWritten t \<Rightarrow>
          (case next_index c q t of
             Returns n \<Rightarrow> Some (s\<lparr>sh_queue := q\<lparr>q_tail := n\<rparr>, sh_producer := PStored\<rparr>)
           | _ \<Rightarrow> None)
      | _ \<Rightarrow> None)"
| "access c moved IncSize s =
     (let q = sh_queue s in
      case sh_producer s of
        PStored \<Rightarrow> Some (s\<lparr>sh_queue := q\<lparr>q_size := q_size q + 1\<rparr>, sh_producer := PIdle\<rparr>)
      | _ \<Rightarrow> None)"
| "access c moved (LoadHead i) s =
     (case at s i of Some CIdle \<Rightarrow> Some (goto i (CHead (q_head (sh_queue s))) s) | _ \<Rightarrow> None)"
| "access c moved (CompareTail i) s =
     (case at s i of
        Some (CHead h) \<Rightarrow> Some (goto i (if h = q_tail (sh_queue s) then CIdle else CNonEmpty h) s)
      | _ \<Rightarrow> None)"
| "access c moved (Exchange i spurious) s =
     (let q = sh_queue s in
      case at s i of
        Some (CNonEmpty h) \<Rightarrow>
          if q_head q \<noteq> h \<or> spurious then Some (goto i CIdle s)
          else (case next_index c q h of
                  Returns n \<Rightarrow> Some (goto i (CWon h) (s\<lparr>sh_queue := q\<lparr>q_head := n\<rparr>\<rparr>))
                | _ \<Rightarrow> None)
      | _ \<Rightarrow> None)"
| "access c moved (MoveSlot i) s =
     (let q = sh_queue s in
      case at s i of
        Some (CWon h) \<Rightarrow>
          if unat h < length (q_arr q)
          then Some (goto i (CTaken (q_arr q ! unat h))
            (s\<lparr>sh_queue := q\<lparr>q_arr := (q_arr q)[unat h := moved (q_arr q ! unat h)]\<rparr>\<rparr>)) else None
      | _ \<Rightarrow> None)"
| "access c moved (DecSize i) s =
     (let q = sh_queue s in
      case at s i of
        Some (CTaken x) \<Rightarrow>
          Some (goto i CIdle (s\<lparr>sh_queue := q\<lparr>q_size := q_size q - 1\<rparr>, delivered := delivered s @ [x]\<rparr>))
      | _ \<Rightarrow> None)"

inductive reachable :: "nat \<Rightarrow> ('t \<Rightarrow> 't) \<Rightarrow> nat \<Rightarrow> 't \<Rightarrow> 't shared \<Rightarrow> bool"
  for c moved workers d where
  start: "reachable c moved workers d (new_shared c workers d)"
| step: "reachable c moved workers d s \<Longrightarrow> access c moved a s = Some s' \<Longrightarrow> reachable c moved workers d s'"

text \<open>A schedule is a sequence of accesses; \<open>roomy\<close> ones start no push without room.\<close>

fun schedule :: "nat \<Rightarrow> ('t \<Rightarrow> 't) \<Rightarrow> 't mem_access list \<Rightarrow> 't shared \<Rightarrow> 't shared option" where
  "schedule c moved [] s = Some s"
| "schedule c moved (a # as) s =
     (case access c moved a s of None \<Rightarrow> None | Some s' \<Rightarrow> schedule c moved as s')"

fun roomy :: "nat \<Rightarrow> ('t \<Rightarrow> 't) \<Rightarrow> 't mem_access list \<Rightarrow> 't shared \<Rightarrow> bool" where
  "roomy c moved [] s = True"
| "roomy c moved (a # as) s =
     ((case a of LoadTail _ \<Rightarrow> length (contents c (sh_queue s)) < c - 1 | _ \<Rightarrow> True) \<and>
      (case access c moved a s of None \<Rightarrow> True | Some s' \<Rightarrow> roomy c moved as s'))"

lemma schedule_reachable:
  "reachable c moved workers d s \<Longrightarrow> schedule c moved as s = Some s' \<Longrightarrow> reachable c moved workers d s'"
  by (induction as arbitrary: s) (auto split: option.splits intro: reachable.step)

section \<open>Facts about single accesses\<close>

lemma at_Some: "at s i = Some pc \<longleftrightarrow> i < length (sh_consumers s) \<and> sh_consumers s ! i = pc"
  by (simp add: at_def)

lemma access_started: "access c moved a s = Some s' \<Longrightarrow> \<exists>xs. started s' = started s @ xs"
  by (cases a) (auto simp: Let_def goto_def split: producer.splits option.splits consumer.splits outcome.splits if_splits)

lemma access_consumers: "access c moved a s = Some s' \<Longrightarrow> length (sh_consumers s') = length (sh_consumers s)"
  by (cases a) (auto simp: Let_def goto_def split: producer.splits option.splits consumer.splits outcome.splits if_splits)

definition push_accesses :: "'t \<Rightarrow> 't mem_access list" where
  "push_accesses x = [LoadTail x, WriteSlot, StoreTail, IncSize]"

definition pop_accesses :: "nat \<Rightarrow> 't mem_access list" where
  "pop_accesses i = [LoadHead i, CompareTail i, Exchange i False, MoveSlot i, DecSize i]"

lemma replicate_small: "replicate 2 a = [a, a]" "replicate 3 b = [b, b, b]"
  by (simp_all add: numeral_2_eq_2 numeral_3_eq_3)

section \<open>The accesses of an operation that is not disturbed\<close>

definition pop_outcome_accesses :: "nat \<Rightarrow> bool \<Rightarrow> 't queue \<Rightarrow> 't mem_access list" where
  "pop_outcome_accesses i spurious q =
     LoadHead i # CompareTail i #
       (if empty q then [] else Exchange i spurious # (if spurious then [] else [MoveSlot i, DecSize i]))"

text \<open>
  The accesses are those of the operations.  When nobody else runs in between, the four accesses of
  \<^verbatim>\<open>push\<close> and the accesses of \<^verbatim>\<open>pop\<close>, on an empty queue, with an exchange that gives up and with one that
  succeeds, do to the queue exactly what the operations do in one go, and return the same; the
  other threads are where they were.
\<close>

theorem accesses_are_operations:
  "(sh_producer s = PIdle \<and> push c x (sh_queue s) = Returns (b, q) \<longrightarrow>
      schedule c moved (push_accesses x) s = Some (s\<lparr>sh_queue := q, started := started s @ [x]\<rparr>)) \<and>
   (at s i = Some CIdle \<and> pop c moved spurious (sh_queue s) = Returns (r, q) \<longrightarrow>
      schedule c moved (pop_outcome_accesses i spurious (sh_queue s)) s =
        Some (s\<lparr>sh_queue := q, delivered := delivered s @ (case r of None \<Rightarrow> [] | Some y \<Rightarrow> [y])\<rparr>))"
proof (intro conjI impI; elim conjE)
  assume "sh_producer s = PIdle" "push c x (sh_queue s) = Returns (b, q)"
  then show "schedule c moved (push_accesses x) s = Some (s\<lparr>sh_queue := q, started := started s @ [x]\<rparr>)"
    by (auto simp: push_def push_accesses_def Let_def next_index_def obind_eq_Returns split: if_splits)
next
  assume i: "at s i = Some CIdle" and p: "pop c moved spurious (sh_queue s) = Returns (r, q)"
  from i have ii: "i < length (sh_consumers s)" "sh_consumers s ! i = CIdle" by (simp_all add: at_Some)
  then have "(sh_consumers s)[i := CIdle] = sh_consumers s" by (metis list_update_id)
  with ii p show "schedule c moved (pop_outcome_accesses i spurious (sh_queue s)) s =
      Some (s\<lparr>sh_queue := q, delivered := delivered s @ (case r of None \<Rightarrow> [] | Some y \<Rightarrow> [y])\<rparr>)"
    by (auto simp: pop_def pop_outcome_accesses_def empty_def at_def goto_def Let_def next_index_def obind_eq_Returns
        split: if_splits)
qed

theorem accesses_are_operations_witness:
  "\<exists>q s q' s'. push 3 ''a'' (new_queue 3 '''') = Returns (True, q) \<and>
     schedule 3 id (push_accesses ''a'') (new_shared 3 1 '''') = Some s \<and> sh_queue s = q \<and>
     pop 3 id False q = Returns (Some ''a'', q') \<and>
     schedule 3 id (pop_outcome_accesses 0 False q) s = Some s' \<and> sh_queue s' = q' \<and> delivered s' = [''a'']"
proof -
  let ?s = "new_shared 3 1 ''''"
  note defs = new_queue_def next_index_def array_at_def SMALL_INTEGER_OPTIMISATION_LIMIT_def upt_rec replicate_small
  have idle: "sh_producer ?s = PIdle" "at ?s 0 = Some CIdle" "delivered ?s = []" "sh_queue ?s = new_queue 3 ''''"
    by (simp_all add: new_shared_def at_def)
  have "\<exists>q. push 3 ''a'' (new_queue 3 '''') = Returns (True, q) \<and> (\<exists>q'. pop 3 id False q = Returns (Some ''a'', q'))"
    by (simp add: push_def pop_def defs)
  then obtain q q' where q: "push 3 ''a'' (new_queue 3 '''') = Returns (True, q)"
    "pop 3 id False q = Returns (Some ''a'', q')" by blast
  let ?s' = "?s\<lparr>sh_queue := q, started := started ?s @ [''a'']\<rparr>"
  have 1: "schedule 3 id (push_accesses ''a'') ?s = Some ?s'"
    using accesses_are_operations [THEN conjunct1] idle(1,4) q(1) by metis
  have "at ?s' 0 = Some CIdle" using idle(2) by (simp add: at_Some)
  then have "schedule 3 id (pop_outcome_accesses 0 False (sh_queue ?s')) ?s' =
      Some (?s'\<lparr>sh_queue := q', delivered := delivered ?s' @ [''a'']\<rparr>)"
    using accesses_are_operations [THEN conjunct2, of ?s' 0 3 id False "Some ''a''" q'] q(2) by simp
  with 1 q idle show ?thesis by (intro exI conjI) (assumption | simp)+
qed

section \<open>A stale head\<close>

definition stale_schedule :: "'t \<Rightarrow> 't \<Rightarrow> 't \<Rightarrow> 't mem_access list" where
  "stale_schedule x y z =
     push_accesses x @ [LoadHead 0, CompareTail 0] @ pop_accesses 1 @
     push_accesses y @ pop_accesses 1 @ push_accesses z @ pop_accesses 1 @
     [Exchange 0 False, MoveSlot 0, DecSize 0]"

text \<open>
  A stale head.  With more pushes than slots the queue delivers what was never pushed, although
  every push finds room: a consumer that has read the head and compared it with the tail is overtaken by
  a whole round of pushes and pops, its exchange then succeeds on the empty queue, and it delivers what
  the move of the round's first element left behind.  Afterwards the empty queue counts as holding
  \<open>capacity - 1\<close> elements, and the size counter has wrapped around.
\<close>

theorem stale_head_delivers:
  "\<exists>s. schedule 3 moved (stale_schedule x y z) (new_shared 3 2 d) = Some s \<and> reachable 3 moved 2 d s \<and>
     roomy 3 moved (stale_schedule x y z) (new_shared 3 2 d) \<and>
     started s = [x, y, z] \<and> delivered s = [x, y, z, moved x] \<and>
     length (contents 3 (sh_queue s)) = 2 \<and> q_size (sh_queue s) = - 1"
proof -
  note defs = stale_schedule_def push_accesses_def pop_accesses_def new_shared_def new_queue_def at_def goto_def
    next_index_def array_at_def SMALL_INTEGER_OPTIMISATION_LIMIT_def upt_rec replicate_small
    contents_def ring_def count_between_def
  have "\<exists>s. schedule 3 moved (stale_schedule x y z) (new_shared 3 2 d) = Some s \<and>
     started s = [x, y, z] \<and> delivered s = [x, y, z, moved x] \<and>
     length (contents 3 (sh_queue s)) = 2 \<and> q_size (sh_queue s) = - 1"
    by (simp add: defs)
  then obtain s where s: "schedule 3 moved (stale_schedule x y z) (new_shared 3 2 d) = Some s"
    and rest: "started s = [x, y, z]" "delivered s = [x, y, z, moved x]"
     "length (contents 3 (sh_queue s)) = 2" "q_size (sh_queue s) = - 1" by blast
  have "roomy 3 moved (stale_schedule x y z) (new_shared 3 2 d)" by (simp add: defs)
  with s rest schedule_reachable [OF reachable.start s] show ?thesis by blast
qed

end
