(* ===== verification/QueueDelivery.thy ===== *)
theory QueueDelivery
  imports QueueConcurrent
begin

text \<open>
  Delivery by the queue under concurrency, over runs of any length.  The indices of the ring are
  residues of counters that only grow; a history variable keeps, for each consumer inside \<^verbatim>\<open>pop\<close>, the
  value the head's counter had when it read the head.  While no push laps such a consumer, the
  index it holds stands for that counter alone, and nothing is lost, duplicated or invented.
\<close>

section \<open>Runs in which no consumer is lapped\<close>

record history =
  popped :: nat
  claims :: "nat option list"

definition new_history :: "nat \<Rightarrow> history" where
  "new_history workers = \<lparr>popped = 0, claims = replicate workers None\<rparr>"

text \<open>
  The claim of a consumer begins when it reads the head and ends when it gives up or has moved
  the element out of its slot.
\<close>

fun record_access :: "'t mem_access \<Rightarrow> 't shared \<Rightarrow> history \<Rightarrow> history" where
  "record_access (LoadHead i) s' g = g\<lparr>claims := (claims g)[i := Some (popped g)]\<rparr>"
| "record_access (CompareTail i) s' g =
     (if at s' i = Some CIdle then g\<lparr>claims := (claims g)[i := None]\<rparr> else g)"
| "record_access (Exchange i spurious) s' g =
     (if at s' i = Some CIdle then g\<lparr>claims := (claims g)[i := None]\<rparr> else g\<lparr>popped := Suc (popped g)\<rparr>)"
| "record_access (MoveSlot i) s' g = g\<lparr>claims := (claims g)[i := None]\<rparr>"
| "record_access _ s' g = g"

definition unlapped :: "nat \<Rightarrow> 't shared \<Rightarrow> history \<Rightarrow> bool" where
  "unlapped c s g \<longleftrightarrow>
     Suc (length (started s)) - popped g < c \<and>
     list_all (case_option True (\<lambda>k. Suc (length (started s)) - k < c)) (claims g)"

lemma unlapped_claim: "unlapped c s g \<Longrightarrow> Some k \<in> set (claims g) \<Longrightarrow> Suc (length (started s)) - k < c"
  by (auto simp: unlapped_def list_all_iff)

inductive paced :: "nat \<Rightarrow> ('t \<Rightarrow> 't) \<Rightarrow> nat \<Rightarrow> 't \<Rightarrow> 't shared \<Rightarrow> history \<Rightarrow> bool"
  for c moved workers d where
  start: "paced c moved workers d (new_shared c workers d) (new_history workers)"
| step: "paced c moved workers d s g \<Longrightarrow> (\<And>x. a = LoadTail x \<Longrightarrow> unlapped c s g) \<Longrightarrow>
    access c moved a s = Some s' \<Longrightarrow> paced c moved workers d s' (record_access a s' g)"

fun paced_schedule :: "nat \<Rightarrow> ('t \<Rightarrow> 't) \<Rightarrow> 't mem_access list \<Rightarrow> 't shared \<Rightarrow> history \<Rightarrow> ('t shared \<times> history) option" where
  "paced_schedule c moved [] s g = Some (s, g)"
| "paced_schedule c moved (a # as) s g =
     (case access c moved a s of
        None \<Rightarrow> None
      | Some s' \<Rightarrow>
          if (case a of LoadTail _ \<Rightarrow> unlapped c s g | _ \<Rightarrow> True)
          then paced_schedule c moved as s' (record_access a s' g) else None)"

lemma paced_schedule_paced:
  "paced c moved workers d s g \<Longrightarrow> paced_schedule c moved as s g = Some (s', g') \<Longrightarrow> paced c moved workers d s' g'"
proof (induction as arbitrary: s g)
  case (Cons a as)
  from Cons.prems(2) obtain s1 where s1: "access c moved a s = Some s1"
    and room: "case a of LoadTail x \<Rightarrow> unlapped c s g | _ \<Rightarrow> True"
    and rest: "paced_schedule c moved as s1 (record_access a s1 g) = Some (s', g')"
    by (auto split: option.splits if_splits)
  from room have "unlapped c s g" if "a = LoadTail x" for x using that by simp
  from Cons.IH [OF paced.step [OF Cons.prems(1) this s1] rest] show ?case .
qed simp

lemma paced_reachable: "paced c moved workers d s g \<Longrightarrow> reachable c moved workers d s"
  by (induction rule: paced.induct) (auto intro: reachable.intros)

section \<open>The invariant\<close>

text \<open>The pushes whose tail store has happened.\<close>

definition stored :: "'t shared \<Rightarrow> nat" where
  "stored s = (case sh_producer s of
     PIdle \<Rightarrow> length (started s) | PStored \<Rightarrow> length (started s) | _ \<Rightarrow> length (started s) - 1)"

fun carried_by :: "'t list \<Rightarrow> 't consumer \<Rightarrow> nat option \<Rightarrow> 't multiset" where
  "carried_by vals (CWon h) (Some k) = {#vals ! k#}"
| "carried_by vals (CTaken x) k = {#x#}"
| "carried_by vals _ _ = {#}"

definition under_way :: "'t list \<Rightarrow> 't consumer list \<Rightarrow> nat option list \<Rightarrow> 't multiset" where
  "under_way vals pcs ks = sum_list (map2 (carried_by vals) pcs ks)"

fun pushing_ok :: "nat \<Rightarrow> 't list \<Rightarrow> 't list \<Rightarrow> 't producer \<Rightarrow> bool" where
  "pushing_ok c vals arr PIdle = True"
| "pushing_ok c vals arr PStored = True"
| "pushing_ok c vals arr (PLoaded x t) \<longleftrightarrow> vals \<noteq> [] \<and> unat t = (length vals - 1) mod c \<and> last vals = x"
| "pushing_ok c vals arr (PWritten t) \<longleftrightarrow> vals \<noteq> [] \<and> unat t = (length vals - 1) mod c \<and> arr ! unat t = last vals"

fun popping_ok :: "nat \<Rightarrow> 't list \<Rightarrow> 't list \<Rightarrow> nat \<Rightarrow> nat \<Rightarrow> 't consumer \<Rightarrow> nat option \<Rightarrow> bool" where
  "popping_ok c vals arr H T CIdle k \<longleftrightarrow> k = None"
| "popping_ok c vals arr H T (CTaken x) k \<longleftrightarrow> k = None"
| "popping_ok c vals arr H T (CHead h) k \<longleftrightarrow> (\<exists>m. k = Some m \<and> unat h = m mod c \<and> m \<le> H)"
| "popping_ok c vals arr H T (CNonEmpty h) k \<longleftrightarrow> (\<exists>m. k = Some m \<and> unat h = m mod c \<and> m \<le> H \<and> m < T)"
| "popping_ok c vals arr H T (CWon h) k \<longleftrightarrow>
     (\<exists>m. k = Some m \<and> unat h = m mod c \<and> m < H \<and> arr ! unat h = vals ! m)"

definition delivery_ok :: "nat \<Rightarrow> 't shared \<Rightarrow> history \<Rightarrow> bool" where
  "delivery_ok c s g \<longleftrightarrow>
     (let q = sh_queue s; H = popped g; T = stored s; n = length (started s); pcs = sh_consumers s; ks = claims g in
      queue_ok c q \<and> length ks = length pcs \<and> H \<le> T \<and> n - H < c \<and>
      unat (q_head q) = H mod c \<and> unat (q_tail q) = T mod c \<and>
      (\<forall>k. Some k \<in> set ks \<longrightarrow> n - k < c) \<and>
      pushing_ok c (started s) (q_arr q) (sh_producer s) \<and>
      (\<forall>i. H \<le> i \<and> i < T \<longrightarrow> q_arr q ! (i mod c) = started s ! i) \<and>
      (\<forall>j < length pcs. popping_ok c (started s) (q_arr q) H T (pcs ! j) (ks ! j)) \<and>
      (\<forall>i < length pcs. \<forall>j < length pcs. \<forall>h h'.
         pcs ! i = CWon h \<and> pcs ! j = CWon h' \<and> ks ! i = ks ! j \<longrightarrow> i = j) \<and>
      mset (delivered s) + under_way (started s) pcs ks = mset (take H (started s)))"

lemma delivery_okD:
  assumes "delivery_ok c s g"
  defines "q \<equiv> sh_queue s" and "H \<equiv> popped g" and "T \<equiv> stored s" and "n \<equiv> length (started s)"
    and "pcs \<equiv> sh_consumers s" and "ks \<equiv> claims g"
  shows "queue_ok c q" and "length ks = length pcs" and "H \<le> T" and "n - H < c"
    and "unat (q_head q) = H mod c" and "unat (q_tail q) = T mod c"
    and "Some k \<in> set ks \<Longrightarrow> n - k < c"
    and "pushing_ok c (started s) (q_arr q) (sh_producer s)"
    and "H \<le> i \<Longrightarrow> i < T \<Longrightarrow> q_arr q ! (i mod c) = started s ! i"
    and "j < length pcs \<Longrightarrow> popping_ok c (started s) (q_arr q) H T (pcs ! j) (ks ! j)"
    and "i < length pcs \<Longrightarrow> j < length pcs \<Longrightarrow> pcs ! i = CWon h \<Longrightarrow> pcs ! j = CWon h' \<Longrightarrow>
      ks ! i = ks ! j \<Longrightarrow> i = j"
    and "mset (delivered s) + under_way (started s) pcs ks = mset (take H (started s))"
  using assms by (simp_all add: delivery_ok_def Let_def)

lemma delivery_okI:
  assumes "queue_ok c (sh_queue s)" and "length (claims g) = length (sh_consumers s)"
    and "popped g \<le> stored s" and "length (started s) - popped g < c"
    and "unat (q_head (sh_queue s)) = popped g mod c" and "unat (q_tail (sh_queue s)) = stored s mod c"
    and "\<And>k. Some k \<in> set (claims g) \<Longrightarrow> length (started s) - k < c"
    and "pushing_ok c (started s) (q_arr (sh_queue s)) (sh_producer s)"
    and "\<And>i. popped g \<le> i \<Longrightarrow> i < stored s \<Longrightarrow> q_arr (sh_queue s) ! (i mod c) = started s ! i"
    and "\<And>j. j < length (sh_consumers s) \<Longrightarrow>
      popping_ok c (started s) (q_arr (sh_queue s)) (popped g) (stored s) (sh_consumers s ! j) (claims g ! j)"
    and "\<And>i j h h'. i < length (sh_consumers s) \<Longrightarrow> j < length (sh_consumers s) \<Longrightarrow>
      sh_consumers s ! i = CWon h \<Longrightarrow> sh_consumers s ! j = CWon h' \<Longrightarrow> claims g ! i = claims g ! j \<Longrightarrow> i = j"
    and "mset (delivered s) + under_way (started s) (sh_consumers s) (claims g) = mset (take (popped g) (started s))"
  shows "delivery_ok c s g"
  using assms unfolding delivery_ok_def Let_def by blast

section \<open>Residues and what is under way\<close>

text \<open>Two counters less than a round apart have different residues.\<close>

lemma mod_inj:
  assumes "i mod c = j mod (c :: nat)" and "i \<le> j" and "j - i < c"
  shows "i = j"
proof -
  from assms(1,2) have "(j - i) mod c = 0" by (metis mod_eq_dvd_iff_nat dvd_imp_mod_0)
  with assms(2,3) show ?thesis by simp
qed

lemma sum_map2_update:
  fixes f :: "'a \<Rightarrow> 'b \<Rightarrow> 'm :: comm_monoid_add"
  assumes "i < length xs" and "length ys = length xs"
  shows "sum_list (map2 f (xs[i := x]) (ys[i := y])) + f (xs ! i) (ys ! i) = sum_list (map2 f xs ys) + f x y"
  using assms
proof (induction xs arbitrary: i ys)
  case (Cons x' xs)
  from Cons.prems obtain y' ys' where ys: "ys = y' # ys'" "length ys' = length xs" by (cases ys) auto
  show ?case
  proof (cases i)
    case 0
    with ys show ?thesis by (simp add: ac_simps)
  next
    case (Suc j)
    with Cons.prems have "j < length xs" by simp
    from Cons.IH [OF this ys(2)] Suc ys show ?thesis by (simp add: ac_simps)
  qed
qed simp

lemma under_way_update:
  "i < length pcs \<Longrightarrow> length ks = length pcs \<Longrightarrow>
   under_way vals (pcs[i := pc]) (ks[i := k]) + carried_by vals (pcs ! i) (ks ! i) =
   under_way vals pcs ks + carried_by vals pc k"
  unfolding under_way_def by (rule sum_map2_update)

lemma under_way_same:
  "i < length pcs \<Longrightarrow> length ks = length pcs \<Longrightarrow> carried_by vals pc k = carried_by vals (pcs ! i) (ks ! i) \<Longrightarrow>
   under_way vals (pcs[i := pc]) (ks[i := k]) = under_way vals pcs ks"
  using under_way_update [of i pcs ks vals pc k] by simp

lemma under_way_append:
  assumes "\<And>j h k. j < length pcs \<Longrightarrow> pcs ! j = CWon h \<Longrightarrow> ks ! j = Some k \<Longrightarrow> k < length vals"
    and "length ks = length pcs"
  shows "under_way (vals @ vs) pcs ks = under_way vals pcs ks"
proof -
  have "carried_by (vals @ vs) (pcs ! j) (ks ! j) = carried_by vals (pcs ! j) (ks ! j)" if "j < length pcs" for j
    using that assms(1) [of j] by (cases "pcs ! j"; cases "ks ! j") (auto simp: nth_append)
  then have "map2 (carried_by (vals @ vs)) pcs ks = map2 (carried_by vals) pcs ks"
    using assms(2) by (intro nth_equalityI) auto
  then show ?thesis unfolding under_way_def by (rule arg_cong)
qed

lemma popping_mono:
  "popping_ok c vals arr H T pc k \<Longrightarrow> H \<le> H' \<Longrightarrow> T \<le> T' \<Longrightarrow>
   (\<forall>h m. pc = CWon h \<and> k = Some m \<and> unat h = m mod c \<and> m < H \<longrightarrow> arr' ! unat h = arr ! unat h \<and> vals' ! m = vals ! m) \<Longrightarrow>
   popping_ok c vals' arr' H' T' pc k"
  by (cases pc) auto

lemma stored_le: "stored s \<le> length (started s)"
  by (auto simp: stored_def split: producer.split)

section \<open>Each access keeps the invariant\<close>

lemma goto_simps [simp]:
  "sh_queue (goto i pc s) = sh_queue s" "started (goto i pc s) = started s" "delivered (goto i pc s) = delivered s"
  "sh_producer (goto i pc s) = sh_producer s" "sh_consumers (goto i pc s) = (sh_consumers s)[i := pc]"
  "stored (goto i pc s) = stored s"
  by (simp_all add: goto_def stored_def split: producer.split)

text \<open>A consumer that moves on without touching the queue.\<close>

lemma consumer_moves:
  assumes ok: "delivery_ok c s g" and i: "at s i = Some old"
    and same: "carried_by (started s) pc k = carried_by (started s) old (claims g ! i)"
    and pop: "popping_ok c (started s) (q_arr (sh_queue s)) (popped g) (stored s) pc k"
    and won: "\<forall>h. pc \<noteq> CWon h" and window: "\<forall>m. k = Some m \<longrightarrow> length (started s) - m < c"
  shows "delivery_ok c (goto i pc s) (g\<lparr>claims := (claims g)[i := k]\<rparr>)"
proof -
  note d = delivery_okD [OF ok]
  let ?s = "goto i pc s" let ?g = "g\<lparr>claims := (claims g)[i := k]\<rparr>"
  have ii: "i < length (sh_consumers s)" "sh_consumers s ! i = old" using i by (simp_all add: at_Some)
  show ?thesis
  proof (rule delivery_okI)
    show "\<And>j. j < length (sh_consumers ?s) \<Longrightarrow>
      popping_ok c (started ?s) (q_arr (sh_queue ?s)) (popped ?g) (stored ?s) (sh_consumers ?s ! j) (claims ?g ! j)"
      subgoal for j using d(10) [of j] pop d(2) by (cases "j = i") simp_all
      done
    show "\<And>k'. Some k' \<in> set (claims ?g) \<Longrightarrow> length (started ?s) - k' < c"
      subgoal for k' using d(7) [of k'] window set_update_subset_insert [of "claims g" i k] by auto
      done
    show "\<And>i' j h h'. i' < length (sh_consumers ?s) \<Longrightarrow> j < length (sh_consumers ?s) \<Longrightarrow>
      sh_consumers ?s ! i' = CWon h \<Longrightarrow> sh_consumers ?s ! j = CWon h' \<Longrightarrow> claims ?g ! i' = claims ?g ! j \<Longrightarrow> i' = j"
      subgoal for i' j h h' using d(11) [of i' j h h'] won by (cases "i' = i"; cases "j = i") simp_all
      done
    show "mset (delivered ?s) + under_way (started ?s) (sh_consumers ?s) (claims ?g) =
        mset (take (popped ?g) (started ?s))"
      using d(12) under_way_same [OF ii(1) d(2), of "started s" pc k] same ii(2) by simp
  qed (use d in simp_all)
qed

lemma claim_set: "delivery_ok c s g \<Longrightarrow> i < length (sh_consumers s) \<Longrightarrow> claims g ! i = Some m \<Longrightarrow> length (started s) - m < c"
  using delivery_okD(2,7) by (metis nth_mem)

lemma load_head_step:
  assumes "delivery_ok c s g" and "access c moved (LoadHead i) s = Some s'"
  shows "delivery_ok c s' (record_access (LoadHead i) s' g)"
proof -
  from assms(2) have i: "at s i = Some CIdle" and s': "s' = goto i (CHead (q_head (sh_queue s))) s"
    by (auto split: option.splits consumer.splits)
  note d = delivery_okD [OF assms(1)]
  show ?thesis unfolding s' record_access.simps
    by (rule consumer_moves [OF assms(1) i]) (use d(4,5) in auto)
qed

lemma compare_tail_step:
  assumes "delivery_ok c s g" and "access c moved (CompareTail i) s = Some s'"
  shows "delivery_ok c s' (record_access (CompareTail i) s' g)"
proof -
  from assms(2) obtain h where i: "at s i = Some (CHead h)"
    and s': "s' = goto i (if h = q_tail (sh_queue s) then CIdle else CNonEmpty h) s"
    by (auto split: option.splits consumer.splits)
  note d = delivery_okD [OF assms(1)]
  from i have ii: "i < length (sh_consumers s)" "sh_consumers s ! i = CHead h" by (simp_all add: at_Some)
  from d(10) [OF ii(1)] ii(2) obtain m where m: "claims g ! i = Some m" "unat h = m mod c" "m \<le> popped g" by auto
  have at': "at (goto i pc s) i = Some pc" for pc using ii(1) by (simp add: at_def goto_def)
  show ?thesis
  proof (cases "h = q_tail (sh_queue s)")
    case True
    have "delivery_ok c (goto i CIdle s) (g\<lparr>claims := (claims g)[i := None]\<rparr>)"
      by (rule consumer_moves [OF assms(1) i]) simp_all
    with True show ?thesis by (simp add: s' at')
  next
    case False
    with m(2) d(6) have "m mod c \<noteq> stored s mod c" by (metis unat_same)
    with m(3) d(3) have "m < stored s" by (metis le_trans le_neq_implies_less)
    with m claim_set [OF assms(1) ii(1) m(1)]
    have "delivery_ok c (goto i (CNonEmpty h) s) (g\<lparr>claims := (claims g)[i := Some m]\<rparr>)"
      by (intro consumer_moves [OF assms(1) i]) auto
    moreover have "(claims g)[i := Some m] = claims g" using m(1) by (metis list_update_id)
    ultimately show ?thesis using False by (simp add: s' at')
  qed
qed

lemma won_claim:
  assumes "delivery_ok c s g" and "j < length (sh_consumers s)" and "sh_consumers s ! j = CWon h"
  obtains m where "claims g ! j = Some m" "unat h = m mod c" "m < popped g" "m < length (started s)"
    "length (started s) - m < c" "q_arr (sh_queue s) ! unat h = started s ! m"
proof -
  from delivery_okD(10) [OF assms(1,2)] assms(3) obtain m where
    m: "claims g ! j = Some m" "unat h = m mod c" "m < popped g" "q_arr (sh_queue s) ! unat h = started s ! m"
    by auto
  moreover from m(3) delivery_okD(3) [OF assms(1)] stored_le [of s] have "m < length (started s)" by simp
  ultimately show ?thesis using that claim_set [OF assms(1,2) m(1)] by blast
qed

text \<open>A step of the producer, which leaves the consumers and their claims alone.\<close>

lemma producer_moves:
  assumes ok: "delivery_ok c s g"
    and cs: "sh_consumers s' = sh_consumers s" "delivered s' = delivered s" "started s' = started s @ xs"
    and q: "queue_ok c (sh_queue s')" "q_head (sh_queue s') = q_head (sh_queue s)"
      "unat (q_tail (sh_queue s')) = stored s' mod c"
    and grow: "stored s \<le> stored s'" "length (started s') - popped g < c"
      "\<And>k. Some k \<in> set (claims g) \<Longrightarrow> length (started s') - k < c"
    and push: "pushing_ok c (started s') (q_arr (sh_queue s')) (sh_producer s')"
    and ring: "\<And>i. popped g \<le> i \<Longrightarrow> i < stored s' \<Longrightarrow> q_arr (sh_queue s') ! (i mod c) = started s' ! i"
    and kept: "\<And>j h. j < length (sh_consumers s) \<Longrightarrow> sh_consumers s ! j = CWon h \<Longrightarrow>
      q_arr (sh_queue s') ! unat h = q_arr (sh_queue s) ! unat h"
  shows "delivery_ok c s' g"
proof -
  note d = delivery_okD [OF ok]
  have H: "popped g \<le> length (started s)" using d(3) stored_le [of s] by simp
  have won: "k < length (started s)"
    if "j < length (sh_consumers s)" "sh_consumers s ! j = CWon h" "claims g ! j = Some k" for j h k
    by (rule won_claim [OF ok that(1,2)]) (use that(3) in auto)
  show ?thesis
  proof (rule delivery_okI)
    show "\<And>j. j < length (sh_consumers s') \<Longrightarrow>
      popping_ok c (started s') (q_arr (sh_queue s')) (popped g) (stored s') (sh_consumers s' ! j) (claims g ! j)"
      subgoal for j
        using H kept [of j] unfolding cs
        by (intro popping_mono [OF d(10) [of j] order_refl grow(1)]) (auto simp: nth_append)
      done
    show "mset (delivered s') + under_way (started s') (sh_consumers s') (claims g) = mset (take (popped g) (started s'))"
      using d(12) H under_way_append [OF won d(2), where vs = xs] by (simp add: cs)
  qed (use d(2,3,5,11) q grow push ring in \<open>simp_all add: cs\<close>)
qed

lemma load_tail_step:
  assumes ok: "delivery_ok c s g" and acc: "access c moved (LoadTail x) s = Some s'" and room: "unlapped c s g"
  shows "delivery_ok c s' (record_access (LoadTail x) s' g)"
proof -
  from acc have p: "sh_producer s = PIdle"
    and s': "s' = s\<lparr>sh_producer := PLoaded x (q_tail (sh_queue s)), started := started s @ [x]\<rparr>"
    by (auto split: producer.splits)
  note d = delivery_okD [OF ok]
  have st: "stored s = length (started s)" "stored s' = length (started s)" by (simp_all add: stored_def p s')
  have "delivery_ok c s' g"
    by (rule producer_moves [OF ok, where xs = "[x]"])
       (use d(1,3,6,9) room st unlapped_claim [OF room] in \<open>auto simp: s' unlapped_def nth_append\<close>)
  then show ?thesis by simp
qed

lemma write_slot_step:
  assumes ok: "delivery_ok c s g" and acc: "access c moved WriteSlot s = Some s'"
  shows "delivery_ok c s' (record_access WriteSlot s' g)"
proof -
  let ?q = "sh_queue s"
  from acc obtain x t where p: "sh_producer s = PLoaded x t" and t: "unat t < length (q_arr ?q)"
    and s': "s' = s\<lparr>sh_queue := ?q\<lparr>q_arr := (q_arr ?q)[unat t := x]\<rparr>, sh_producer := PWritten t\<rparr>"
    by (auto simp: Let_def split: producer.splits if_splits)
  note d = delivery_okD [OF ok]
  let ?n = "length (started s) - 1"
  have st: "stored s = ?n" "stored s' = ?n" by (simp_all add: stored_def p s')
  from d(8) p have push: "started s \<noteq> []" "unat t = ?n mod c" "last (started s) = x" by auto
  have other: "unat t \<noteq> m mod c" if "m < ?n" "length (started s) - m < c" for m
    using mod_inj [of m c ?n] that push(2) by fastforce
  have H: "popped g \<le> ?n" using d(3) st by simp
  have "delivery_ok c s' g"
  proof (rule producer_moves [OF ok, where xs = "[]"])
    show "\<And>i. popped g \<le> i \<Longrightarrow> i < stored s' \<Longrightarrow> q_arr (sh_queue s') ! (i mod c) = started s' ! i"
      subgoal for i using d(4) d(9) [of i] other [of i] st by (simp add: s')
      done
    show "\<And>j h. j < length (sh_consumers s) \<Longrightarrow> sh_consumers s ! j = CWon h \<Longrightarrow>
        q_arr (sh_queue s') ! unat h = q_arr ?q ! unat h"
      subgoal for j h by (rule won_claim [OF ok, of j h]) (use other H in \<open>auto simp: s'\<close>)
      done
  qed (use d push t st in \<open>simp_all add: s' queue_ok_def\<close>)
  then show ?thesis by simp
qed

lemma store_tail_step:
  assumes ok: "delivery_ok c s g" and acc: "access c moved StoreTail s = Some s'"
  shows "delivery_ok c s' (record_access StoreTail s' g)"
proof -
  let ?q = "sh_queue s"
  from acc obtain t n where p: "sh_producer s = PWritten t" and n: "next_index c ?q t = Returns n"
    and s': "s' = s\<lparr>sh_queue := ?q\<lparr>q_tail := n\<rparr>, sh_producer := PStored\<rparr>"
    by (auto simp: Let_def split: producer.splits outcome.splits)
  note d = delivery_okD [OF ok]
  let ?n = "length (started s) - 1"
  have st: "stored s = ?n" "stored s' = length (started s)" by (simp_all add: stored_def p s')
  from d(8) p have push: "started s \<noteq> []" "unat t = ?n mod c" "q_arr ?q ! unat t = last (started s)" by auto
  have "0 < c" using d(1) by (simp add: queue_ok_def)
  then have "unat n = (?n mod c + 1) mod c" using next_index_ring [OF d(1), of t] n push(2) by auto
  also have "\<dots> = Suc ?n mod c" by (simp add: mod_Suc_eq)
  finally have n': "unat n = length (started s) mod c" using push(1) by simp
  then have "unat n < c" using \<open>0 < c\<close> by simp
  have "delivery_ok c s' g"
  proof (rule producer_moves [OF ok, where xs = "[]"])
    show "\<And>i. popped g \<le> i \<Longrightarrow> i < stored s' \<Longrightarrow> q_arr (sh_queue s') ! (i mod c) = started s' ! i"
      subgoal for i
        using d(9) [of i] push unfolding st by (cases "i = ?n") (simp_all add: s' last_conv_nth)
      done
  qed (use d n' st \<open>unat n < c\<close> in \<open>simp_all add: s' queue_ok_def\<close>)
  then show ?thesis by simp
qed

lemma inc_size_step:
  assumes ok: "delivery_ok c s g" and acc: "access c moved IncSize s = Some s'"
  shows "delivery_ok c s' (record_access IncSize s' g)"
proof -
  from acc have p: "sh_producer s = PStored"
    and s': "s' = s\<lparr>sh_queue := (sh_queue s)\<lparr>q_size := q_size (sh_queue s) + 1\<rparr>, sh_producer := PIdle\<rparr>"
    by (auto simp: Let_def split: producer.splits)
  note d = delivery_okD [OF ok]
  have st: "stored s' = stored s" by (simp add: stored_def p s')
  have "delivery_ok c s' g"
    by (rule producer_moves [OF ok, where xs = "[]"]) (use d st in \<open>simp_all add: s' queue_ok_def\<close>)
  then show ?thesis by simp
qed

text \<open>A consumer that touches the queue: its own part of the invariant changes, the others' is kept.\<close>

lemma consumer_acts:
  assumes ok: "delivery_ok c s g" and i: "i < length (sh_consumers s)"
    and cs: "sh_consumers s' = (sh_consumers s)[i := pc]" "started s' = started s" "sh_producer s' = sh_producer s"
    and g: "claims g' = (claims g)[i := k]" "popped g \<le> popped g'" "popped g' \<le> stored s"
    and q: "queue_ok c (sh_queue s')" "unat (q_head (sh_queue s')) = popped g' mod c"
      "q_tail (sh_queue s') = q_tail (sh_queue s)"
    and window: "\<And>m. k = Some m \<Longrightarrow> length (started s) - m < c"
    and push: "pushing_ok c (started s) (q_arr (sh_queue s')) (sh_producer s)"
    and ring: "\<And>i. popped g' \<le> i \<Longrightarrow> i < stored s \<Longrightarrow> q_arr (sh_queue s') ! (i mod c) = q_arr (sh_queue s) ! (i mod c)"
    and kept: "\<And>j h. j < length (sh_consumers s) \<Longrightarrow> j \<noteq> i \<Longrightarrow> sh_consumers s ! j = CWon h \<Longrightarrow>
      q_arr (sh_queue s') ! unat h = q_arr (sh_queue s) ! unat h"
    and mine: "popping_ok c (started s) (q_arr (sh_queue s')) (popped g') (stored s) pc k"
    and sole: "\<And>h j h'. pc = CWon h \<Longrightarrow> j < length (sh_consumers s) \<Longrightarrow> j \<noteq> i \<Longrightarrow> sh_consumers s ! j = CWon h' \<Longrightarrow>
      claims g ! j \<noteq> k"
    and del: "mset (delivered s') + under_way (started s) ((sh_consumers s)[i := pc]) ((claims g)[i := k]) =
      mset (take (popped g') (started s))"
  shows "delivery_ok c s' g'"
proof -
  note d = delivery_okD [OF ok]
  have st: "stored s' = stored s" unfolding stored_def cs ..
  show ?thesis
  proof (rule delivery_okI)
    show "\<And>j. j < length (sh_consumers s') \<Longrightarrow>
      popping_ok c (started s') (q_arr (sh_queue s')) (popped g') (stored s') (sh_consumers s' ! j) (claims g' ! j)"
    proof -
      fix j assume j: "j < length (sh_consumers s')"
      show "popping_ok c (started s') (q_arr (sh_queue s')) (popped g') (stored s') (sh_consumers s' ! j) (claims g' ! j)"
      proof (cases "j = i")
        case True
        with mine d(2) i show ?thesis by (simp add: cs g st)
      next
        case False
        with j have "popping_ok c (started s) (q_arr (sh_queue s')) (popped g') (stored s) (sh_consumers s ! j) (claims g ! j)"
          by (intro popping_mono [OF d(10) [of j] g(2) order_refl]) (use kept in \<open>auto simp: cs, metis\<close>)
        with False show ?thesis by (simp add: cs g st)
      qed
    qed
    show "\<And>m. Some m \<in> set (claims g') \<Longrightarrow> length (started s') - m < c"
      subgoal for m using d(7) [of m] window [of m] set_update_subset_insert [of "claims g" i k] by (auto simp: cs g)
      done
    show "\<And>i' j h h'. i' < length (sh_consumers s') \<Longrightarrow> j < length (sh_consumers s') \<Longrightarrow>
      sh_consumers s' ! i' = CWon h \<Longrightarrow> sh_consumers s' ! j = CWon h' \<Longrightarrow> claims g' ! i' = claims g' ! j \<Longrightarrow> i' = j"
      subgoal for i' j h h'
        using d(11) [of i' j h h'] sole [of h j h'] sole [of h' i' h] d(2)
        by (cases "i' = i"; cases "j = i") (auto simp: cs g)
      done
    show "\<And>j. popped g' \<le> j \<Longrightarrow> j < stored s' \<Longrightarrow> q_arr (sh_queue s') ! (j mod c) = started s' ! j"
      subgoal for j using d(9) [of j] ring [of j] g(2) by (simp add: cs st)
      done
  qed (use d(2,4,6) g q push del in \<open>simp_all add: cs st\<close>)
qed

lemma dec_size_step:
  assumes ok: "delivery_ok c s g" and acc: "access c moved (DecSize i) s = Some s'"
  shows "delivery_ok c s' (record_access (DecSize i) s' g)"
proof -
  let ?q = "sh_queue s"
  note d = delivery_okD [OF ok]
  from acc obtain x where i: "at s i = Some (CTaken x)" and
    s': "s' = goto i CIdle (s\<lparr>sh_queue := ?q\<lparr>q_size := q_size ?q - 1\<rparr>, delivered := delivered s @ [x]\<rparr>)"
    by (auto simp: Let_def split: option.splits consumer.splits)
  from i have ii: "i < length (sh_consumers s)" "sh_consumers s ! i = CTaken x" by (simp_all add: at_Some)
  from d(10) [OF ii(1)] ii(2) have none: "claims g ! i = None" by simp
  then have same: "(claims g)[i := None] = claims g" by (metis list_update_id)
  have del: "mset (delivered s') + under_way (started s) ((sh_consumers s)[i := CIdle]) ((claims g)[i := None]) =
      mset (take (popped g) (started s))"
    using under_way_update [OF ii(1) d(2), of "started s" CIdle None] ii none
    by (simp add: s' flip: d(12))
  have "delivery_ok c s' g"
    by (rule consumer_acts [OF ok ii(1) _ _ _ _ _ _ _ _ _ _ _ _ _ _ _ del])
       (use d same in \<open>simp_all add: s' queue_ok_def\<close>)
  then show ?thesis by simp
qed

lemma exchange_step:
  assumes ok: "delivery_ok c s g" and acc: "access c moved (Exchange i spurious) s = Some s'"
  shows "delivery_ok c s' (record_access (Exchange i spurious) s' g)"
proof -
  let ?q = "sh_queue s"
  note d = delivery_okD [OF ok]
  from acc obtain h where i: "at s i = Some (CNonEmpty h)"
    by (auto simp: Let_def split: option.splits consumer.splits)
  from i have ii: "i < length (sh_consumers s)" "sh_consumers s ! i = CNonEmpty h" by (simp_all add: at_Some)
  from d(10) [OF ii(1)] ii(2) obtain m where
    m: "claims g ! i = Some m" "unat h = m mod c" "m \<le> popped g" "m < stored s" by auto
  have window: "length (started s) - m < c" by (rule claim_set [OF ok ii(1) m(1)])
  show ?thesis
  proof (cases "q_head ?q \<noteq> h \<or> spurious")
    case True
    with acc i have s': "s' = goto i CIdle s" by (auto simp: Let_def)
    have "delivery_ok c (goto i CIdle s) (g\<lparr>claims := (claims g)[i := None]\<rparr>)"
      by (rule consumer_moves [OF ok i]) simp_all
    with ii(1) show ?thesis by (simp add: s' at_def)
  next
    case False
    with acc i obtain n where n: "next_index c ?q h = Returns n"
      and s': "s' = goto i (CWon h) (s\<lparr>sh_queue := ?q\<lparr>q_head := n\<rparr>\<rparr>)" and h: "q_head ?q = h"
      by (auto simp: Let_def split: outcome.splits)
    from d(5) h m(2) have "m mod c = popped g mod c" by simp
    moreover have "popped g - m < c" using window d(3) stored_le [of s] by linarith
    ultimately have H: "popped g = m" using mod_inj m(3) by metis
    have "0 < c" using d(1) by (simp add: queue_ok_def)
    then have "unat n = (m mod c + 1) mod c" using next_index_ring [OF d(1), of h] n m(2) by auto
    then have n': "unat n = Suc m mod c" by (simp add: mod_Suc_eq)
    let ?g = "g\<lparr>popped := Suc (popped g)\<rparr>"
    have same: "(claims g)[i := Some m] = claims g" using m(1) by (metis list_update_id)
    have "m < length (started s)" using m(4) stored_le [of s] by simp
    then have del: "mset (delivered s') + under_way (started s) ((sh_consumers s)[i := CWon h]) ((claims g)[i := Some m]) =
        mset (take (popped ?g) (started s))"
      using under_way_update [OF ii(1) d(2), of "started s" "CWon h" "Some m"] ii(2) d(12) same
      by (simp add: s' H take_Suc_conv_app_nth)
    have others: "claims g ! j \<noteq> Some m" if "j < length (sh_consumers s)" "sh_consumers s ! j = CWon h'" for j h'
      using d(10) [OF that(1)] that(2) H by auto
    have "delivery_ok c s' ?g"
      by (rule consumer_acts [OF ok ii(1) _ _ _ _ _ _ _ _ _ _ _ _ _ _ _ del])
         (use d H m window n' \<open>0 < c\<close> others same d(9) [of m] in \<open>simp_all add: s' queue_ok_def\<close>)
    with ii(1) show ?thesis by (simp add: s' at_def goto_def)
  qed
qed

lemma move_slot_step:
  assumes ok: "delivery_ok c s g" and acc: "access c moved (MoveSlot i) s = Some s'"
  shows "delivery_ok c s' (record_access (MoveSlot i) s' g)"
proof -
  let ?q = "sh_queue s" let ?H = "popped g" let ?n = "length (started s) - 1"
  note d = delivery_okD [OF ok]
  from acc obtain h where i: "at s i = Some (CWon h)" and
    s': "s' = goto i (CTaken (q_arr ?q ! unat h))
            (s\<lparr>sh_queue := ?q\<lparr>q_arr := (q_arr ?q)[unat h := moved (q_arr ?q ! unat h)]\<rparr>\<rparr>)"
    by (auto simp: Let_def split: option.splits consumer.splits if_splits)
  from i have ii: "i < length (sh_consumers s)" "sh_consumers s ! i = CWon h" by (simp_all add: at_Some)
  obtain m where m: "claims g ! i = Some m" "unat h = m mod c" "m < ?H" "m < length (started s)"
    "length (started s) - m < c" "q_arr ?q ! unat h = started s ! m"
    by (rule won_claim [OF ok ii])
  let ?arr = "(q_arr ?q)[unat h := moved (q_arr ?q ! unat h)]"
  have other: "?arr ! (k mod c) = q_arr ?q ! (k mod c)" if "k \<noteq> m" "k < length (started s)" "length (started s) - k < c" for k
  proof -
    have "k mod c \<noteq> m mod c" using mod_inj [of k c m] mod_inj [of m c k] that m(4,5) by fastforce
    then show ?thesis by (simp add: m(2))
  qed
  have kept: "?arr ! unat h' = q_arr ?q ! unat h'"
    if j: "j < length (sh_consumers s)" "j \<noteq> i" "sh_consumers s ! j = CWon h'" for j h'
  proof -
    obtain k where k: "claims g ! j = Some k" "unat h' = k mod c" "k < length (started s)" "length (started s) - k < c"
      by (rule won_claim [OF ok j(1,3)])
    from d(11) [OF j(1) ii(1) j(3) ii(2)] j(2) k(1) m(1) have "k \<noteq> m" by auto
    from other [OF this k(3,4)] k(2) show ?thesis by simp
  qed
  have push: "pushing_ok c (started s) ?arr (sh_producer s)"
  proof (cases "sh_producer s")
    case (PWritten t)
    with d(8) have t: "started s \<noteq> []" "unat t = ?n mod c" "q_arr ?q ! unat t = last (started s)" by auto
    from PWritten d(3) m(3) have "?n \<noteq> m" by (simp add: stored_def)
    moreover have "?n < length (started s)" using t(1) by simp
    moreover have "length (started s) - ?n < c" using calculation m(4,5) by linarith
    ultimately have "?arr ! unat t = q_arr ?q ! unat t" using other t(2) by metis
    with PWritten t show ?thesis by simp
  qed (use d(8) in simp_all)
  have del: "mset (delivered s') + under_way (started s) ((sh_consumers s)[i := CTaken (q_arr ?q ! unat h)])
      ((claims g)[i := None]) = mset (take (popped (g\<lparr>claims := (claims g)[i := None]\<rparr>)) (started s))"
    using d(12) under_way_same [OF ii(1) d(2), of "started s" "CTaken (q_arr ?q ! unat h)" None] ii(2) m(1,6)
    by (simp add: s')
  have "delivery_ok c s' (g\<lparr>claims := (claims g)[i := None]\<rparr>)"
  proof (rule consumer_acts [OF ok ii(1) _ _ _ _ _ _ _ _ _ _ _ _ _ _ _ del])
    show "\<And>k. popped (g\<lparr>claims := (claims g)[i := None]\<rparr>) \<le> k \<Longrightarrow> k < stored s \<Longrightarrow>
        q_arr (sh_queue s') ! (k mod c) = q_arr ?q ! (k mod c)"
      subgoal for k using other [of k] m(3) d(4) stored_le [of s] by (simp add: s')
      done
  qed (use d kept push in \<open>simp_all add: s' queue_ok_def\<close>)
  then show ?thesis by simp
qed

lemmas delivery_steps =
  load_tail_step write_slot_step store_tail_step inc_size_step
  load_head_step compare_tail_step exchange_step move_slot_step dec_size_step

lemma access_delivery_ok:
  assumes "delivery_ok c s g" and "\<And>x. a = LoadTail x \<Longrightarrow> unlapped c s g" and "access c moved a s = Some s'"
  shows "delivery_ok c s' (record_access a s' g)"
  using assms by (cases a) (blast intro: delivery_steps)+

lemma under_way_idle: "under_way vals (replicate n CIdle) ks = {#}"
  by (induction n arbitrary: ks) (auto simp: under_way_def split: list.split simp: zip_Cons1)

lemma delivery_ok_new: "0 < c \<Longrightarrow> c \<le> 100 \<Longrightarrow> delivery_ok c (new_shared c workers d) (new_history workers)"
proof -
  assume c: "0 < c" "c \<le> 100"
  then have "queue_ok c (new_queue c d)"
    by (intro new_queue_ok) (simp_all add: SMALL_INTEGER_OPTIMISATION_LIMIT_def)
  moreover have "q_head (new_queue c d) = 0" "q_tail (new_queue c d) = 0" by (simp_all add: new_queue_def)
  ultimately show ?thesis
    using c under_way_idle [of "[]" workers]
    by (simp add: delivery_ok_def new_shared_def new_history_def stored_def)
qed

lemma paced_ok: "paced c moved workers d s g \<Longrightarrow> 0 < c \<Longrightarrow> c \<le> 100 \<Longrightarrow> delivery_ok c s g"
  by (induction rule: paced.induct) (simp_all add: delivery_ok_new access_delivery_ok)

lemma paced_workers: "paced c moved workers d s g \<Longrightarrow> length (sh_consumers s) = workers"
  by (induction rule: paced.induct) (simp_all add: new_shared_def access_consumers)

section \<open>Exactly-once delivery\<close>

lemma paced_accounting:
  assumes "paced c moved workers d s g" and "0 < c" and "c \<le> 100"
  shows "mset (delivered s) + under_way (started s) (sh_consumers s) (claims g) =
      mset (take (popped g) (started s)) \<and>
    popped g \<le> length (started s) \<and> length (started s) - popped g < c \<and>
    (set (sh_consumers s) \<subseteq> {CIdle} \<and> sh_producer s = PIdle \<and> empty (sh_queue s) \<longrightarrow>
      mset (delivered s) = mset (started s))"
proof -
  note d = delivery_okD [OF paced_ok [OF assms]]
  have all: "popped g = length (started s)" if "sh_producer s = PIdle" "empty (sh_queue s)"
  proof -
    from that d(5,6) have "popped g mod c = length (started s) mod c" by (simp add: stored_def empty_def)
    from mod_inj [OF this] d(3,4) stored_le [of s] show ?thesis by simp
  qed
  have "under_way (started s) (sh_consumers s) (claims g) = {#}" if "set (sh_consumers s) \<subseteq> {CIdle}"
  proof -
    from that have "sh_consumers s = replicate (length (sh_consumers s)) CIdle" by (intro replicate_eqI) auto
    then show ?thesis by (metis under_way_idle)
  qed
  with d(3,4,12) stored_le [of s] all show ?thesis by auto
qed

lemma paced_delivered_started:
  assumes "paced c moved workers d s g" and "0 < c" and "c \<le> 100"
  shows "mset (delivered s) \<subseteq># mset (started s)"
proof -
  have "mset (delivered s) \<subseteq># mset (take (popped g) (started s))"
    using paced_accounting [OF assms] by (metis mset_subset_eq_add_left)
  also have "\<dots> \<subseteq># mset (take (popped g) (started s) @ drop (popped g) (started s))" by (simp del: append_take_drop_id)
  finally show ?thesis by simp
qed

text \<open>
  C8. Exactly-once delivery, in runs of any length.  In every interleaving of one producer with any
  number of consumers in which no push starts that would lap the head or a consumer inside \<^verbatim>\<open>pop\<close>, the
  elements delivered, together with those a consumer has claimed and not yet delivered, are the first
  pushed ones, as many as have been claimed in all, each once; the pushes not yet claimed are fewer than
  the ring has slots; and when no consumer is in the middle of a pop, no push is under way and the queue
  is empty, what was delivered is what was pushed, nothing lost, duplicated or invented.
\<close>

theorem paced_delivery:
  assumes "paced c moved workers d s g" and "0 < c" and "c \<le> 100"
  shows "mset (delivered s) + under_way (started s) (sh_consumers s) (claims g) =
      mset (take (popped g) (started s)) \<and>
    popped g \<le> length (started s) \<and> length (started s) - popped g < c \<and>
    (set (sh_consumers s) \<subseteq> {CIdle} \<and> sh_producer s = PIdle \<and> empty (sh_queue s) \<longrightarrow>
      mset (delivered s) = mset (started s))"
  by (rule paced_accounting [OF assms])

definition long_schedule :: "'t \<Rightarrow> 't \<Rightarrow> 't \<Rightarrow> 't \<Rightarrow> 't mem_access list" where
  "long_schedule x y z w =
     push_accesses x @ [LoadHead 0, LoadHead 1, CompareTail 0, CompareTail 1, Exchange 0 False, Exchange 1 False] @
     push_accesses y @ [MoveSlot 0, LoadHead 1, DecSize 0, CompareTail 1, Exchange 1 False, MoveSlot 1, DecSize 1] @
     push_accesses z @ push_accesses w @ pop_accesses 0 @ pop_accesses 1"

theorem paced_delivery_witness:
  "\<exists>s g. paced 3 (\<lambda>_. '''') 2 '''' s g \<and> started s = [''a'', ''b'', ''c'', ''d''] \<and>
     mset (delivered s) = mset (started s)"
proof -
  have "\<exists>s g. paced_schedule 3 (\<lambda>_. '''') (long_schedule ''a'' ''b'' ''c'' ''d'') (new_shared 3 2 '''')
        (new_history 2) = Some (s, g) \<and>
      started s = [''a'', ''b'', ''c'', ''d''] \<and> sh_consumers s = [CIdle, CIdle] \<and>
      sh_producer s = PIdle \<and> empty (sh_queue s)"
    by (simp add: long_schedule_def push_accesses_def pop_accesses_def new_shared_def new_history_def new_queue_def
        at_def goto_def next_index_def array_at_def SMALL_INTEGER_OPTIMISATION_LIMIT_def empty_def upt_rec
        replicate_small unlapped_def)
  then obtain s g where run: "paced_schedule 3 (\<lambda>_. '''') (long_schedule ''a'' ''b'' ''c'' ''d'') (new_shared 3 2 '''')
        (new_history 2) = Some (s, g)"
    and s: "started s = [''a'', ''b'', ''c'', ''d'']" "sh_consumers s = [CIdle, CIdle]"
      "sh_producer s = PIdle" "empty (sh_queue s)" by blast
  have "paced 3 (\<lambda>_. '''') 2 '''' s g" by (rule paced_schedule_paced [OF paced.start run])
  with paced_delivery [OF this] s show ?thesis by auto
qed

section \<open>Fewer elements than slots\<close>

text \<open>Without the history: while fewer elements than slots have been pushed in all, no push laps anybody.\<close>

fun carried :: "'t list \<Rightarrow> 't consumer \<Rightarrow> 't multiset" where
  "carried vals (CWon h) = {#vals ! unat h#}"
| "carried vals (CTaken x) = {#x#}"
| "carried vals _ = {#}"

definition in_flight :: "'t list \<Rightarrow> 't consumer list \<Rightarrow> 't multiset" where
  "in_flight vals pcs = sum_list (map (carried vals) pcs)"

lemma few_paced:
  "reachable c moved workers d s \<Longrightarrow> length (started s) < c \<Longrightarrow> \<exists>g. paced c moved workers d s g"
proof (induction rule: reachable.induct)
  case start
  show ?case by (blast intro: paced.start)
next
  case (step s a s')
  from access_started [OF step.hyps(2)] step.prems have "length (started s) < c" by auto
  with step.IH obtain g where g: "paced c moved workers d s g" by blast
  have "unlapped c s g" if a: "a = LoadTail x" for x
  proof -
    from step.hyps(2) a have "started s' = started s @ [x]" by (auto split: producer.splits)
    with step.prems have "Suc (length (started s)) - k < c" for k by simp
    then show ?thesis by (auto simp: unlapped_def list_all_iff split: option.split)
  qed
  then show ?case using paced.step [OF g _ step.hyps(2)] by blast
qed

lemma under_way_in_flight:
  assumes ok: "delivery_ok c s g" and few: "length (started s) < c"
  shows "under_way (started s) (sh_consumers s) (claims g) = in_flight (started s) (sh_consumers s)"
proof -
  have "carried_by (started s) (sh_consumers s ! j) (claims g ! j) = carried (started s) (sh_consumers s ! j)"
    if j: "j < length (sh_consumers s)" for j
  proof (cases "sh_consumers s ! j")
    case (CWon h)
    obtain m where "claims g ! j = Some m" "unat h = m mod c" "m < length (started s)"
      by (rule won_claim [OF ok j CWon])
    with few CWon show ?thesis by simp
  qed simp_all
  then have "map2 (carried_by (started s)) (sh_consumers s) (claims g) = map (carried (started s)) (sh_consumers s)"
    using delivery_okD(2) [OF ok] by (intro nth_equalityI) auto
  then show ?thesis by (simp add: under_way_def in_flight_def)
qed

text \<open>
  In every interleaving in which fewer elements than slots have been pushed in all, the elements
  delivered, together with those a consumer has claimed and not yet delivered, are the first pushed
  ones, as many as the head counter says.
\<close>

theorem delivered_exactly_once:
  assumes "reachable c moved workers d s" and "0 < c" and "c \<le> 100" and "length (started s) < c"
  shows "mset (delivered s) + in_flight (started s) (sh_consumers s) =
      mset (take (unat (q_head (sh_queue s))) (started s)) \<and>
    unat (q_head (sh_queue s)) \<le> unat (q_tail (sh_queue s)) \<and>
    unat (q_tail (sh_queue s)) \<le> length (started s) \<and>
    (set (sh_consumers s) \<subseteq> {CIdle} \<and> sh_producer s = PIdle \<and> empty (sh_queue s) \<longrightarrow>
      mset (delivered s) = mset (started s))"
proof -
  from few_paced [OF assms(1,4)] obtain g where g: "paced c moved workers d s g" by blast
  have ok: "delivery_ok c s g" by (rule paced_ok [OF g assms(2,3)])
  note d = delivery_okD [OF ok]
  have "unat (q_head (sh_queue s)) = popped g" "unat (q_tail (sh_queue s)) = stored s"
    using d(3,5,6) stored_le [of s] assms(4) by simp_all
  with d(3,12) stored_le [of s] under_way_in_flight [OF ok assms(4)] paced_accounting [OF g assms(2,3)]
  show ?thesis by simp
qed

definition sample_schedule :: "string mem_access list" where
  "sample_schedule =
     [LoadTail ''a'', LoadHead 0, WriteSlot, CompareTail 0, StoreTail, LoadHead 1, IncSize, CompareTail 1, LoadHead 0,
      CompareTail 0, LoadTail ''b'', Exchange 1 False, WriteSlot, Exchange 0 False, StoreTail, MoveSlot 1, IncSize,
      LoadHead 0, DecSize 1, CompareTail 0, Exchange 0 False, MoveSlot 0, DecSize 0]"

theorem delivered_exactly_once_witness:
  "\<exists>s. reachable 3 (\<lambda>_. '''') 2 '''' s \<and> mset (delivered s) = mset (started s) \<and> delivered s = [''a'', ''b'']"
proof -
  have run: "\<exists>s. schedule 3 (\<lambda>_. '''') sample_schedule (new_shared 3 2 '''') = Some s \<and>
      delivered s = [''a'', ''b''] \<and> length (started s) < 3 \<and> sh_consumers s = [CIdle, CIdle] \<and>
      sh_producer s = PIdle \<and> empty (sh_queue s)"
    by (simp add: sample_schedule_def new_shared_def new_queue_def at_def goto_def next_index_def array_at_def
        SMALL_INTEGER_OPTIMISATION_LIMIT_def empty_def upt_rec replicate_small)
  then obtain s where s: "schedule 3 (\<lambda>_. '''') sample_schedule (new_shared 3 2 '''') = Some s"
    "delivered s = [''a'', ''b'']" "length (started s) < 3" "sh_consumers s = [CIdle, CIdle]"
    "sh_producer s = PIdle" "empty (sh_queue s)" by blast
  from schedule_reachable [OF reachable.start s(1)]
  have "reachable 3 (\<lambda>_. '''') 2 '''' s" .
  with delivered_exactly_once [OF this _ _ s(3)] s show ?thesis by auto
qed

end
