(* ===== verification/Http.thy ===== *)
theory Http
  imports Prelude
begin

text \<open>
  \<^verbatim>\<open>include/simpleserv/http/http.hpp\<close>: the methods and status codes of the protocol, with the texts
  the server writes for them.  The facts compare the texts with the codes they stand for.
\<close>

section \<open>Methods\<close>

datatype http_method = GET | POST | PUT | DELETE | HEAD | OPTIONS | TRACE | CONNECT

text \<open>The value of the enumerator, which indexes the table of names.\<close>

fun http_method_value :: "http_method \<Rightarrow> nat" where
  "http_method_value GET = 0"
| "http_method_value POST = 1"
| "http_method_value PUT = 2"
| "http_method_value DELETE = 3"
| "http_method_value HEAD = 4"
| "http_method_value OPTIONS = 5"
| "http_method_value TRACE = 6"
| "http_method_value CONNECT = 7"

definition HTTP_METHOD_STRINGS :: "string list" where
  "HTTP_METHOD_STRINGS =
     [''GET'', ''POST'', ''PUT'', ''DELETE'', ''HEAD'', ''OPTIONS'', ''TRACE'', ''CONNECT'']"

lemma http_method_in_table [simp]: "http_method_value m < length HTTP_METHOD_STRINGS"
  by (cases m) (simp_all add: HTTP_METHOD_STRINGS_def)

lemma method_string_inj:
  "HTTP_METHOD_STRINGS ! http_method_value m = HTTP_METHOD_STRINGS ! http_method_value m' \<longleftrightarrow> m = m'"
  by (cases m; cases m') (simp_all add: HTTP_METHOD_STRINGS_def)

lemma method_string_no_space: "CHR '' '' \<notin> set (HTTP_METHOD_STRINGS ! http_method_value m)"
  by (cases m) (simp_all add: HTTP_METHOD_STRINGS_def)

section \<open>Status codes\<close>

datatype http_status =
    CONTINUE | SWITCHING_PROTOCOLS
  | OK | CREATED | ACCEPTED | NO_CONTENT
  | MULTIPLE_CHOICES | MOVED_PERMANENTLY | FOUND | SEE_OTHER | NOT_MODIFIED
  | BAD_REQUEST | UNAUTHORIZED | FORBIDDEN | NOT_FOUND
  | INTERNAL_SERVER_ERROR | NOT_IMPLEMENTED | BAD_GATEWAY | SERVICE_UNAVAILABLE

fun http_status_value :: "http_status \<Rightarrow> nat" where
  "http_status_value CONTINUE = 100"
| "http_status_value SWITCHING_PROTOCOLS = 101"
| "http_status_value OK = 200"
| "http_status_value CREATED = 201"
| "http_status_value ACCEPTED = 202"
| "http_status_value NO_CONTENT = 204"
| "http_status_value MULTIPLE_CHOICES = 300"
| "http_status_value MOVED_PERMANENTLY = 301"
| "http_status_value FOUND = 302"
| "http_status_value SEE_OTHER = 303"
| "http_status_value NOT_MODIFIED = 304"
| "http_status_value BAD_REQUEST = 400"
| "http_status_value UNAUTHORIZED = 401"
| "http_status_value FORBIDDEN = 403"
| "http_status_value NOT_FOUND = 404"
| "http_status_value INTERNAL_SERVER_ERROR = 500"
| "http_status_value NOT_IMPLEMENTED = 501"
| "http_status_value BAD_GATEWAY = 502"
| "http_status_value SERVICE_UNAVAILABLE = 503"

definition HTTP_RESPONSE_STATUS :: "string list" where
  "HTTP_RESPONSE_STATUS =
     [''100 Continue'', ''101 Switching Protocols'', ''200 OK'', ''201 Created'', ''202 Accepted'',
      ''204 No Content'', ''301 Moved Permanently'', ''302 Found'', ''304 Not Modified'',
      ''400 Bad Request'', ''401 Unauthorized'', ''403 Forbidden'', ''404 Not Found'',
      ''500 Internal Server Error'', ''501 Not Implemented'', ''502 Bad Gateway'',
      ''503 Service Unavailable'']"

fun status_code_to_string :: "http_status \<Rightarrow> string" where
  "status_code_to_string CONTINUE = ''100 Continue''"
| "status_code_to_string SWITCHING_PROTOCOLS = ''101 Switching Protocols''"
| "status_code_to_string OK = ''200 OK''"
| "status_code_to_string CREATED = ''201 Created''"
| "status_code_to_string ACCEPTED = ''202 Accepted''"
| "status_code_to_string NO_CONTENT = ''204 No Content''"
| "status_code_to_string MULTIPLE_CHOICES = ''300 Multiple Choices''"
| "status_code_to_string MOVED_PERMANENTLY = ''300 Moved Permanently''"
| "status_code_to_string FOUND = ''301 Found''"
| "status_code_to_string SEE_OTHER = ''303 See Other''"
| "status_code_to_string NOT_MODIFIED = ''304 Not Modified''"
| "status_code_to_string BAD_REQUEST = ''400 Bad Request''"
| "status_code_to_string UNAUTHORIZED = ''401 Unauthorized''"
| "status_code_to_string FORBIDDEN = ''403 Forbidden''"
| "status_code_to_string NOT_FOUND = ''404 Not Found''"
| "status_code_to_string INTERNAL_SERVER_ERROR = ''500 Internal Server Error''"
| "status_code_to_string NOT_IMPLEMENTED = ''501 Not Implemented''"
| "status_code_to_string BAD_GATEWAY = ''502 Bad Gateway''"
| "status_code_to_string SERVICE_UNAVAILABLE = ''503 Service Unavailable''"

text \<open>The number a status line shows: what stands before its first space.\<close>

definition status_text_code :: "string \<Rightarrow> string" where
  "status_text_code t = takeWhile (\<lambda>c. c \<noteq> CHR '' '') t"

text \<open>
  The status line written for a status code shows the number of that code, for every code but two:
  \<open>MOVED_PERMANENTLY\<close>, 301, goes out with the number 300, and \<open>FOUND\<close>, 302, with 301, so that a
  temporary redirect carries the number of a permanent one.  The texts are pairwise different all the
  same.
\<close>

theorem status_line_number:
  "(status_text_code (status_code_to_string s) = nat_to_string (http_status_value s) \<longleftrightarrow> s \<notin> {FOUND, MOVED_PERMANENTLY}) \<and>
   (status_code_to_string s = status_code_to_string s' \<longleftrightarrow> s = s')"
proof
  show "status_text_code (status_code_to_string s) = nat_to_string (http_status_value s) \<longleftrightarrow> s \<notin> {FOUND, MOVED_PERMANENTLY}"
    by (cases s) (simp_all add: status_text_code_def nat_to_string.simps digit_char_def)
  show "status_code_to_string s = status_code_to_string s' \<longleftrightarrow> s = s'"
    by (cases s; cases s') simp_all
qed

lemma status_text_no_newline: "CHR 0x0D \<notin> set (status_code_to_string s)"
  by (cases s) simp_all

end
