(* ===== verification/StringParser.thy ===== *)
theory StringParser
  imports Prelude
begin

text \<open>
  \<^verbatim>\<open>include/simpleserv/utility/string_parser.hpp\<close>: the cursor over a request's text.  The state of
  a \<^verbatim>\<open>StringParser\<close> is its own copy of the text (\<open>str\<close>) and the part not consumed yet (\<open>view\<close>).  The
  facts show that the cursor only ever moves forward: every operation leaves a suffix of the text
  (\<open>advances\<close>), and the parser stays well formed.
\<close>

section \<open>State\<close>

text \<open>
  \<^verbatim>\<open>parser_error\<close> carries a message.  The default constructor leaves the fixed text; the other
  one formats its argument behind the C++ source position, which is not part of the model.
\<close>

datatype parser_error =
    parser_error_default
  | parser_error_at string

fun parser_error_what :: "string \<Rightarrow> parser_error \<Rightarrow> string" where
  "parser_error_what position parser_error_default = ''An error has occured during parsing.''"
| "parser_error_what position (parser_error_at msg) =
     ''Parser error in '' @ position @ [CHR 0x0A, CHR '' ''] @ msg"

record string_parser =
  str :: string
  view :: string

definition new_parser :: "string \<Rightarrow> string_parser" where
  "new_parser s = \<lparr>str = s, view = s\<rparr>"

definition parser_ok :: "string_parser \<Rightarrow> bool" where
  "parser_ok p \<longleftrightarrow> (\<exists>done. str p = done @ view p)"

definition advances :: "string_parser \<Rightarrow> string_parser \<Rightarrow> bool" where
  "advances p q \<longleftrightarrow> str q = str p \<and> (\<exists>used. view p = used @ view q)"

section \<open>Operations\<close>

definition move :: "nat \<Rightarrow> string_parser \<Rightarrow> string_parser outcome" where
  "move steps p = obind (remove_prefix steps (view p)) (\<lambda>v. Returns (p\<lparr>view := v\<rparr>))"

text \<open>
  The messages show the offending character: \<^verbatim>\<open>view[0]\<close>, which is undefined on an empty view.
\<close>

definition shown_char :: "char \<Rightarrow> string" where
  "shown_char c = c # '' ('' @ int_to_string (char_code c) @ '')''"

definition expect_char :: "char \<Rightarrow> string_parser \<Rightarrow> (parser_error option \<times> string_parser) outcome" where
  "expect_char char1 p =
     (if \<not> starts_with (view p) [char1] then
        (case view p of
           [] \<Rightarrow> Undefined
         | c # _ \<Rightarrow> Returns (Some (parser_error_at
             (''Expected character: '' @ shown_char char1 @ '', got '' @ shown_char c)), p))
      else obind (remove_prefix 1 (view p)) (\<lambda>v. Returns (None, p\<lparr>view := v\<rparr>)))"

definition expect :: "string \<Rightarrow> string_parser \<Rightarrow> (parser_error option \<times> string_parser) outcome" where
  "expect chars p =
     (if \<not> starts_with (view p) chars then
        Returns (Some (parser_error_at (''Expected characters: '' @ chars @ '', got '' @ view p)), p)
      else obind (remove_prefix (length chars) (view p)) (\<lambda>v. Returns (None, p\<lparr>view := v\<rparr>)))"

definition expect_two :: "char \<Rightarrow> char \<Rightarrow> string_parser \<Rightarrow> (parser_error option \<times> string_parser) outcome" where
  "expect_two char1 char2 p =
     (if \<not> starts_with (view p) [char1] \<and> \<not> starts_with (view p) [char2] then
        (case view p of
           [] \<Rightarrow> Undefined
         | c # _ \<Rightarrow> Returns (Some (parser_error_at
             (''Expected character: '' @ shown_char char1 @ '' or '' @ shown_char char2 @
              '', got '' @ str p @ '' ('' @ int_to_string (char_code c) @ '')'')), p))
      else obind (remove_prefix 1 (view p)) (\<lambda>v. Returns (None, p\<lparr>view := v\<rparr>)))"

text \<open>The two loops: while the view starts with (one of) the characters, drop it.\<close>

fun consume_all_view :: "char \<Rightarrow> string \<Rightarrow> string" where
  "consume_all_view char1 [] = []"
| "consume_all_view char1 (c # v) = (if c = char1 then consume_all_view char1 v else c # v)"

fun consume_all_two_view :: "char \<Rightarrow> char \<Rightarrow> string \<Rightarrow> string" where
  "consume_all_two_view char1 char2 [] = []"
| "consume_all_two_view char1 char2 (c # v) =
     (if c = char1 \<or> c = char2 then consume_all_two_view char1 char2 v else c # v)"

definition consume_all :: "char \<Rightarrow> string_parser \<Rightarrow> string_parser" where
  "consume_all char1 p = p\<lparr>view := consume_all_view char1 (view p)\<rparr>"

definition consume_all_two :: "char \<Rightarrow> char \<Rightarrow> string_parser \<Rightarrow> string_parser" where
  "consume_all_two char1 char2 p = p\<lparr>view := consume_all_two_view char1 char2 (view p)\<rparr>"

definition head :: "string_parser \<Rightarrow> char outcome" where
  "head p = char_at (view p) 0"

text \<open>
  \<open>process_function\<close> hands the view to a function that may move it, \<open>process_function_own\<close> hands it
  over by value.
\<close>

definition process_function ::
  "(string \<Rightarrow> ('a \<times> string) outcome) \<Rightarrow> string_parser \<Rightarrow> ('a \<times> string_parser) outcome" where
  "process_function fn p = obind (fn (view p)) (\<lambda>(x, v). Returns (x, p\<lparr>view := v\<rparr>))"

definition process_function_own :: "(string \<Rightarrow> 'a) \<Rightarrow> string_parser \<Rightarrow> 'a" where
  "process_function_own fn p = fn (view p)"

text \<open>
  Both \<^verbatim>\<open>next_token\<close> functions look for the delimiter and cut the view there.  When it does not
  occur, \<^verbatim>\<open>end\<close> is \<^verbatim>\<open>npos\<close> and \<^verbatim>\<open>view.remove_prefix(npos)\<close> is undefined.
\<close>

definition next_token_view :: "string \<Rightarrow> char \<Rightarrow> (string \<times> string) outcome" where
  "next_token_view v delim =
     (case find_index (\<lambda>c. c = delim) v of
        None \<Rightarrow> Undefined
      | Some end_pos \<Rightarrow>
          obind (remove_prefix end_pos v) (\<lambda>rest. Returns (take end_pos v, rest)))"

definition next_token :: "char \<Rightarrow> string_parser \<Rightarrow> (string \<times> string_parser) outcome" where
  "next_token delim p =
     (case find_index (\<lambda>c. c = delim) (view p) of
        None \<Rightarrow> Undefined
      | Some end_pos \<Rightarrow>
          obind (remove_prefix end_pos (view p))
            (\<lambda>rest. Returns (take end_pos (view p), p\<lparr>view := rest\<rparr>)))"

section \<open>Facts\<close>

lemma consume_all_view_eq: "consume_all_view c v = dropWhile (\<lambda>x. x = c) v"
  by (induction v) auto

lemma consume_all_two_view_eq: "consume_all_two_view c d v = dropWhile (\<lambda>x. x = c \<or> x = d) v"
  by (induction v) auto

lemma advances_refl [simp]: "advances p p"
  by (simp add: advances_def)

lemma advances_trans [trans]: "advances p q \<Longrightarrow> advances q r \<Longrightarrow> advances p r"
  by (auto simp: advances_def)

lemma parser_ok_new [simp]: "parser_ok (new_parser s)"
  by (simp add: parser_ok_def new_parser_def)

lemma parser_ok_advances: "parser_ok p \<Longrightarrow> advances p q \<Longrightarrow> parser_ok q"
  by (auto simp: parser_ok_def advances_def)

lemma advances_shorter: "advances p q \<Longrightarrow> length (view q) \<le> length (view p)"
  by (auto simp: advances_def)

lemma advances_drop: "advances p (p\<lparr>view := drop n (view p)\<rparr>)"
  unfolding advances_def by (metis append_take_drop_id string_parser.select_convs(1,2) string_parser.surjective string_parser.update_convs(2))

lemma advances_dropWhile: "advances p (p\<lparr>view := dropWhile P (view p)\<rparr>)"
  by (simp add: dropWhile_eq_drop advances_drop)

lemma move_advances: "move n p = Returns q \<Longrightarrow> advances p q"
  by (auto simp: move_def obind_eq_Returns advances_drop dest!: remove_prefix_Returns)

lemma expect_advances: "expect cs p = Returns (e, q) \<Longrightarrow> advances p q"
  by (auto simp: expect_def obind_eq_Returns advances_drop split: if_splits dest!: remove_prefix_Returns)

lemma expect_char_advances: "expect_char c p = Returns (e, q) \<Longrightarrow> advances p q"
  by (auto simp: expect_char_def obind_eq_Returns advances_drop
      split: if_splits list.splits dest!: remove_prefix_Returns)

lemma expect_two_advances: "expect_two c d p = Returns (e, q) \<Longrightarrow> advances p q"
  by (auto simp: expect_two_def obind_eq_Returns advances_drop
      split: if_splits list.splits dest!: remove_prefix_Returns)

lemma consume_all_advances: "advances p (consume_all c p)"
  by (simp add: consume_all_def consume_all_view_eq advances_dropWhile)

lemma consume_all_two_advances: "advances p (consume_all_two c d p)"
  by (simp add: consume_all_two_def consume_all_two_view_eq advances_dropWhile)

lemma next_token_advances: "next_token d p = Returns (t, q) \<Longrightarrow> advances p q"
  by (auto simp: next_token_def obind_eq_Returns advances_drop
      split: option.splits dest!: remove_prefix_Returns)

lemmas parser_advances =
  move_advances expect_advances expect_char_advances expect_two_advances
  consume_all_advances consume_all_two_advances next_token_advances

text \<open>What each operation does on a view whose first characters are known.\<close>

lemma move_append [cpp_simps]: "view p = xs @ ys \<Longrightarrow> n = length xs \<Longrightarrow> move n p = Returns (p\<lparr>view := ys\<rparr>)"
  by (simp add: move_def remove_prefix_append)

lemma move_1_Cons [cpp_simps]: "view p = x # ys \<Longrightarrow> move (Suc 0) p = Returns (p\<lparr>view := ys\<rparr>)"
  by (simp add: move_def remove_prefix_def)

lemma head_Cons [cpp_simps]: "view p = x # ys \<Longrightarrow> head p = Returns x"
  by (simp add: head_def char_at_def)

lemma expect_append: "view p = cs @ ys \<Longrightarrow> expect cs p = Returns (None, p\<lparr>view := ys\<rparr>)"
  by (simp add: expect_def remove_prefix_append)

lemma expect_two_Cons:
  "view p = x # ys \<Longrightarrow> x = c \<or> x = d \<Longrightarrow> expect_two c d p = Returns (None, p\<lparr>view := ys\<rparr>)"
  by (auto simp: expect_two_def starts_with_Cons remove_prefix_def)

lemma next_token_append:
  "view p = tok @ d # ys \<Longrightarrow> d \<notin> set tok \<Longrightarrow>
   next_token d p = Returns (tok, p\<lparr>view := d # ys\<rparr>)"
  by (simp add: next_token_def find_index_char_hit remove_prefix_def)

lemma next_token_view_append:
  "d \<notin> set tok \<Longrightarrow> next_token_view (tok @ d # ys) d = Returns (tok, d # ys)"
  by (simp add: next_token_view_def find_index_char_hit remove_prefix_def)

lemma next_token_defined_iff:
  "(\<exists>t q. next_token d p = Returns (t, q)) \<longleftrightarrow> d \<in> set (view p)"
  using find_index_None_iff [of "\<lambda>c. c = d" "view p"]
  by (cases "find_index (\<lambda>c. c = d) (view p)")
     (auto simp: next_token_def remove_prefix_def dest: find_index_SomeD)

lemma next_token_result:
  assumes "next_token d p = Returns (t, q)"
  shows "d \<notin> set t \<and> (\<exists>ys. view p = t @ d # ys \<and> q = p\<lparr>view := d # ys\<rparr>)"
proof -
  from assms obtain i where i: "find_index (\<lambda>c. c = d) (view p) = Some i"
    and t: "t = take i (view p)" and q: "q = p\<lparr>view := drop i (view p)\<rparr>"
    by (auto simp: next_token_def remove_prefix_def split: option.splits if_splits)
  from find_index_split [OF i] t q show ?thesis by auto
qed

lemma next_token_view_result:
  assumes "next_token_view v d = Returns (t, w)"
  shows "d \<notin> set t \<and> (\<exists>ys. v = t @ d # ys \<and> w = d # ys)"
proof -
  from assms obtain i where i: "find_index (\<lambda>c. c = d) v = Some i"
    and t: "t = take i v" and w: "w = drop i v"
    by (auto simp: next_token_view_def remove_prefix_def split: option.splits if_splits)
  from find_index_split [OF i] t w show ?thesis by auto
qed

text \<open>
  Together: any run of the operations keeps the parser well formed, because each of them only
  advances; and cutting a token consumes exactly the token.
\<close>

lemma next_token_view_conserves:
  "next_token_view v d = Returns (t, w) \<Longrightarrow> t @ w = v"
  using next_token_view_result by fastforce

end
