(* ===== verification/Message.thy ===== *)
theory Message
  imports Http StringParser
begin

text \<open>
  \<^verbatim>\<open>include/simpleserv/http/message.hpp\<close>: the two recognisers that read a method and a version off
  the cursor, the message classes, and the stream operators that print requests and responses.
  The facts say exactly which texts the recognisers consume.
\<close>

section \<open>Recognising a method\<close>

definition transform_fn :: "http_method \<Rightarrow> parser_error option \<Rightarrow> parser_error + http_method" where
  "transform_fn method res = (case res of Some e \<Rightarrow> Inl e | None \<Rightarrow> Inr method)"

definition expect_method ::
  "http_method \<Rightarrow> string \<Rightarrow> string_parser \<Rightarrow> ((parser_error + http_method) \<times> string_parser) outcome" where
  "expect_method method rest p =
     obind (expect rest p) (\<lambda>(res, q). Returns (transform_fn method res, q))"

definition method_string_to_enum ::
  "string_parser \<Rightarrow> ((parser_error + http_method) \<times> string_parser) outcome" where
  "method_string_to_enum p =
     obind (head p) (\<lambda>c.
       if c = CHR ''G'' then obind (move 1 p) (expect_method GET ''ET'')
       else if c = CHR ''P'' then
         obind (move 1 p) (\<lambda>p1.
         obind (head p1) (\<lambda>c1.
           if c1 = CHR ''O'' then obind (move 1 p1) (expect_method POST ''ST'')
           else expect_method PUT ''UT'' p1))
       else if c = CHR ''D'' then obind (move 1 p) (expect_method DELETE ''ELETE'')
       else if c = CHR ''H'' then obind (move 1 p) (expect_method HEAD ''EAD'')
       else if c = CHR ''O'' then obind (move 1 p) (expect_method OPTIONS ''PTIONS'')
       else if c = CHR ''T'' then obind (move 1 p) (expect_method TRACE ''RACE'')
       else if c = CHR ''C'' then obind (move 1 p) (expect_method CONNECT ''ONNECT'')
       else
         obind (next_token (CHR '' '') p) (\<lambda>(tok, q).
           Returns (Inl (parser_error_at (''Invalid HTTP method string: '' @ tok)), q)))"

section \<open>Recognising a version\<close>

datatype http_version = HTTP_1_0 | HTTP_1_1 | HTTP_2_0 | HTTP_INVALID

fun http_version_value :: "http_version \<Rightarrow> nat" where
  "http_version_value HTTP_1_0 = 0"
| "http_version_value HTTP_1_1 = 1"
| "http_version_value HTTP_2_0 = 2"
| "http_version_value HTTP_INVALID = 3"

text \<open>The enumerators are ordered by their values, as C++ compares them.\<close>

instantiation http_version :: linorder
begin

definition less_eq_http_version :: "http_version \<Rightarrow> http_version \<Rightarrow> bool" where
  "less_eq_http_version a b \<longleftrightarrow> http_version_value a \<le> http_version_value b"

definition less_http_version :: "http_version \<Rightarrow> http_version \<Rightarrow> bool" where
  "less_http_version a b \<longleftrightarrow> http_version_value a < http_version_value b"

instance
proof
  fix x y z :: http_version
  show "x \<le> x" by (simp add: less_eq_http_version_def)
  show "x < y \<longleftrightarrow> x \<le> y \<and> \<not> y \<le> x" by (auto simp: less_eq_http_version_def less_http_version_def)
  show "x \<le> y \<Longrightarrow> y \<le> z \<Longrightarrow> x \<le> z" by (auto simp: less_eq_http_version_def)
  show "x \<le> y \<Longrightarrow> y \<le> x \<Longrightarrow> x = y" by (cases x; cases y) (auto simp: less_eq_http_version_def)
  show "x \<le> y \<or> y \<le> x" by (auto simp: less_eq_http_version_def)
qed

end

definition HTTP_VERSION_STRINGS :: "string list" where
  "HTTP_VERSION_STRINGS = [''HTTP/1.0'', ''HTTP/1.1'', ''HTTP/2.0'']"

text \<open>The results of the calls of \<^verbatim>\<open>expect\<close> are not looked at.\<close>

definition version_string_to_enum :: "string_parser \<Rightarrow> (http_version \<times> string_parser) outcome" where
  "version_string_to_enum p =
     obind (expect ''HTTP/'' p) (\<lambda>(_, p1).
     obind (head p1) (\<lambda>head0.
       if head0 = CHR ''2'' then
         obind (move 1 p1) (\<lambda>p2.
         obind (expect ''.0'' p2) (\<lambda>(_, p3). Returns (HTTP_2_0, p3)))
       else
         obind (move 1 p1) (\<lambda>p2.
         obind (expect ''1.'' p2) (\<lambda>(_, p3).
         obind (head p3) (\<lambda>head1.
           if head1 = CHR ''0'' then
             obind (move 1 p3) (\<lambda>p4. Returns (HTTP_1_0, p4))
           else
             obind (move 1 p3) (\<lambda>p4.
             obind (expect ''1'' p4) (\<lambda>(_, p5). Returns (HTTP_1_1, p5))))))))"

section \<open>Messages\<close>

text \<open>\<^verbatim>\<open>HTTPRequest\<close> and \<^verbatim>\<open>HTTPResponse\<close> extend \<^verbatim>\<open>HTTPMessage\<close>, as the records do.\<close>

record http_message =
  msg_version :: http_version
  msg_headers :: strmap
  msg_body :: string

record http_request = http_message +
  req_method :: http_method
  req_path :: string

record http_response = http_message +
  resp_status :: http_status

definition SetHeader :: "string \<Rightarrow> string \<Rightarrow> 'a http_message_scheme \<Rightarrow> 'a http_message_scheme" where
  "SetHeader key val m = m\<lparr>msg_headers := smap_set (msg_headers m) key val\<rparr>"

definition SetContent :: "string \<Rightarrow> 'a http_message_scheme \<Rightarrow> 'a http_message_scheme" where
  "SetContent content m = m\<lparr>msg_body := content\<rparr>"

definition HTTPRequest :: "http_method \<Rightarrow> string \<Rightarrow> http_version \<Rightarrow> http_request" where
  "HTTPRequest method path version =
     \<lparr>msg_version = version, msg_headers = [], msg_body = '''', req_method = method, req_path = path\<rparr>"

definition HTTPResponse :: "http_status \<Rightarrow> http_version \<Rightarrow> http_response" where
  "HTTPResponse status_code version =
     \<lparr>msg_version = version, msg_headers = [], msg_body = '''', resp_status = status_code\<rparr>"

abbreviation CRLF :: string where
  "CRLF \<equiv> [CHR 0x0D, CHR 0x0A]"

definition print_header :: "string \<times> string \<Rightarrow> string" where
  "print_header h = fst h @ '': '' @ snd h @ CRLF"

definition print_request :: "http_request \<Rightarrow> string outcome" where
  "print_request r =
     obind (array_at HTTP_METHOD_STRINGS (http_method_value (req_method r))) (\<lambda>m.
     obind (array_at HTTP_VERSION_STRINGS (http_version_value (msg_version r))) (\<lambda>v.
       Returns (m @ '' '' @ req_path r @ '' '' @ v @ CRLF @
                concat (map print_header (msg_headers r)) @ CRLF @ msg_body r)))"

definition print_response :: "http_response \<Rightarrow> string outcome" where
  "print_response r =
     obind (array_at HTTP_VERSION_STRINGS (http_version_value (msg_version r))) (\<lambda>v.
       Returns (v @ '' '' @ status_code_to_string (resp_status r) @ CRLF @
                concat (map print_header (msg_headers r)) @ CRLF @ msg_body r))"

text \<open>
  \<^verbatim>\<open>HTTPRequest::to_string\<close> streams \<^verbatim>\<open>this\<close>, a pointer, for which the library prints the address:
  \<open>address_text\<close>.  \<^verbatim>\<open>HTTPResponse::to_string\<close> streams the response.
\<close>

definition request_to_string :: "(http_request \<Rightarrow> string) \<Rightarrow> http_request \<Rightarrow> string" where
  "request_to_string address_text this = address_text this"

definition response_to_string :: "http_response \<Rightarrow> string outcome" where
  "response_to_string r = print_response r"

section \<open>Facts\<close>

lemma SetHeader_simps [simp]:
  "msg_version (SetHeader k v m) = msg_version m"
  "msg_body (SetHeader k v m) = msg_body m"
  "msg_headers (SetHeader k v m) = smap_set (msg_headers m) k v"
  "http_message.more (SetHeader k v m) = http_message.more m"
  by (simp_all add: SetHeader_def)

lemma SetContent_simps [simp]:
  "msg_version (SetContent c m) = msg_version m"
  "msg_body (SetContent c m) = c"
  "msg_headers (SetContent c m) = msg_headers m"
  "http_message.more (SetContent c m) = http_message.more m"
  by (simp_all add: SetContent_def)

lemma expect_fails: "\<not> starts_with (view p) cs \<Longrightarrow>
  expect cs p = Returns (Some (parser_error_at (''Expected characters: '' @ cs @ '', got '' @ view p)), p)"
  by (simp add: expect_def)

lemma expect_cases:
  "expect cs p = Returns (e, q) \<Longrightarrow>
   (e = None \<and> view p = cs @ view q \<and> str q = str p) \<or> (e \<noteq> None \<and> q = p \<and> \<not> starts_with (view p) cs)"
  by (auto simp: expect_def obind_eq_Returns starts_with_iff remove_prefix_append split: if_splits)

lemma move_1_cases: "move 1 p = Returns q \<Longrightarrow> head p = Returns c \<Longrightarrow> view p = c # view q \<and> str q = str p"
  by (cases "view p") (auto simp: move_def head_def char_at_def remove_prefix_def)

lemma expect_method_result:
  "expect_method m cs p = Returns (Inr m', q) \<Longrightarrow> m' = m \<and> view p = cs @ view q"
  by (auto simp: expect_method_def obind_eq_Returns transform_fn_def split: option.splits dest: expect_cases)

lemma expect_method_append:
  "view p = cs @ ys \<Longrightarrow> expect_method m cs p = Returns (Inr m, p\<lparr>view := ys\<rparr>)"
  by (simp add: expect_method_def expect_append transform_fn_def)

text \<open>The recogniser accepts exactly the names of the table, and consumes exactly the name.\<close>

lemma method_recognised:
  "view p = HTTP_METHOD_STRINGS ! http_method_value m @ ys \<Longrightarrow>
   method_string_to_enum p = Returns (Inr m, p\<lparr>view := ys\<rparr>)"
  by (cases m)
     (simp_all add: HTTP_METHOD_STRINGS_def method_string_to_enum_def cpp_simps expect_method_append)

lemma method_recognised_only:
  assumes "method_string_to_enum p = Returns (Inr m, q)"
  shows "view p = HTTP_METHOD_STRINGS ! http_method_value m @ view q"
proof (cases "view p")
  case Nil
  with assms show ?thesis by (simp add: method_string_to_enum_def head_def char_at_def)
next
  case (Cons c v)
  show ?thesis
  proof (cases "c = CHR ''P''")
    case True
    with assms Cons show ?thesis
      by (cases v)
         (auto simp: method_string_to_enum_def cpp_simps head_def char_at_def HTTP_METHOD_STRINGS_def
           split: if_splits dest!: expect_method_result)
  next
    case False
    with assms Cons show ?thesis
      by (auto simp: method_string_to_enum_def cpp_simps HTTP_METHOD_STRINGS_def obind_eq_Returns
          split: if_splits dest!: expect_method_result)
  qed
qed

lemma method_advances: "method_string_to_enum p = Returns (Inr m, q) \<Longrightarrow> length (view q) < length (view p)"
  by (drule method_recognised_only) (cases m; simp add: HTTP_METHOD_STRINGS_def)

text \<open>
  The versions: 1.1 and 2.0 are consumed whole.  On the text of version 1.0 the recogniser has
  skipped the \<open>1\<close> when it expects \<open>1.\<close>; it reports 1.1 and leaves the last digit in the view.
\<close>

lemma version_1_1: "view p = ''HTTP/1.1'' @ ys \<Longrightarrow>
    version_string_to_enum p = Returns (HTTP_1_1, p\<lparr>view := ys\<rparr>)"
  by (simp add: version_string_to_enum_def expect_def cpp_simps remove_prefix_def)

lemma version_2_0: "view p = ''HTTP/2.0'' @ ys \<Longrightarrow>
    version_string_to_enum p = Returns (HTTP_2_0, p\<lparr>view := ys\<rparr>)"
  by (simp add: version_string_to_enum_def expect_def cpp_simps remove_prefix_def)

lemma version_1_0: "view p = ''HTTP/1.0'' @ ys \<Longrightarrow>
    version_string_to_enum p = Returns (HTTP_1_1, p\<lparr>view := CHR ''0'' # ys\<rparr>)"
  by (simp add: version_string_to_enum_def expect_def cpp_simps remove_prefix_def)

lemma version_advances:
  "version_string_to_enum p = Returns (v, q) \<Longrightarrow> advances p q \<and> v \<noteq> HTTP_INVALID"
  by (auto simp: version_string_to_enum_def obind_eq_Returns split: if_splits
      dest!: move_advances expect_advances)
     (meson advances_trans)+

lemma print_request_Returns:
  "msg_version r \<noteq> HTTP_INVALID \<Longrightarrow>
   print_request r =
     Returns (HTTP_METHOD_STRINGS ! http_method_value (req_method r) @ '' '' @ req_path r @ '' '' @
       HTTP_VERSION_STRINGS ! http_version_value (msg_version r) @ CRLF @
       concat (map print_header (msg_headers r)) @ CRLF @ msg_body r)"
  by (cases "msg_version r")
     (simp_all add: print_request_def array_at_def HTTP_VERSION_STRINGS_def)

lemma print_response_Returns:
  "msg_version r \<noteq> HTTP_INVALID \<Longrightarrow>
   print_response r =
     Returns (HTTP_VERSION_STRINGS ! http_version_value (msg_version r) @ '' '' @
       status_code_to_string (resp_status r) @ CRLF @
       concat (map print_header (msg_headers r)) @ CRLF @ msg_body r)"
  by (cases "msg_version r")
     (simp_all add: print_response_def array_at_def HTTP_VERSION_STRINGS_def)

end
