(* ===== verification/Parser.thy ===== *)
theory Parser
  imports Message
begin

text \<open>
  \<^verbatim>\<open>src/simpleserv/http/parser.cpp\<close>: the request line, the header lines, the whole request.  A
  parsing function returns the error or the result beside the moved cursor; its outcome is
  undefined or an exception where the C++ text leaves the string views behind.
\<close>

section \<open>The functions of the source\<close>

abbreviation ASCII_HT :: char where
  "ASCII_HT \<equiv> CHR 0x09"

abbreviation SP :: char where
  "SP \<equiv> CHR '' ''"

definition methods :: "string set" where
  "methods = {''OPTIONS'', ''GET'', ''HEAD'', ''POST'', ''PUT'', ''DELETE'', ''TRACE'', ''CONNECT''}"

definition parse_request_line ::
  "string_parser \<Rightarrow> ((parser_error + http_request) \<times> string_parser) outcome" where
  "parse_request_line p =
     obind (method_string_to_enum p) (\<lambda>(method_res, p1).
     case method_res of Inl e \<Rightarrow> Returns (Inl e, p1) | Inr method \<Rightarrow>
     obind (expect_two ASCII_HT SP p1) (\<lambda>(space_res, p2).
     case space_res of Some e \<Rightarrow> Returns (Inl e, p2) | None \<Rightarrow>
     obind (next_token SP (consume_all_two ASCII_HT SP p2)) (\<lambda>(url, p3).
     obind (expect_two ASCII_HT SP p3) (\<lambda>(space_res2, p4).
     case space_res2 of Some e \<Rightarrow> Returns (Inl e, p4) | None \<Rightarrow>
     obind (version_string_to_enum (consume_all_two ASCII_HT SP p4)) (\<lambda>(version, p5).
     if version = HTTP_INVALID then Returns (Inl parser_error_default, p5) else
     obind (expect CRLF p5) (\<lambda>(end_res, p6).
     case end_res of Some e \<Rightarrow> Returns (Inl e, p6) | None \<Rightarrow>
       Returns (Inr (HTTPRequest method url version), p6)))))))"

record header =
  hkey :: string
  hvalue :: string

text \<open>\<^verbatim>\<open>field_name.back()\<close> of the error message is undefined on an empty name.\<close>

definition parse_header :: "string \<Rightarrow> (parser_error + header) outcome" where
  "parse_header line =
     obind (next_token_view line SP) (\<lambda>(field_name, field_value).
       if \<not> ends_with_char field_name CHR '':'' then
         (if field_name = [] then Undefined
          else Returns (Inl (parser_error_at
            (''Expected header field name to end with '' @ [CHR 0x27] @ '':'' @ [CHR 0x27] @
             '', got: '' @ shown_char (last field_name)))))
       else
         obind (remove_suffix 1 field_name) (\<lambda>name.
         obind (remove_prefix 1 field_value) (\<lambda>val.
           Returns (Inr \<lparr>hkey = name, hvalue = val\<rparr>))))"

abbreviation is_crlf_char :: "char \<Rightarrow> bool" where
  "is_crlf_char \<equiv> (\<lambda>c. c \<in> set CRLF)"

text \<open>The loop of \<^verbatim>\<open>parse_message_headers\<close>: every round consumes at least two characters.\<close>

function message_headers_loop ::
  "header list \<Rightarrow> string \<Rightarrow> (parser_error + header list \<times> string) outcome" where
  "message_headers_loop headers str_view =
     (if starts_with str_view CRLF then
        obind (remove_prefix 2 str_view) (\<lambda>rest. Returns (Inr (headers, rest)))
      else
        (case find_index is_crlf_char str_view of
           None \<Rightarrow> Returns (Inl (parser_error_at
             ''Could not find the terminating characters of the header.''))
         | Some next_header \<Rightarrow>
             obind (substr str_view 0 next_header) (\<lambda>line.
             obind (parse_header line) (\<lambda>result.
             case result of
               Inl e \<Rightarrow> Returns (Inl e)
             | Inr h \<Rightarrow>
                 obind (remove_prefix (next_header + 2) str_view) (\<lambda>rest.
                   message_headers_loop (headers @ [h]) rest)))))"
  by pat_completeness auto
termination
proof (relation "measure (\<lambda>(headers, v). length v)", goal_cases)
  case 1
  show ?case by simp
next
  case (2 headers v next_header line result h rest)
  from remove_prefix_Returns [OF 2(6)] show ?case by auto
qed

declare message_headers_loop.simps [simp del]

text \<open>The caller's view is moved when the block has been read, not when reading it fails.\<close>

definition parse_message_headers :: "string \<Rightarrow> ((parser_error + header list) \<times> string) outcome" where
  "parse_message_headers v =
     obind (message_headers_loop [] v) (\<lambda>result.
       case result of Inl e \<Rightarrow> Returns (Inl e, v) | Inr (headers, rest) \<Rightarrow> Returns (Inr headers, rest))"

definition parse_http_request :: "string \<Rightarrow> (parser_error + http_request) outcome" where
  "parse_http_request s =
     obind (parse_request_line (new_parser s)) (\<lambda>(result, p1).
     case result of Inl e \<Rightarrow> Returns (Inl e) | Inr request \<Rightarrow>
     obind (process_function parse_message_headers p1) (\<lambda>(headers_result, p2).
     case headers_result of Inl e \<Rightarrow> Returns (Inl e) | Inr headers \<Rightarrow>
       Returns (Inr (SetContent (process_function_own (\<lambda>strv. strv) p2)
         (foldl (\<lambda>r h. SetHeader (hkey h) (hvalue h) r) request headers)))))"

lemma methods_table: "methods = set HTTP_METHOD_STRINGS"
  by (auto simp: methods_def HTTP_METHOD_STRINGS_def)

section \<open>Header lines\<close>

definition field_key_ok :: "string \<Rightarrow> bool" where
  "field_key_ok k \<longleftrightarrow> (\<forall>c \<in> set k. c \<noteq> SP \<and> \<not> is_crlf_char c)"

definition field_value_ok :: "string \<Rightarrow> bool" where
  "field_value_ok v \<longleftrightarrow> (\<forall>c \<in> set v. \<not> is_crlf_char c)"

lemma parse_header_line:
  "field_key_ok k \<Longrightarrow> parse_header (k @ '': '' @ v) = Returns (Inr \<lparr>hkey = k, hvalue = v\<rparr>)"
proof -
  assume "field_key_ok k"
  then have "SP \<notin> set (k @ '':'')"
    by (auto simp: field_key_ok_def)
  from next_token_view_append [OF this, of v] show ?thesis
    by (simp add: parse_header_def ends_with_char_def remove_suffix_def remove_prefix_def)
qed

lemma parse_header_result:
  assumes "parse_header line = Returns (Inr h)"
  shows "line = hkey h @ '': '' @ hvalue h \<and> SP \<notin> set (hkey h)"
proof -
  from assms obtain name val where tok: "next_token_view line SP = Returns (name, val)"
    by (auto simp: parse_header_def obind_eq_Returns)
  from next_token_view_result [OF tok] obtain ys where
    "SP \<notin> set name" "line = name @ SP # ys" "val = SP # ys" by auto
  moreover from assms tok calculation have "ends_with_char name CHR '':''"
    and "h = \<lparr>hkey = butlast name, hvalue = ys\<rparr>"
    by (auto simp: parse_header_def remove_suffix_def remove_prefix_def butlast_conv_take split: if_splits)
  ultimately show ?thesis
    by (auto simp: ends_with_char_def dest: in_set_butlastD
        intro!: append_butlast_last_id [symmetric])
       (metis append_butlast_last_id append_Cons append_Nil append_assoc)
qed

text \<open>One round of the loop on a header line, and the end of the block.\<close>

lemma message_headers_loop_end: "message_headers_loop hs (CRLF @ rest) = Returns (Inr (hs, rest))"
  by (simp add: message_headers_loop.simps starts_with_Cons remove_prefix_def)

lemma find_crlf_char:
  "\<forall>c \<in> set line. \<not> is_crlf_char c \<Longrightarrow> find_index is_crlf_char (line @ CRLF @ rest) = Some (length line)"
  using find_index_append_hit [of line is_crlf_char "CHR 0x0D" "CHR 0x0A # rest"] by simp

lemma not_starts_crlf:
  "line \<noteq> [] \<Longrightarrow> \<forall>c \<in> set line. \<not> is_crlf_char c \<Longrightarrow> \<not> starts_with (line @ r) CRLF"
  by (cases line) (auto simp: starts_with_Cons)

lemma message_headers_loop_unfold:
  assumes "line \<noteq> []" and no_crlf: "\<forall>c \<in> set line. \<not> is_crlf_char c"
  shows "message_headers_loop hs (line @ CRLF @ rest) =
    obind (parse_header line) (\<lambda>result.
      case result of Inl e \<Rightarrow> Returns (Inl e) | Inr h \<Rightarrow> message_headers_loop (hs @ [h]) rest)"
proof -
  have "remove_prefix (length line + 2) (line @ CRLF @ rest) = Returns rest"
    by (simp add: remove_prefix_def)
  with not_starts_crlf [OF assms] find_crlf_char [OF no_crlf] show ?thesis
    by (subst message_headers_loop.simps) (simp add: substr_def del: append_Cons)
qed

lemma message_headers_loop_line:
  assumes "field_key_ok k" and "field_value_ok v"
  shows "message_headers_loop hs (print_header (k, v) @ rest) =
    message_headers_loop (hs @ [\<lparr>hkey = k, hvalue = v\<rparr>]) rest"
proof -
  let ?line = "k @ '': '' @ v"
  have lay: "print_header (k, v) @ rest = ?line @ CRLF @ rest"
    by (simp add: print_header_def)
  from assms have "\<forall>c \<in> set ?line. \<not> is_crlf_char c"
    by (auto simp: field_key_ok_def field_value_ok_def)
  then have "message_headers_loop hs (?line @ CRLF @ rest) =
    obind (parse_header ?line) (\<lambda>result.
      case result of Inl e \<Rightarrow> Returns (Inl e) | Inr h \<Rightarrow> message_headers_loop (hs @ [h]) rest)"
    by (intro message_headers_loop_unfold) auto
  then show ?thesis
    by (simp only: lay parse_header_line [OF assms(1)] obind.simps sum.case)
qed

lemma message_headers_loop_block:
  "(\<forall>(k, v) \<in> set es. field_key_ok k \<and> field_value_ok v) \<Longrightarrow>
   message_headers_loop hs (concat (map print_header es) @ CRLF @ rest) =
     Returns (Inr (hs @ map (\<lambda>(k, v). \<lparr>hkey = k, hvalue = v\<rparr>) es, rest))"
proof (induction es arbitrary: hs)
  case Nil
  show ?case using message_headers_loop_end [of hs rest] by simp
next
  case (Cons e es)
  obtain k v where [simp]: "e = (k, v)" by (cases e)
  from Cons show ?case
    using message_headers_loop_line [of k v hs "concat (map print_header es) @ CRLF @ rest"] by simp
qed

section \<open>The request line\<close>

definition url_ok :: "string \<Rightarrow> bool" where
  "url_ok u \<longleftrightarrow> u \<noteq> [] \<and> hd u \<noteq> ASCII_HT \<and> SP \<notin> set u"

lemma consume_all_two_stop:
  "view p = x # v \<Longrightarrow> x \<noteq> c \<Longrightarrow> x \<noteq> d \<Longrightarrow> consume_all_two c d p = p"
  by (simp add: consume_all_two_def)

lemma view_update_same: "view p = v \<Longrightarrow> p\<lparr>view := v\<rparr> = p"
  by (cases p) simp

text \<open>
  Up to the version text, a request line with single spaces is read as it stands; what follows
  depends on what the version recogniser makes of the rest.
\<close>

lemma parse_request_line_upto_version:
  assumes u: "url_ok u" and rest: "rest = CHR ''H'' # rest'"
    and p: "view p = HTTP_METHOD_STRINGS ! http_method_value m @ '' '' @ u @ '' '' @ rest"
  shows "parse_request_line p =
    obind (version_string_to_enum (p\<lparr>view := rest\<rparr>)) (\<lambda>(version, p5).
     if version = HTTP_INVALID then Returns (Inl parser_error_default, p5) else
     obind (expect CRLF p5) (\<lambda>(end_res, p6).
     case end_res of Some e \<Rightarrow> Returns (Inl e, p6) | None \<Rightarrow>
       Returns (Inr (HTTPRequest m u version), p6)))"
proof -
  from u obtain x u' where u': "u = x # u'" "x \<noteq> ASCII_HT" "x \<noteq> SP" "SP \<notin> set u"
    by (cases u) (auto simp: url_ok_def)
  have tok: "next_token SP (p\<lparr>view := u @ SP # rest\<rparr>) = Returns (u, p\<lparr>view := SP # rest\<rparr>)"
    by (subst next_token_append [OF _ u'(4)]) simp_all
  have skip: "consume_all_two ASCII_HT SP (p\<lparr>view := u @ SP # rest\<rparr>) = p\<lparr>view := u @ SP # rest\<rparr>"
    by (rule consume_all_two_stop [of _ x "u' @ SP # rest"]) (simp_all add: u')
  have skip2: "consume_all_two ASCII_HT SP (p\<lparr>view := rest\<rparr>) = p\<lparr>view := rest\<rparr>"
    by (rule consume_all_two_stop [of _ "CHR ''H''" rest']) (simp_all add: rest)
  show ?thesis
    unfolding parse_request_line_def
    by (simp add: method_recognised [OF p] expect_two_Cons [of _ SP] skip skip2 tok)
qed

end
