(* ===== verification/Request_Roundtrip.thy ===== *)
theory Request_Roundtrip
  imports Parser
begin

text \<open>
  What the parser of \<^verbatim>\<open>parser.cpp\<close> makes of the text that \<^verbatim>\<open>operator<<\<close> of \<^verbatim>\<open>HTTPRequest\<close> prints, what
  every accepted text looks like, and where the parser fails: the error values, the exception and
  the undefined cases.
\<close>

section \<open>Printing and parsing back\<close>

definition fields_ok :: "http_request \<Rightarrow> bool" where
  "fields_ok r \<longleftrightarrow>
     url_ok (req_path r) \<and> smap_ok (msg_headers r) \<and>
     (\<forall>(k, v) \<in> set (msg_headers r). field_key_ok k \<and> field_value_ok v)"

definition request_ok :: "http_request \<Rightarrow> bool" where
  "request_ok r \<longleftrightarrow> msg_version r \<in> {HTTP_1_1, HTTP_2_0} \<and> fields_ok r"

definition header_of :: "string \<times> string \<Rightarrow> header" where
  "header_of e = \<lparr>hkey = fst e, hvalue = snd e\<rparr>"

definition set_headers :: "'a http_message_scheme \<Rightarrow> header list \<Rightarrow> 'a http_message_scheme" where
  "set_headers r hs = foldl (\<lambda>r h. SetHeader (hkey h) (hvalue h) r) r hs"

definition entries :: "header list \<Rightarrow> strmap" where
  "entries hs = foldl (\<lambda>m h. smap_set m (hkey h) (hvalue h)) [] hs"

lemma set_headers_eq:
  "set_headers r hs = r\<lparr>msg_headers := foldl (\<lambda>m h. smap_set m (hkey h) (hvalue h)) (msg_headers r) hs\<rparr>"
  by (induction hs arbitrary: r) (simp_all add: set_headers_def SetHeader_def)

lemma entries_header_of: "smap_ok es \<Longrightarrow> entries (map header_of es) = es"
proof -
  have "foldl (\<lambda>m h. smap_set m (hkey h) (hvalue h)) m (map header_of es) =
      foldl (\<lambda>m (k, v). smap_set m k v) m es" for m
    by (induction es arbitrary: m) (auto simp: header_of_def split_def)
  then show "smap_ok es \<Longrightarrow> ?thesis" by (simp add: entries_def smap_rebuild)
qed

text \<open>After the request line, header lines and body are read as they stand.\<close>

lemma parse_after_request_line:
  assumes "parse_request_line (new_parser s) = Returns (Inr (HTTPRequest m u v), q)"
    and "view q = concat (map print_header es) @ CRLF @ content"
    and "\<forall>(k, v) \<in> set es. field_key_ok k \<and> field_value_ok v"
  shows "parse_http_request s = Returns (Inr
    \<lparr>msg_version = v, msg_headers = entries (map header_of es), msg_body = content,
     req_method = m, req_path = u\<rparr>)"
proof -
  have eq: "(\<lambda>(k, v). \<lparr>hkey = k, hvalue = v\<rparr>) = header_of"
    by (auto simp: header_of_def)
  from message_headers_loop_block [OF assms(3), of "[]" content] assms(2)
  have "process_function parse_message_headers q =
      Returns (Inr (map header_of es), q\<lparr>view := content\<rparr>)"
    by (simp add: process_function_def parse_message_headers_def eq)
  then show ?thesis
    by (simp add: parse_http_request_def assms(1) process_function_own_def SetContent_def
        set_headers_def [symmetric] set_headers_eq HTTPRequest_def entries_def)
qed

lemma roundtrip:
  assumes "request_ok r"
  shows "obind (print_request r) parse_http_request = Returns (Inr r)"
proof -
  let ?tail = "concat (map print_header (msg_headers r)) @ CRLF @ msg_body r"
  let ?vt = "HTTP_VERSION_STRINGS ! http_version_value (msg_version r)"
  let ?s = "HTTP_METHOD_STRINGS ! http_method_value (req_method r) @ '' '' @ req_path r @ '' '' @ ?vt @ CRLF @ ?tail"
  from assms have u: "url_ok (req_path r)" and v: "msg_version r \<in> {HTTP_1_1, HTTP_2_0}"
    and hs: "smap_ok (msg_headers r)"
    and ok: "\<forall>(k, v) \<in> set (msg_headers r). field_key_ok k \<and> field_value_ok v"
    by (auto simp: request_ok_def fields_ok_def)
  from v have vt: "version_string_to_enum (p\<lparr>view := ?vt @ w\<rparr>) = Returns (msg_version r, p\<lparr>view := w\<rparr>)"
    and h: "\<exists>t. ?vt = CHR ''H'' # t" and inv: "msg_version r \<noteq> HTTP_INVALID" for p w
    using version_1_1 [of "p\<lparr>view := ''HTTP/1.1'' @ w\<rparr>"] version_2_0 [of "p\<lparr>view := ''HTTP/2.0'' @ w\<rparr>"]
    by (auto simp: HTTP_VERSION_STRINGS_def)
  from h obtain t where t: "?vt = CHR ''H'' # t" by blast
  have "parse_request_line (new_parser ?s) =
      Returns (Inr (HTTPRequest (req_method r) (req_path r) (msg_version r)), (new_parser ?s)\<lparr>view := ?tail\<rparr>)"
    by (subst parse_request_line_upto_version [OF u, where rest = "?vt @ CRLF @ ?tail" and m = "req_method r"])
       (use inv in \<open>simp_all add: t [symmetric] vt expect_append [of _ CRLF ?tail, simplified], simp_all add: t new_parser_def\<close>)
  from parse_after_request_line [OF this _ ok, of "msg_body r"] have
    "parse_http_request ?s = Returns (Inr r)"
    by (simp add: entries_header_of [OF hs])
  then show ?thesis by (simp add: print_request_Returns [OF inv])
qed

text \<open>
  C1. Parsing inverts printing: the text that \<^verbatim>\<open>operator<<\<close> writes for a request of version 1.1 or
  2.0, with a path that has no space and does not start with a tab, and with header names and
  values free of line breaks (names free of spaces), is parsed back into exactly that request:
  same method, path, version, the same map of headers, the same body.
\<close>

theorem parse_print_request:
  assumes "request_ok r"
  shows "obind (print_request r) parse_http_request = Returns (Inr r)"
  using assms by (rule roundtrip)

text \<open>The witness: a request with a query, two headers and a body, printed and parsed.\<close>

definition sample_request :: http_request where
  "sample_request =
     \<lparr>msg_version = HTTP_1_1,
      msg_headers = [(''Accept'', ''text/html, */*''), (''Host'', ''localhost'')],
      msg_body = ''a=1'' @ CRLF @ ''b'', req_method = POST, req_path = ''/form.html?x=1''\<rparr>"

lemma sample_request_ok: "request_ok sample_request"
  by (simp add: request_ok_def fields_ok_def sample_request_def url_ok_def smap_ok_def
      field_key_ok_def field_value_ok_def)

theorem parse_print_request_witness:
  "request_ok sample_request \<and>
   obind (print_request sample_request) parse_http_request = Returns (Inr sample_request)"
  using sample_request_ok parse_print_request [OF sample_request_ok] by simp

text \<open>
  C28. Requests of version 1.0 are not accepted: whatever the method, path, headers and body, the
  text printed for a request of version 1.0 is answered with a parser error, because the version
  recogniser leaves the last digit of \<^verbatim>\<open>HTTP/1.0\<close> unread.
\<close>

theorem http_1_0_rejected:
  assumes "msg_version r = HTTP_1_0" and u: "url_ok (req_path r)"
  shows "obind (print_request r) parse_http_request =
    Returns (Inl (parser_error_at (''Expected characters: '' @ CRLF @ '', got '' @ ''0'' @ CRLF @
      concat (map print_header (msg_headers r)) @ CRLF @ msg_body r)))"
proof -
  let ?tail = "concat (map print_header (msg_headers r)) @ CRLF @ msg_body r"
  let ?s = "HTTP_METHOD_STRINGS ! http_method_value (req_method r) @ '' '' @ req_path r @ '' '' @
    ''HTTP/1.0'' @ CRLF @ ?tail"
  have vt: "version_string_to_enum (p\<lparr>view := CHR ''H'' # ''TTP/1.0'' @ CRLF @ ?tail\<rparr>) =
      Returns (HTTP_1_1, p\<lparr>view := CHR ''0'' # CRLF @ ?tail\<rparr>)" for p
    using version_1_0 [of "p\<lparr>view := ''HTTP/1.0'' @ CRLF @ ?tail\<rparr>" "CRLF @ ?tail"] by simp
  have "parse_request_line (new_parser ?s) = Returns
      (Inl (parser_error_at (''Expected characters: '' @ CRLF @ '', got '' @ ''0'' @ CRLF @ ?tail)),
       (new_parser ?s)\<lparr>view := CHR ''0'' # CRLF @ ?tail\<rparr>)"
    by (subst parse_request_line_upto_version
          [OF u, where rest = "''HTTP/1.0'' @ CRLF @ ?tail" and rest' = "''TTP/1.0'' @ CRLF @ ?tail"
            and m = "req_method r"])
       (use vt in \<open>simp_all add: expect_def starts_with_Cons\<close>, simp_all add: new_parser_def)
  then have "parse_http_request ?s = Returns (Inl (parser_error_at
      (''Expected characters: '' @ CRLF @ '', got '' @ ''0'' @ CRLF @ ?tail)))"
    by (simp add: parse_http_request_def)
  with assms(1) show ?thesis
    by (simp add: print_request_Returns HTTP_VERSION_STRINGS_def)
qed

definition sample_request_1_0 :: http_request where
  "sample_request_1_0 = HTTPRequest GET ''/'' HTTP_1_0"

theorem http_1_0_rejected_witness:
  "obind (print_request sample_request_1_0) parse_http_request =
     Returns (Inl (parser_error_at (''Expected characters: '' @ CRLF @ '', got 0'' @ CRLF @ CRLF)))"
proof -
  have "msg_version sample_request_1_0 = HTTP_1_0" and "url_ok (req_path sample_request_1_0)"
    by (simp_all add: sample_request_1_0_def HTTPRequest_def url_ok_def)
  from http_1_0_rejected [OF this] show ?thesis
    by (simp add: sample_request_1_0_def HTTPRequest_def)
qed

section \<open>Every accepted text\<close>

lemma expect_two_None:
  "expect_two c d p = Returns (None, q) \<Longrightarrow> \<exists>x. view p = x # view q \<and> (x = c \<or> x = d)"
  by (auto simp: expect_two_def starts_with_iff obind_eq_Returns remove_prefix_def
      split: if_splits list.splits)

lemma consume_all_two_shape:
  "\<exists>ws. view p = ws @ view (consume_all_two c d p) \<and> set ws \<subseteq> {c, d} \<and>
     (\<forall>x v. view (consume_all_two c d p) = x # v \<longrightarrow> x \<noteq> c \<and> x \<noteq> d)"
proof -
  let ?P = "\<lambda>x. x = c \<or> x = d"
  have v: "view (consume_all_two c d p) = dropWhile ?P (view p)"
    by (simp add: consume_all_two_def consume_all_two_view_eq)
  have 1: "view p = takeWhile ?P (view p) @ dropWhile ?P (view p)"
    by (rule takeWhile_dropWhile_id [symmetric])
  have 2: "set (takeWhile ?P (view p)) \<subseteq> {c, d}"
    by (auto dest: set_takeWhileD)
  have 3: "\<forall>x w. dropWhile ?P (view p) = x # w \<longrightarrow> x \<noteq> c \<and> x \<noteq> d"
    by (auto simp: dropWhile_eq_Cons_conv)
  show ?thesis unfolding v using 1 2 3 by blast
qed

lemma expect_None: "expect cs p = Returns (None, q) \<Longrightarrow> view p = cs @ view q"
  by (auto dest: expect_cases)

text \<open>
  The white space after the method and after the path, as the parser takes it: at least one
  space or tab.
\<close>

definition blanks :: "string \<Rightarrow> bool" where
  "blanks ws \<longleftrightarrow> ws \<noteq> [] \<and> set ws \<subseteq> {ASCII_HT, SP}"

lemma blanks_then:
  assumes "expect_two ASCII_HT SP p = Returns (None, q)"
  shows "\<exists>ws. blanks ws \<and> view p = ws @ view (consume_all_two ASCII_HT SP q) \<and>
    (\<forall>x v. view (consume_all_two ASCII_HT SP q) = x # v \<longrightarrow> x \<noteq> ASCII_HT \<and> x \<noteq> SP)"
proof -
  from expect_two_None [OF assms] obtain x where x: "view p = x # view q" "x = ASCII_HT \<or> x = SP"
    by blast
  from consume_all_two_shape [of q ASCII_HT SP] obtain ws where ws:
    "view q = ws @ view (consume_all_two ASCII_HT SP q)" "set ws \<subseteq> {ASCII_HT, SP}"
    "\<forall>x v. view (consume_all_two ASCII_HT SP q) = x # v \<longrightarrow> x \<noteq> ASCII_HT \<and> x \<noteq> SP"
    by blast
  then have "view p = (x # ws) @ view (consume_all_two ASCII_HT SP q)"
    using x(1) by simp
  with x(2) ws(2,3) show ?thesis
    by (intro exI [of _ "x # ws"]) (auto simp: blanks_def)
qed

lemma parse_request_line_shape:
  assumes "parse_request_line p = Returns (Inr r, q)"
  shows "\<exists>m u v ws1 ws2 vt. r = HTTPRequest m u v \<and> v \<noteq> HTTP_INVALID \<and> url_ok u \<and>
    blanks ws1 \<and> blanks ws2 \<and>
    view p = HTTP_METHOD_STRINGS ! http_method_value m @ ws1 @ u @ ws2 @ vt @ CRLF @ view q"
proof -
  from assms obtain m p1 p2 u p3 p4 v p5 where
    m: "method_string_to_enum p = Returns (Inr m, p1)" and
    s1: "expect_two ASCII_HT SP p1 = Returns (None, p2)" and
    t: "next_token SP (consume_all_two ASCII_HT SP p2) = Returns (u, p3)" and
    s2: "expect_two ASCII_HT SP p3 = Returns (None, p4)" and
    v: "version_string_to_enum (consume_all_two ASCII_HT SP p4) = Returns (v, p5)" and
    e: "expect CRLF p5 = Returns (None, q)" and
    r: "r = HTTPRequest m u v" "v \<noteq> HTTP_INVALID"
    by (auto simp: parse_request_line_def obind_eq_Returns early_returns)
  from blanks_then [OF s1] obtain ws1 where ws1: "blanks ws1"
    "view p1 = ws1 @ view (consume_all_two ASCII_HT SP p2)"
    "\<forall>x w. view (consume_all_two ASCII_HT SP p2) = x # w \<longrightarrow> x \<noteq> ASCII_HT \<and> x \<noteq> SP" by blast
  from next_token_result [OF t] have u: "SP \<notin> set u"
    "view (consume_all_two ASCII_HT SP p2) = u @ view p3" "view p3 \<noteq> []" "hd (view p3) = SP"
    by auto
  from u ws1(3) have "url_ok u"
    by (cases u; cases "view p3") (auto simp: url_ok_def)
  from blanks_then [OF s2] obtain ws2 where ws2: "blanks ws2"
    "view p3 = ws2 @ view (consume_all_two ASCII_HT SP p4)" by blast
  from version_advances [OF v] obtain vt where vt: "view (consume_all_two ASCII_HT SP p4) = vt @ view p5"
    by (auto simp: advances_def)
  have "view p = HTTP_METHOD_STRINGS ! http_method_value m @ ws1 @ u @ ws2 @ vt @ CRLF @ view q"
    using method_recognised_only [OF m] ws1(2) u(2) ws2(2) vt expect_None [OF e] by simp
  with r \<open>url_ok u\<close> ws1(1) ws2(1) show ?thesis by blast
qed

text \<open>
  A header line as the parser takes it: name, colon, space, value, and then two characters of
  which only the first has to be a line-break character.
\<close>

definition print_line :: "header \<times> string \<Rightarrow> string" where
  "print_line l = hkey (fst l) @ '': '' @ hvalue (fst l) @ snd l"

definition line_ok :: "header \<times> string \<Rightarrow> bool" where
  "line_ok l \<longleftrightarrow> field_key_ok (hkey (fst l)) \<and> field_value_ok (hvalue (fst l)) \<and>
     length (snd l) = 2 \<and> is_crlf_char (hd (snd l))"

lemma starts_with_CRLF: "starts_with v CRLF \<Longrightarrow> remove_prefix 2 v = Returns w \<Longrightarrow> v = CRLF @ w"
  by (auto simp: starts_with_iff remove_prefix_def)

lemma header_line_taken:
  assumes i: "find_index is_crlf_char v = Some i"
    and h: "parse_header (take i v) = Returns (Inr h)"
    and w: "remove_prefix (i + 2) v = Returns w"
  shows "\<exists>e. v = print_line (h, e) @ w \<and> line_ok (h, e)"
proof -
  let ?e = "take 2 (drop i v)"
  from i have no_crlf: "\<forall>c \<in> set (take i v). \<not> is_crlf_char c" and "i < length v" and at: "is_crlf_char (v ! i)"
    using find_index_SomeD by blast+
  from w have w': "w = drop (i + 2) v" and len: "i + 2 \<le> length v"
    using remove_prefix_Returns by blast+
  have lay: "take i v = hkey h @ '': '' @ hvalue h" and "SP \<notin> set (hkey h)"
    using parse_header_result [OF h] by auto
  have "v = take i v @ ?e @ w"
    unfolding w' by (metis add.commute append_take_drop_id drop_drop)
  moreover have "line_ok (h, ?e)"
    using no_crlf \<open>SP \<notin> set (hkey h)\<close> at len \<open>i < length v\<close>
    by (auto simp: line_ok_def lay field_key_ok_def field_value_ok_def hd_drop_conv_nth)
  ultimately show ?thesis
    by (intro exI [of _ ?e]) (simp add: print_line_def lay)
qed

lemma message_headers_loop_shape:
  "message_headers_loop hs v = Returns (Inr (hs', w)) \<Longrightarrow>
   \<exists>ls. hs' = hs @ map fst ls \<and> (\<forall>l \<in> set ls. line_ok l) \<and>
     v = concat (map print_line ls) @ CRLF @ w"
proof (induction hs v rule: message_headers_loop.induct)
  case (1 hs v)
  show ?case
  proof (cases "starts_with v CRLF")
    case True
    with "1.prems" have "hs' = hs" and "remove_prefix 2 v = Returns w"
      by (auto simp: message_headers_loop.simps [of hs v] obind_eq_Returns)
    with starts_with_CRLF [OF True] show ?thesis
      by (intro exI [of _ "[]"]) simp
  next
    case False
    with "1.prems" obtain i h w1 where i: "find_index is_crlf_char v = Some i"
      and h: "parse_header (take i v) = Returns (Inr h)"
      and w1: "remove_prefix (i + 2) v = Returns w1"
      and rec: "message_headers_loop (hs @ [h]) w1 = Returns (Inr (hs', w))"
      by (auto simp: message_headers_loop.simps [of hs v] obind_eq_Returns early_returns substr_def
          split: option.splits)
    from header_line_taken [OF i h w1] obtain e where e: "v = print_line (h, e) @ w1" "line_ok (h, e)"
      by blast
    from "1.IH" [OF False i _ h refl w1 rec] obtain ls where
      "hs' = (hs @ [h]) @ map fst ls" "\<forall>l \<in> set ls. line_ok l" "w1 = concat (map print_line ls) @ CRLF @ w"
      by (auto simp: substr_def)
    with e show ?thesis
      by (intro exI [of _ "(h, e) # ls"]) simp
  qed
qed

lemma parse_message_headers_Inr:
  "parse_message_headers v = Returns (Inr hs, w) \<Longrightarrow> message_headers_loop [] v = Returns (Inr (hs, w))"
  by (cases "message_headers_loop [] v") (auto simp: parse_message_headers_def split: sum.splits prod.splits)

lemma parse_request_shape_lemma:
  assumes "parse_http_request s = Returns (Inr r)"
  shows "\<exists>ws1 ws2 vt ls.
    s = HTTP_METHOD_STRINGS ! http_method_value (req_method r) @ ws1 @ req_path r @ ws2 @ vt @ CRLF @
        concat (map print_line ls) @ CRLF @ msg_body r \<and>
    blanks ws1 \<and> blanks ws2 \<and> (\<forall>l \<in> set ls. line_ok l) \<and>
    msg_headers r = entries (map fst ls) \<and> url_ok (req_path r) \<and> msg_version r \<noteq> HTTP_INVALID"
proof -
  from assms obtain r0 p1 hs p2 where
    line: "parse_request_line (new_parser s) = Returns (Inr r0, p1)" and
    block: "process_function parse_message_headers p1 = Returns (Inr hs, p2)" and
    r: "r = SetContent (view p2) (set_headers r0 hs)"
    by (auto simp: parse_http_request_def obind_eq_Returns early_returns process_function_own_def
        set_headers_def)
  from parse_request_line_shape [OF line] obtain m u v ws1 ws2 vt where
    r0: "r0 = HTTPRequest m u v" "v \<noteq> HTTP_INVALID" "url_ok u" "blanks ws1" "blanks ws2" and
    s: "s = HTTP_METHOD_STRINGS ! http_method_value m @ ws1 @ u @ ws2 @ vt @ CRLF @ view p1"
    by (auto simp: new_parser_def)
  from block have "message_headers_loop [] (view p1) = Returns (Inr (hs, view p2))"
    by (auto simp: process_function_def obind_eq_Returns dest: parse_message_headers_Inr)
  from message_headers_loop_shape [OF this] obtain ls where
    ls: "hs = map fst ls" "\<forall>l \<in> set ls. line_ok l" "view p1 = concat (map print_line ls) @ CRLF @ view p2"
    by auto
  have "r = \<lparr>msg_version = v, msg_headers = entries (map fst ls), msg_body = view p2,
      req_method = m, req_path = u\<rparr>"
    by (simp add: r r0 set_headers_eq entries_def ls(1) SetContent_def HTTPRequest_def)
  with r0 ls s show ?thesis by (intro exI [of _ ws1] exI [of _ ws2] exI [of _ vt] exI [of _ ls]) simp
qed

text \<open>The header maps that the parser builds are well formed, so an accepted request can be printed.\<close>

lemma entries_ok:
  assumes "\<forall>l \<in> set ls. line_ok l"
  shows "smap_ok (entries (map fst ls)) \<and>
    (\<forall>(k, v) \<in> set (entries (map fst ls)). field_key_ok k \<and> field_value_ok v)"
proof -
  let ?ins = "\<lambda>m h. smap_set m (hkey h) (hvalue h)"
  let ?ok = "\<lambda>m. smap_ok m \<and> (\<forall>(k, v) \<in> set m. field_key_ok k \<and> field_value_ok v)"
  have set_smap_set: "set (smap_set m k v) \<subseteq> insert (k, v) (set m)" for m k v
    by (induction m k v rule: smap_set.induct) auto
  have step: "?ok m \<Longrightarrow> line_ok l \<Longrightarrow> ?ok (?ins m (fst l))" for m l
    using set_smap_set [of m "hkey (fst l)" "hvalue (fst l)"] by (force simp: line_ok_def)
  have "?ok m \<Longrightarrow> \<forall>l \<in> set ls. line_ok l \<Longrightarrow> ?ok (foldl ?ins m (map fst ls))" for m
  proof (induction ls arbitrary: m)
    case (Cons l ls)
    from Cons.prems step [of m l] have "?ok (?ins m (fst l))" by simp
    with Cons.IH [OF this] Cons.prems(2) show ?case by simp
  qed simp
  from this [of "[]"] assms show ?thesis by (simp add: entries_def)
qed

lemma accepted_fields_ok:
  "parse_http_request s = Returns (Inr r) \<Longrightarrow> fields_ok r \<and> msg_version r \<noteq> HTTP_INVALID"
proof -
  assume "parse_http_request s = Returns (Inr r)"
  from parse_request_shape_lemma [OF this] obtain ls where
    "\<forall>l \<in> set ls. line_ok l" "msg_headers r = entries (map fst ls)" "url_ok (req_path r)"
    "msg_version r \<noteq> HTTP_INVALID" by blast
  with entries_ok [of ls] show ?thesis by (simp add: fields_ok_def)
qed

text \<open>
  C27. What an accepted text looks like.  If the parser returns a request, the text is the name of
  the request's method, blanks, its path, blanks, a version text, a line break, header lines, an
  empty line and the body.  The path has no space in it and is not empty, the request's headers
  are those of the lines (a later line replacing an earlier one with the same name, in key
  order), and the body is the rest of the text, byte for byte.
\<close>

theorem parse_request_accepts_only:
  assumes "parse_http_request s = Returns (Inr r)"
  shows "\<exists>ws1 ws2 vt ls.
    s = HTTP_METHOD_STRINGS ! http_method_value (req_method r) @ ws1 @ req_path r @ ws2 @ vt @ CRLF @
        concat (map print_line ls) @ CRLF @ msg_body r \<and>
    blanks ws1 \<and> blanks ws2 \<and> (\<forall>l \<in> set ls. line_ok l) \<and>
    msg_headers r = entries (map fst ls) \<and> fields_ok r \<and> msg_version r \<noteq> HTTP_INVALID"
  using parse_request_shape_lemma [OF assms] accepted_fields_ok [OF assms] by blast

theorem parse_request_accepts_only_witness:
  "\<exists>ws1 ws2 vt ls.
    ''GET  /a HTTP/2.0'' @ CRLF @ ''A: b'' @ CRLF @ CRLF @ ''x'' =
      ''GET'' @ ws1 @ ''/a'' @ ws2 @ vt @ CRLF @ concat (map print_line ls) @ CRLF @ ''x'' \<and>
    blanks ws1 \<and> blanks ws2 \<and> (\<forall>l \<in> set ls. line_ok l) \<and> [(''A'', ''b'')] = entries (map fst ls)"
proof -
  let ?r = "\<lparr>msg_version = HTTP_2_0, msg_headers = [(''A'', ''b'')], msg_body = ''x'',
    req_method = GET, req_path = ''/a''\<rparr>"
  have "parse_http_request (''GET  /a HTTP/2.0'' @ CRLF @ ''A: b'' @ CRLF @ CRLF @ ''x'') = Returns (Inr ?r)"
    by code_simp
  from parse_request_accepts_only [OF this] show ?thesis
    by (auto simp: HTTP_METHOD_STRINGS_def)
qed

text \<open>
  Parsing normalises: a request that was parsed from any accepted text (extra blanks, odd line
  ends, repeated headers, a lax version text), if it is not of version 1.0, is printed as a text
  that is parsed into the same request again.
\<close>

theorem parse_print_parse:
  assumes "parse_http_request s = Returns (Inr r)" and "msg_version r \<noteq> HTTP_1_0"
  shows "\<exists>t. print_request r = Returns t \<and> parse_http_request t = Returns (Inr r)"
proof -
  from accepted_fields_ok [OF assms(1)] assms(2) have "request_ok r" and v: "msg_version r \<noteq> HTTP_INVALID"
    by (cases "msg_version r"; simp add: request_ok_def)+
  from roundtrip [OF this(1)] print_request_Returns [OF v] show ?thesis by simp
qed

theorem parse_print_parse_witness:
  "\<exists>t. print_request \<lparr>msg_version = HTTP_1_1, msg_headers = [(''A'', ''2'')], msg_body = '''',
      req_method = HEAD, req_path = ''/a''\<rparr> = Returns t \<and>
    parse_http_request t = Returns (Inr \<lparr>msg_version = HTTP_1_1, msg_headers = [(''A'', ''2'')],
      msg_body = '''', req_method = HEAD, req_path = ''/a''\<rparr>)"
proof (rule parse_print_parse)
  show "parse_http_request (''HEAD   /a  HTTP/1.1'' @ CRLF @ ''A: 1'' @ CRLF @ ''A: 2'' @ CRLF @ CRLF) =
    Returns (Inr \<lparr>msg_version = HTTP_1_1, msg_headers = [(''A'', ''2'')], msg_body = '''',
      req_method = HEAD, req_path = ''/a''\<rparr>)"
    by code_simp
qed simp

section \<open>Where parsing fails\<close>

text \<open>
  A connection that sends nothing: on the empty text the recogniser of methods reads
  \<^verbatim>\<open>view.at(0)\<close>, which throws out of range; on a text that consists of a method name only, the
  error message for the missing space reads \<^verbatim>\<open>view[0]\<close> of an empty view, which is undefined.  Neither
  is one of the parser's error values.
\<close>

theorem truncated_requests:
  "parse_http_request '''' = Throws OutOfRange \<and>
   parse_http_request (HTTP_METHOD_STRINGS ! http_method_value m) = Undefined"
proof
  show "parse_http_request '''' = Throws OutOfRange"
    by (simp add: parse_http_request_def parse_request_line_def method_string_to_enum_def head_def
        new_parser_def char_at_def)
  show "parse_http_request (HTTP_METHOD_STRINGS ! http_method_value m) = Undefined"
    using method_recognised [of "new_parser (HTTP_METHOD_STRINGS ! http_method_value m)" m "[]"]
    by (simp add: parse_http_request_def parse_request_line_def new_parser_def expect_two_def
        starts_with_Cons)
qed

text \<open>
  A header line without a space: after any accepted request line and any well-formed header
  lines, a further non-empty line with no space in it makes the parser remove \<^verbatim>\<open>npos\<close> characters
  from a view.  The outcome is undefined, where the tests of the parser expect an error value.
\<close>

theorem header_without_space:
  assumes "parse_request_line (new_parser s) = Returns (Inr r, q)"
    and "view q = concat (map print_header es) @ line @ CRLF @ rest"
    and "\<forall>(k, v) \<in> set es. field_key_ok k \<and> field_value_ok v"
    and "line \<noteq> []" and "field_key_ok line"
  shows "parse_http_request s = Undefined"
proof -
  from assms(5) have no_sp: "SP \<notin> set line" and no_crlf: "\<forall>c \<in> set line. \<not> is_crlf_char c"
    by (auto simp: field_key_ok_def)
  from no_sp have "find_index (\<lambda>c. c = SP) line = None"
    by (auto simp: find_index_None_iff)
  then have "parse_header line = Undefined"
    by (simp add: parse_header_def next_token_view_def)
  with message_headers_loop_unfold [OF assms(4) no_crlf]
  have bad: "message_headers_loop hs (line @ CRLF @ rest) = Undefined" for hs by simp
  have "message_headers_loop hs (concat (map print_header es) @ line @ CRLF @ rest) = Undefined" for hs
    using assms(3)
  proof (induction es arbitrary: hs)
    case (Cons e es)
    then show ?case
      using message_headers_loop_line [of "fst e" "snd e" hs "concat (map print_header es) @ line @ CRLF @ rest"]
      by (cases e) simp
  qed (use bad in simp)
  with assms(1,2) show ?thesis
    by (simp add: parse_http_request_def process_function_def parse_message_headers_def)
qed

text \<open>The text is the one of the test \<^verbatim>\<open>MalformedMessageHeaders\<close>.\<close>

theorem header_without_space_witness:
  "parse_http_request (''GET / HTTP/1.1'' @ CRLF @ ''Content'' @ CRLF @ ''-Type: text/html'' @ CRLF) = Undefined"
proof (rule header_without_space)
  show "parse_request_line (new_parser
      (''GET / HTTP/1.1'' @ CRLF @ ''Content'' @ CRLF @ ''-Type: text/html'' @ CRLF)) =
    Returns (Inr (HTTPRequest GET ''/'' HTTP_1_1),
      \<lparr>str = ''GET / HTTP/1.1'' @ CRLF @ ''Content'' @ CRLF @ ''-Type: text/html'' @ CRLF,
       view = ''Content'' @ CRLF @ ''-Type: text/html'' @ CRLF\<rparr>)"
    by code_simp
  show "view \<lparr>str = ''GET / HTTP/1.1'' @ CRLF @ ''Content'' @ CRLF @ ''-Type: text/html'' @ CRLF,
       view = ''Content'' @ CRLF @ ''-Type: text/html'' @ CRLF\<rparr> =
    concat (map print_header []) @ ''Content'' @ CRLF @ (''-Type: text/html'' @ CRLF)"
    by simp
qed (simp_all add: field_key_ok_def)

end
