(* ===== verification/Filesystem.thy ===== *)
theory Filesystem
  imports Prelude
begin

text \<open>
  The part of \<^verbatim>\<open>std::filesystem\<close> and \<^verbatim>\<open>std::fstream\<close> that the sources use: paths as strings, the
  entries a \<^verbatim>\<open>directory_iterator\<close> enumerates as a tree, file contents as a map from paths.  The walk
  over a directory tree with an explicit stack of directories occurs twice in the sources; it is
  defined here once, and shown to visit the files of the tree, all of them and nothing else, or to throw
  when some directory or entry cannot be read.
\<close>

section \<open>Paths\<close>

abbreviation slash :: char where
  "slash \<equiv> CHR ''/''"

definition path_filename :: "string \<Rightarrow> string" where
  "path_filename p = rev (takeWhile (\<lambda>c. c \<noteq> slash) (rev p))"

text \<open>
  The extension of a file name starts at its last dot; a name that has no dot, or whose only dot
  is its first character, has none.
\<close>

definition path_extension :: "string \<Rightarrow> string" where
  "path_extension p =
     (let f = path_filename p; r = takeWhile (\<lambda>c. c \<noteq> CHR ''.'') (rev f)
      in if f = ''.'' \<or> f = ''..'' \<or> length f \<le> Suc (length r) then '''' else CHR ''.'' # rev r)"

definition parent_path :: "string \<Rightarrow> string" where
  "parent_path p =
     (let r = dropWhile (\<lambda>c. c \<noteq> slash) (rev p)
      in if r = [] then '''' else let d = dropWhile (\<lambda>c. c = slash) r in if d = [] then [slash] else rev d)"

definition path_append :: "string \<Rightarrow> string \<Rightarrow> string" where
  "path_append p q =
     (if q \<noteq> [] \<and> hd q = slash then q
      else if p = [] \<or> last p = slash then p @ q
      else p @ slash # q)"

definition name_ok :: "string \<Rightarrow> bool" where
  "name_ok n \<longleftrightarrow> n \<noteq> [] \<and> slash \<notin> set n \<and> n \<noteq> ''.'' \<and> n \<noteq> ''..''"

definition dir_ok :: "string \<Rightarrow> bool" where
  "dir_ok d \<longleftrightarrow> d \<noteq> [] \<and> last d \<noteq> slash"

lemma path_append_name: "dir_ok d \<Longrightarrow> name_ok n \<Longrightarrow> path_append d n = d @ slash # n"
  by (cases n) (auto simp: path_append_def dir_ok_def name_ok_def)

lemma dir_ok_append: "dir_ok d \<Longrightarrow> name_ok n \<Longrightarrow> dir_ok (path_append d n)"
  by (simp add: path_append_name) (auto simp: dir_ok_def name_ok_def dest: last_in_set)

lemma takeWhile_name:
  "slash \<notin> set n \<Longrightarrow> takeWhile (\<lambda>c. c \<noteq> slash) (rev n @ slash # r) = rev n"
  by (subst takeWhile_append2) auto

lemma dropWhile_name:
  "slash \<notin> set n \<Longrightarrow> dropWhile (\<lambda>c. c \<noteq> slash) (rev n @ slash # r) = slash # r"
  by (subst dropWhile_append2) auto

lemma path_filename_append [simp]:
  "dir_ok d \<Longrightarrow> name_ok n \<Longrightarrow> path_filename (path_append d n) = n"
  by (simp add: path_append_name path_filename_def takeWhile_name name_ok_def)

lemma path_filename_name: "slash \<notin> set n \<Longrightarrow> path_filename n = n"
proof -
  assume "slash \<notin> set n"
  then have "takeWhile (\<lambda>c. c \<noteq> slash) (rev n) = rev n" by (auto simp: takeWhile_eq_all_conv)
  then show ?thesis by (simp only: path_filename_def rev_rev_ident)
qed

lemma parent_path_append [simp]:
  assumes "dir_ok d" and "name_ok n"
  shows "parent_path (path_append d n) = d"
proof -
  from assms(1) have "dropWhile (\<lambda>c. c = slash) (rev d) = rev d"
    by (cases d rule: rev_cases) (auto simp: dir_ok_def)
  with assms show ?thesis
    by (simp add: path_append_name parent_path_def dropWhile_name name_ok_def dir_ok_def)
qed

lemma path_extension_dot:
  "f \<noteq> [] \<Longrightarrow> slash \<notin> set (f @ CHR ''.'' # e) \<Longrightarrow> CHR ''.'' \<notin> set e \<Longrightarrow>
   f @ CHR ''.'' # e \<noteq> ''..'' \<Longrightarrow> path_extension (f @ CHR ''.'' # e) = CHR ''.'' # e"
proof -
  assume f: "f \<noteq> []" and s: "slash \<notin> set (f @ CHR ''.'' # e)" and e: "CHR ''.'' \<notin> set e"
    and n: "f @ CHR ''.'' # e \<noteq> ''..''"
  from e have "takeWhile (\<lambda>c. c \<noteq> CHR ''.'') (rev e @ CHR ''.'' # rev f) = rev e"
    by (subst takeWhile_append2) auto
  moreover from f have "f @ CHR ''.'' # e \<noteq> ''.''"
    by (cases f) auto
  ultimately show ?thesis
    using f n path_filename_name [OF s] by (simp add: path_extension_def Let_def Suc_le_eq)
qed

section \<open>Directory trees\<close>

text \<open>
  An entry for which \<^verbatim>\<open>is_directory\<close>, which follows symbolic links, answers no, yes, or with an exception.
  A directory that cannot be opened has no entries (\<open>None\<close>), and its iterator throws.
\<close>

datatype fs_node =
    FileNode string
  | DirNode string "fs_node list option"
  | ErrorNode string

fun node_ok :: "fs_node \<Rightarrow> bool" where
  "node_ok (FileNode n) \<longleftrightarrow> name_ok n"
| "node_ok (DirNode n None) \<longleftrightarrow> name_ok n"
| "node_ok (DirNode n (Some es)) \<longleftrightarrow> name_ok n \<and> (\<forall>e \<in> set es. node_ok e)"
| "node_ok (ErrorNode n) \<longleftrightarrow> name_ok n"

fun node_readable :: "fs_node \<Rightarrow> bool" where
  "node_readable (FileNode n) \<longleftrightarrow> True"
| "node_readable (DirNode n None) \<longleftrightarrow> False"
| "node_readable (DirNode n (Some es)) \<longleftrightarrow> (\<forall>e \<in> set es. node_readable e)"
| "node_readable (ErrorNode n) \<longleftrightarrow> False"

definition readable :: "fs_node list option \<Rightarrow> bool" where
  "readable tree = (case tree of None \<Rightarrow> False | Some es \<Rightarrow> \<forall>e \<in> set es. node_readable e)"

lemma readable_simps [simp]:
  "readable (Some es) \<longleftrightarrow> (\<forall>e \<in> set es. node_readable e)" "\<not> readable None"
  "node_readable (DirNode n t) \<longleftrightarrow> readable t"
  by (simp_all add: readable_def split: option.split)

text \<open>The files of a tree below a directory, as pairs of their directory and name.\<close>

fun files_below :: "string \<Rightarrow> fs_node \<Rightarrow> (string \<times> string) list" where
  "files_below d (FileNode n) = [(d, n)]"
| "files_below d (DirNode n None) = []"
| "files_below d (DirNode n (Some es)) = concat (map (files_below (path_append d n)) es)"
| "files_below d (ErrorNode n) = []"

definition paths_below :: "string \<Rightarrow> fs_node list \<Rightarrow> string set" where
  "paths_below d es = (\<lambda>(d, n). path_append d n) ` (\<Union>e \<in> set es. set (files_below d e))"

section \<open>The walk\<close>

text \<open>
  \<^verbatim>\<open>std::stack<path> directories {{root}}; while (!directories.empty()) { pop one; for each entry: push
  it if it is a directory, else visit it }\<close>.  The stack holds each directory beside the entries the
  iterator will enumerate in it.
\<close>

fun walk_entries ::
  "(string \<Rightarrow> string \<Rightarrow> 's \<Rightarrow> 's outcome) \<Rightarrow> string \<Rightarrow> fs_node list \<Rightarrow>
   (string \<times> fs_node list option) list \<Rightarrow> 's \<Rightarrow> ((string \<times> fs_node list option) list \<times> 's) outcome" where
  "walk_entries visit d [] dirs s = Returns (dirs, s)"
| "walk_entries visit d (DirNode n t # xs) dirs s =
     walk_entries visit d xs ((path_append d n, t) # dirs) s"
| "walk_entries visit d (FileNode n # xs) dirs s =
     obind (visit d n s) (\<lambda>s'. walk_entries visit d xs dirs s')"
| "walk_entries visit d (ErrorNode n # xs) dirs s = Throws FilesystemError"

definition stack_size :: "(string \<times> fs_node list option) list \<Rightarrow> nat" where
  "stack_size dirs = sum_list (map (\<lambda>(d, t). Suc (size_option (size_list size) t)) dirs)"

lemma walk_entries_size:
  "walk_entries visit d xs dirs s = Returns (dirs', s') \<Longrightarrow>
   stack_size dirs' \<le> stack_size dirs + size_list size xs"
  by (induction visit d xs dirs s arbitrary: dirs' s' rule: walk_entries.induct)
     (fastforce simp: stack_size_def obind_eq_Returns)+

function walk ::
  "(string \<Rightarrow> string \<Rightarrow> 's \<Rightarrow> 's outcome) \<Rightarrow> (string \<times> fs_node list option) list \<Rightarrow> 's \<Rightarrow> 's outcome" where
  "walk visit [] s = Returns s"
| "walk visit ((d, None) # dirs) s = Throws FilesystemError"
| "walk visit ((d, Some es) # dirs) s =
     obind (walk_entries visit d es dirs s) (\<lambda>(dirs', s'). walk visit dirs' s')"
  by pat_completeness auto
termination
proof (relation "measure (\<lambda>(visit, dirs, s). stack_size dirs)", goal_cases)
  case (2 visit d es dirs s x dirs' s')
  then have "stack_size dirs' \<le> stack_size dirs + size_list size es"
    using walk_entries_size by fastforce
  then show ?case by (simp add: stack_size_def)
qed simp

text \<open>The visits of a walk in the order they happen.\<close>

fun visits_entries ::
  "string \<Rightarrow> fs_node list \<Rightarrow> (string \<times> fs_node list option) list \<Rightarrow>
   (string \<times> string) list \<times> (string \<times> fs_node list option) list" where
  "visits_entries d [] dirs = ([], dirs)"
| "visits_entries d (DirNode n t # xs) dirs = visits_entries d xs ((path_append d n, t) # dirs)"
| "visits_entries d (ErrorNode n # xs) dirs = visits_entries d xs dirs"
| "visits_entries d (FileNode n # xs) dirs =
     (case visits_entries d xs dirs of (vs, dirs') \<Rightarrow> ((d, n) # vs, dirs'))"

fun visit_all :: "(string \<Rightarrow> string \<Rightarrow> 's \<Rightarrow> 's outcome) \<Rightarrow> (string \<times> string) list \<Rightarrow> 's \<Rightarrow> 's outcome" where
  "visit_all visit [] s = Returns s"
| "visit_all visit ((d, n) # vs) s = obind (visit d n s) (visit_all visit vs)"

lemma visit_all_append:
  "visit_all visit (vs @ ws) s = obind (visit_all visit vs s) (visit_all visit ws)"
  by (induction visit vs s rule: visit_all.induct) (auto simp: obind_assoc intro!: obind_cong)

lemma walk_entries_visits:
  "\<forall>e \<in> set xs. node_readable e \<Longrightarrow> walk_entries visit d xs dirs s =
     obind (visit_all visit (fst (visits_entries d xs dirs)) s)
       (\<lambda>s'. Returns (snd (visits_entries d xs dirs), s'))"
  by (induction visit d xs dirs s rule: walk_entries.induct)
     (auto simp: obind_assoc split: prod.splits intro!: obind_cong)

fun files_of :: "string \<times> fs_node list option \<Rightarrow> (string \<times> string) set" where
  "files_of (d, None) = {}"
| "files_of (d, Some es) = (\<Union>e \<in> set es. set (files_below d e))"

lemma files_below_dir: "set (files_below d (DirNode n t)) = files_of (path_append d n, t)"
  by (cases t) simp_all

lemma visits_entries_set:
  "set (fst (visits_entries d xs dirs)) \<union> (\<Union>x \<in> set (snd (visits_entries d xs dirs)). files_of x) =
   (\<Union>e \<in> set xs. set (files_below d e)) \<union> (\<Union>x \<in> set dirs. files_of x)"
proof (induction d xs dirs rule: visits_entries.induct)
  case (2 d n t xs dirs)
  show ?case unfolding visits_entries.simps 2 by (simp only: list.set UN_insert files_below_dir Un_ac)
next
  case (4 d n xs dirs)
  obtain vs dirs' where "visits_entries d xs dirs = (vs, dirs')" by (cases "visits_entries d xs dirs")
  with 4 show ?case by simp
qed simp_all

lemma visits_entries_size:
  "stack_size (snd (visits_entries d xs dirs)) \<le> stack_size dirs + size_list size xs"
  by (induction d xs dirs rule: visits_entries.induct)
     (auto simp: stack_size_def split: prod.splits)

lemma visits_entries_readable:
  "\<forall>x \<in> set dirs. readable (snd x) \<Longrightarrow> \<forall>e \<in> set xs. node_readable e \<Longrightarrow>
   \<forall>x \<in> set (snd (visits_entries d xs dirs)). readable (snd x)"
  by (induction d xs dirs rule: visits_entries.induct) (simp_all split: prod.splits)

text \<open>A walk is its visits, in some order; together they are the files of the trees on the stack.\<close>

lemma walk_visits:
  "\<forall>x \<in> set dirs. readable (snd x) \<Longrightarrow> \<exists>vs. (\<forall>(s :: 's). walk visit dirs s = visit_all visit vs s) \<and>
     set vs = (\<Union>x \<in> set dirs. files_of x)"
proof (induction "stack_size dirs" arbitrary: dirs rule: less_induct)
  case less
  show ?case
  proof (cases dirs)
    case Nil
    then show ?thesis by (intro exI [of _ "[]"]) simp
  next
    case (Cons de rest)
    with less.prems obtain d es where de: "de = (d, Some es)" and es: "\<forall>e \<in> set es. node_readable e"
      by (cases de; cases "snd de") auto
    let ?ws = "fst (visits_entries d es rest)" and ?dirs = "snd (visits_entries d es rest)"
    have small: "stack_size ?dirs < stack_size dirs"
      using visits_entries_size [of d es rest] by (simp add: Cons de stack_size_def)
    have "\<forall>x \<in> set ?dirs. readable (snd x)"
      using visits_entries_readable [of rest es d] less.prems es by (simp add: Cons)
    from less.hyps [OF small this] obtain vs where
      vs: "\<And>s :: 's. walk visit ?dirs s = visit_all visit vs s" "set vs = (\<Union>x \<in> set ?dirs. files_of x)" by blast
    have "walk visit dirs s = visit_all visit (?ws @ vs) s" for s
      by (simp only: Cons de walk.simps walk_entries_visits [OF es] visit_all_append obind_assoc obind.simps prod.case vs(1))
    moreover have "set (?ws @ vs) = (\<Union>x \<in> set dirs. files_of x)"
      using visits_entries_set [of d es rest] by (simp add: vs(2) Cons de)
    ultimately show ?thesis by blast
  qed
qed

text \<open>A walk that returns has read everything; one whose visits do not fail returns or throws.\<close>

lemma walk_entries_unreadable:
  assumes "walk_entries visit d xs dirs s = Returns (dirs', s')"
    and "(\<exists>x \<in> set dirs. \<not> readable (snd x)) \<or> (\<exists>e \<in> set xs. \<not> node_readable e)"
  shows "\<exists>x \<in> set dirs'. \<not> readable (snd x)"
  using assms by (induction visit d xs dirs s rule: walk_entries.induct) (auto simp: obind_eq_Returns)

lemma walk_unreadable:
  "\<exists>x \<in> set dirs. \<not> readable (snd x) \<Longrightarrow> walk visit dirs s \<noteq> Returns s'"
proof (induction visit dirs s rule: walk.induct)
  case (3 visit d es dirs s)
  show ?case
  proof (cases "walk_entries visit d es dirs s")
    case (Returns r)
    obtain dirs' t where r: "r = (dirs', t)" by (cases r)
    from walk_entries_unreadable [OF Returns [unfolded r]] 3(2) have "\<exists>x \<in> set dirs'. \<not> readable (snd x)" by auto
    from 3(1) [OF Returns r [symmetric] this] show ?thesis by (simp add: Returns r)
  qed simp_all
qed simp_all

lemma walk_returns_readable: "walk visit [(d, t)] s = Returns s' \<Longrightarrow> readable t"
  using walk_unreadable [of "[(d, t)]" visit s s'] by auto

lemma walk_entries_total:
  assumes visits: "\<And>d n s. \<exists>s'. visit d n s = Returns s'"
  shows "walk_entries visit d xs dirs s = Throws FilesystemError \<or>
    (\<exists>dirs' s'. walk_entries visit d xs dirs s = Returns (dirs', s'))"
proof (induction xs arbitrary: dirs s)
  case (Cons e xs)
  show ?case
  proof (cases e)
    case (FileNode n)
    obtain s' where "visit d n s = Returns s'" using visits by blast
    with Cons.IH [of dirs s'] FileNode show ?thesis by simp
  qed (use Cons.IH in simp_all)
qed simp

lemma walk_total:
  assumes visits: "\<And>d n s. \<exists>s'. visit d n s = Returns s'"
  shows "walk visit dirs s = Throws FilesystemError \<or> (\<exists>s'. walk visit dirs s = Returns s')"
proof (induction "stack_size dirs" arbitrary: dirs s rule: less_induct)
  case less
  show ?case
  proof (cases dirs)
    case (Cons x rest)
    obtain d t where x: "x = (d, t)" by (cases x)
    show ?thesis
    proof (cases t)
      case (Some es)
      from walk_entries_total [of visit d es rest s] visits
      consider "walk_entries visit d es rest s = Throws FilesystemError"
        | dirs' s' where "walk_entries visit d es rest s = Returns (dirs', s')" by blast
      then show ?thesis
      proof cases
        case 2
        from walk_entries_size [OF 2] have "stack_size dirs' < stack_size dirs" by (simp add: stack_size_def Cons x Some)
        from less.hyps [OF this, of s'] 2 show ?thesis by (simp add: Cons x Some)
      qed (simp add: Cons x Some)
    qed (simp add: Cons x)
  qed simp
qed

section \<open>Symbolic links that lead back\<close>

text \<open>
  What a walk finds below a directory when directories are nodes of a graph: an entry is no directory, a
  directory, or a symbolic link to one.  The system follows a number of links on one path and opens paths
  up to a length; beyond, it answers with an error.
\<close>

datatype fs_link = NoDir | SubDir nat | LinkTo nat

type_synonym fs_graph = "nat \<Rightarrow> (string \<times> fs_link) list option"

fun unfolded :: "fs_graph \<Rightarrow> nat \<Rightarrow> nat \<Rightarrow> nat \<Rightarrow> fs_node list option" where
  "unfolded G links 0 i = None"
| "unfolded G links (Suc len) i =
     map_option (map (\<lambda>(n, l). case l of
         NoDir \<Rightarrow> FileNode n
       | SubDir j \<Rightarrow> DirNode n (unfolded G links (len - length n) j)
       | LinkTo j \<Rightarrow> (case links of
           0 \<Rightarrow> ErrorNode n
         | Suc k \<Rightarrow> DirNode n (unfolded G k (len - length n) j)))) (G i)"

definition leads :: "fs_link \<Rightarrow> nat set \<Rightarrow> bool" where
  "leads l S \<longleftrightarrow> (case l of NoDir \<Rightarrow> False | SubDir j \<Rightarrow> j \<in> S | LinkTo j \<Rightarrow> j \<in> S)"

lemma cycle_unreadable:
  assumes cycle: "\<forall>i \<in> S. \<forall>es. G i = Some es \<longrightarrow> (\<exists>(n, l) \<in> set es. leads l S)"
  shows "i \<in> S \<Longrightarrow> \<not> readable (unfolded G links len i)"
proof (induction len arbitrary: links i rule: less_induct)
  case (less len)
  show ?case
  proof (cases len)
    case (Suc k)
    show ?thesis
    proof (cases "G i")
      case (Some es)
      with cycle less.prems obtain n l where e: "(n, l) \<in> set es" "leads l S" by blast
      from less.IH [of "k - length n"] Suc have sub: "\<not> readable (unfolded G m (k - length n) j)" if "j \<in> S" for m j
        using that by simp
      show ?thesis
      proof (cases l)
        case (SubDir j)
        with e sub show ?thesis by (force simp: Suc Some leads_def)
      next
        case (LinkTo j)
        with e sub show ?thesis by (cases links) (force simp: Suc Some leads_def)+
      qed (use e in \<open>simp add: leads_def\<close>)
    qed (simp add: Suc)
  qed simp
qed

section \<open>Components of paths\<close>

fun components :: "string \<Rightarrow> string list" where
  "components [] = [[]]"
| "components (c # cs) =
     (if c = slash then [] # components cs
      else (case components cs of [] \<Rightarrow> [[c]] | d # ds \<Rightarrow> (c # d) # ds))"

lemma components_join:
  "slash \<notin> set n \<Longrightarrow> \<forall>m \<in> set ns. slash \<notin> set m \<Longrightarrow>
   components (n @ concat (map ((#) slash) ns)) = n # ns"
proof (induction ns arbitrary: n)
  case Nil
  then show ?case by (induction n) auto
next
  case (Cons m ns)
  then have "components (m @ concat (map ((#) slash) ns)) = m # ns" by simp
  with Cons.prems(1) show ?case by (induction n) auto
qed

lemma files_below_components:
  "dir_ok d \<Longrightarrow> node_ok e \<Longrightarrow> (d', n) \<in> set (files_below d e) \<Longrightarrow>
   \<exists>ns. d' = d @ concat (map ((#) slash) ns) \<and> (\<forall>m \<in> set ns. name_ok m) \<and> name_ok n"
proof (induction d e rule: files_below.induct)
  case (1 d m)
  then show ?case by (intro exI [of _ "[]"]) simp
next
  case (3 d m es)
  from "3.prems" obtain e where e: "e \<in> set es" "(d', n) \<in> set (files_below (path_append d m) e)" by auto
  from "3.prems" have ok: "dir_ok (path_append d m)" "node_ok e" "name_ok m"
    using e(1) by (auto intro: dir_ok_append)
  from "3.IH" [OF e(1) ok(1,2) e(2)] obtain ns where
    ns: "d' = path_append d m @ concat (map ((#) slash) ns)" "\<forall>m \<in> set ns. name_ok m" "name_ok n" by blast
  with ok(3) "3.prems"(1) show ?case
    by (intro exI [of _ "m # ns"]) (simp add: path_append_name)
qed simp_all

lemma files_below_ok_dir:
  "dir_ok d \<Longrightarrow> node_ok e \<Longrightarrow> (d', n) \<in> set (files_below d e) \<Longrightarrow> dir_ok d'"
  by (induction d e rule: files_below.induct) (auto intro: dir_ok_append)

lemma paths_below_components:
  assumes "dir_ok root" and "\<forall>e \<in> set es. node_ok e" and "root @ p \<in> paths_below root es"
  shows "\<exists>ns. components p = [] # ns \<and> ns \<noteq> [] \<and> (\<forall>n \<in> set ns. name_ok n)"
proof -
  from assms obtain e d n where e: "e \<in> set es" "(d, n) \<in> set (files_below root e)" "root @ p = path_append d n"
    by (auto simp: paths_below_def)
  with assms files_below_components obtain ns where
    ns: "d = root @ concat (map ((#) slash) ns)" "\<forall>m \<in> set ns. name_ok m" "name_ok n" by blast
  from e assms(1,2) have "dir_ok d" using files_below_ok_dir by blast
  with ns e(3) have "p = concat (map ((#) slash) (ns @ [n]))" by (simp add: path_append_name)
  with components_join [of "[]" "ns @ [n]"] ns show ?thesis
    by (intro exI [of _ "ns @ [n]"]) (auto simp: name_ok_def)
qed

end
