(* ===== verification/ContentCoding.thy ===== *)
theory ContentCoding
  imports Filesystem
begin

text \<open>
  \<^verbatim>\<open>src/simpleserv/utility/content_coding.cpp\<close>: reading a file, compressing it with Brotli, writing
  the result beside it, and doing so for the text files of a directory tree.

  The compressor is the library's \<^verbatim>\<open>BrotliEncoderCompress\<close>, a parameter: \<open>compress input buffer\<close> is
  \<open>None\<close> where the call returns \<^verbatim>\<open>BROTLI_FALSE\<close>, else the buffer after the call and the
  \<^verbatim>\<open>*encoded_size\<close> it reports.  The facts rely on the documented behaviour that the call writes into
  the buffer it was given, of the size it was given (\<open>compressor_ok\<close>).  The files of the machine are
  a map from paths to contents; \<open>writable\<close> tells whether an \<^verbatim>\<open>ofstream\<close> on a path opens.
\<close>

type_synonym disk = "string \<rightharpoonup> string"

type_synonym compressor = "string \<Rightarrow> string \<Rightarrow> (string \<times> nat) option"

definition compressor_ok :: "compressor \<Rightarrow> bool" where
  "compressor_ok compress \<longleftrightarrow>
     (\<forall>input buffer buffer' n. compress input buffer = Some (buffer', n) \<longrightarrow>
        length buffer' = length buffer \<and> n \<le> length buffer)"

section \<open>The functions of the source\<close>

definition write_to_file :: "(string \<Rightarrow> bool) \<Rightarrow> string \<Rightarrow> string \<Rightarrow> disk \<Rightarrow> bool \<times> disk" where
  "write_to_file writable output_path output_data files =
     (if \<not> writable output_path then (False, files) else (True, files(output_path \<mapsto> output_data)))"

text \<open>
  \<^verbatim>\<open>Brotli::encode\<close> returns the path it wrote to, the empty path when it wrote nothing.
  \<^verbatim>\<open>file_size\<close> throws when the file is not there.
\<close>

definition brotli_encode ::
  "compressor \<Rightarrow> (string \<Rightarrow> bool) \<Rightarrow> string \<Rightarrow> disk \<Rightarrow> (string \<times> disk) outcome" where
  "brotli_encode compress writable p files =
     (case files p of
        None \<Rightarrow> Throws FilesystemError
      | Some input \<Rightarrow>
          (case compress input (replicate (length input) (CHR 0x00)) of
             None \<Rightarrow> Returns ('''', files)
           | Some (output_data, output_size) \<Rightarrow>
               (case write_to_file writable (p @ ''.br'') output_data files of
                  (True, files') \<Rightarrow> Returns (p @ ''.br'', files')
                | (False, files') \<Rightarrow> Returns ('''', files'))))"

definition encode_visit ::
  "compressor \<Rightarrow> (string \<Rightarrow> bool) \<Rightarrow> string \<Rightarrow> string \<Rightarrow> disk \<Rightarrow> disk outcome" where
  "encode_visit compress writable current_directory filename files =
     (if path_extension (path_append current_directory filename) \<in> {''.html'', ''.css'', ''.js''} then
        obind (brotli_encode compress writable (path_append current_directory filename) files)
          (\<lambda>(_, files'). Returns files')
      else Returns files)"

definition encode_directory ::
  "compressor \<Rightarrow> (string \<Rightarrow> bool) \<Rightarrow> string \<Rightarrow> fs_node list option \<Rightarrow> disk \<Rightarrow> disk outcome" where
  "encode_directory compress writable p tree files =
     walk (encode_visit compress writable) [(p, tree)] files"

section \<open>Facts\<close>

lemma brotli_encode_cases:
  assumes "brotli_encode compress writable p files = Returns (out, files')"
  shows "(out = '''' \<and> files' = files) \<or>
    (\<exists>input output_data n. files p = Some input \<and>
       compress input (replicate (length input) (CHR 0x00)) = Some (output_data, n) \<and>
       writable (p @ ''.br'') \<and> out = p @ ''.br'' \<and> files' = files(p @ ''.br'' \<mapsto> output_data))"
  using assms
  by (auto simp: brotli_encode_def write_to_file_def split: option.splits prod.splits if_splits)

lemma brotli_encode_frame:
  "brotli_encode compress writable p files = Returns (out, files') \<Longrightarrow> q \<noteq> p @ ''.br'' \<Longrightarrow> files' q = files q"
  by (drule brotli_encode_cases) auto

lemma brotli_encode_defined:
  "p \<in> dom files \<Longrightarrow> \<exists>out files'. brotli_encode compress writable p files = Returns (out, files')"
  by (auto simp: brotli_encode_def write_to_file_def split: option.splits prod.splits if_splits)

lemma brotli_encode_dom:
  "brotli_encode compress writable p files = Returns (out, files') \<Longrightarrow> dom files \<subseteq> dom files'"
  by (drule brotli_encode_cases) auto

text \<open>
  What \<^verbatim>\<open>Brotli::encode\<close> writes.  The whole output vector goes to the file, not the part the
  compressor reported: the file beside the input has the size of the input, whatever the reported
  size \<open>n\<close> is, so that it starts with the compressed stream and equals it only where the
  compressor saved nothing.
\<close>

theorem encoded_file_not_truncated:
  assumes "compressor_ok compress" and "files p = Some input"
    and "compress input (replicate (length input) (CHR 0x00)) = Some (buffer, n)"
    and "writable (p @ ''.br'')"
  shows "\<exists>files'. brotli_encode compress writable p files = Returns (p @ ''.br'', files') \<and>
    files' = files(p @ ''.br'' \<mapsto> buffer) \<and> length buffer = length input \<and>
    (the (files' (p @ ''.br'')) = take n buffer \<longleftrightarrow> n = length input)"
proof -
  from assms(1,3) have len: "length buffer = length input" and n: "n \<le> length input"
    unfolding compressor_ok_def by fastforce+
  moreover have "buffer = take n buffer \<longleftrightarrow> n = length input"
    using len n by (metis length_take min.absorb2 take_all_iff order_refl)
  ultimately show ?thesis
    using assms by (simp add: brotli_encode_def write_to_file_def)
qed

text \<open>A compressor for the witness: it drops repeated characters, filling the rest of the buffer as it was.\<close>

definition dedup_compressor :: compressor where
  "dedup_compressor input buffer =
     (let c = remdups_adj input
      in if length c \<le> length buffer then Some (c @ drop (length c) buffer, length c) else None)"

lemma dedup_compressor_ok: "compressor_ok dedup_compressor"
  by (auto simp: compressor_ok_def dedup_compressor_def Let_def split: if_splits)

theorem encoded_file_not_truncated_witness:
  "\<exists>files'. brotli_encode dedup_compressor (\<lambda>_. True) ''a.js'' [''a.js'' \<mapsto> ''xxxy''] = Returns (''a.js.br'', files') \<and>
     the (files' ''a.js.br'') = ''xy'' @ [CHR 0x00, CHR 0x00] \<and> the (files' ''a.js.br'') \<noteq> ''xy''"
proof -
  have "dedup_compressor ''xxxy'' (replicate (length ''xxxy'') (CHR 0x00)) =
      Some (''xy'' @ [CHR 0x00, CHR 0x00], 2)"
    by (simp add: dedup_compressor_def)
  from encoded_file_not_truncated [OF dedup_compressor_ok, of "[''a.js'' \<mapsto> ''xxxy'']" "''a.js''",
      OF _ this, of "\<lambda>_. True"]
  show ?thesis by auto
qed

text \<open>Encoding a directory leaves every file as it was that is not the companion of a text file.\<close>

lemma path_extension_br: "path_extension (p @ ''.br'') \<notin> {''.html'', ''.css'', ''.js''}"
proof -
  have "takeWhile (\<lambda>c. c \<noteq> CHR ''.'') (rev (path_filename (p @ ''.br''))) = ''rb''"
    by (simp add: path_filename_def)
  then show ?thesis by (auto simp: path_extension_def Let_def split: if_splits)
qed

lemma encode_visit_frame:
  assumes "encode_visit compress writable d n files = Returns files'" and "files q = Some c"
    and "\<forall>p. q \<noteq> p @ ''.br''"
  shows "files' q = Some c"
  using assms by (auto simp: encode_visit_def obind_eq_Returns brotli_encode_frame split: if_splits)

lemma encode_directory_frame:
  assumes "encode_directory compress writable d tree files = Returns files'"
    and "files q = Some c" and "\<forall>p. q \<noteq> p @ ''.br''"
  shows "files' q = Some c"
proof -
  from assms(1) have "readable tree" unfolding encode_directory_def by (rule walk_returns_readable)
  then obtain vs where vs: "\<And>s. walk (encode_visit compress writable) [(d, tree)] s =
      visit_all (encode_visit compress writable) vs s"
    using walk_visits [of "[(d, tree)]" "encode_visit compress writable"] by auto
  have "visit_all (encode_visit compress writable) vs s = Returns s' \<Longrightarrow> s q = Some c \<Longrightarrow> s' q = Some c" for s s'
    using assms(3)
    by (induction "encode_visit compress writable" vs s arbitrary: s' rule: visit_all.induct)
       (auto simp: obind_eq_Returns dest: encode_visit_frame)
  with assms(1,2) show ?thesis unfolding encode_directory_def vs by blast
qed

end
