(* ===== verification/FileFetcher.thy ===== *)
theory FileFetcher
  imports Prelude
begin

text \<open>
  The class templates \<^verbatim>\<open>FileFetcher\<close> and \<^verbatim>\<open>CacheFileFetcher\<close> of
  \<^verbatim>\<open>include/simpleserv/utility/file_manager.hpp\<close> and \<^verbatim>\<open>src/simpleserv/utility/file_manager.cpp\<close>: a cache
  over any fetcher.  The interface of a fetcher is the locale \<open>file_fetcher\<close>; the facts about the
  cache are proved there, and hold of the disk fetcher through the interpretation in \<open>FileManager\<close>.
\<close>

section \<open>The functions of the source\<close>

record 't cache_entry =
  ce_filename :: string
  ce_value :: 't

definition create_file_cache_entry :: "string \<Rightarrow> 't \<Rightarrow> 't cache_entry" where
  "create_file_cache_entry filename data = \<lparr>ce_filename = filename, ce_value = data\<rparr>"

definition from_file_cache_entry :: "'t cache_entry \<Rightarrow> 't" where
  "from_file_cache_entry entry = ce_value entry"

type_synonym 't file_cache = "string \<rightharpoonup> 't cache_entry"

text \<open>
  \<^verbatim>\<open>CacheFileFetcher::get_file\<close> over any fetcher.  An entry is never removed and never refreshed.
\<close>

definition cache_get_file ::
  "(string \<Rightarrow> 'e + 't) \<Rightarrow> 't file_cache \<Rightarrow> string \<Rightarrow> ('e + 't) \<times> 't file_cache" where
  "cache_get_file fetch cache full_path =
     (case cache full_path of
        None \<Rightarrow>
          (case fetch full_path of
             Inl e \<Rightarrow> (Inl e, cache)
           | Inr v \<Rightarrow>
               let entry = create_file_cache_entry full_path v
               in (Inr (from_file_cache_entry entry), cache(full_path \<mapsto> entry)))
      | Some entry \<Rightarrow> (Inr (from_file_cache_entry entry), cache))"

section \<open>Runs of the cache\<close>

text \<open>
  A sequence of requests: each is the state of the world the fetcher sees at that time (the disk, the
  descriptors) and the path asked for.
\<close>

fun cache_run ::
  "('w \<Rightarrow> string \<Rightarrow> 'e + 't) \<Rightarrow> ('w \<times> string) list \<Rightarrow> 't file_cache \<Rightarrow> ('e + 't) list \<times> 't file_cache" where
  "cache_run fetch [] cache = ([], cache)"
| "cache_run fetch ((w, p) # requests) cache =
     (let (r, cache') = cache_get_file (fetch w) cache p;
          (rs, cache'') = cache_run fetch requests cache'
      in (r # rs, cache''))"

lemma cache_get_file_hit:
  "cache p = Some e \<Longrightarrow> cache_get_file fetch cache p = (Inr (ce_value e), cache)"
  by (simp add: cache_get_file_def from_file_cache_entry_def)

lemma cache_get_file_miss:
  "cache p = None \<Longrightarrow> cache_get_file fetch cache p =
     (fetch p, case fetch p of Inl _ \<Rightarrow> cache | Inr v \<Rightarrow> cache(p \<mapsto> create_file_cache_entry p v))"
  by (simp add: cache_get_file_def from_file_cache_entry_def create_file_cache_entry_def split: sum.splits)

lemma cache_run_length: "length (fst (cache_run fetch requests cache)) = length requests"
  by (induction fetch requests cache rule: cache_run.induct) (auto split: prod.splits)

lemma cache_run_append:
  "cache_run fetch (rs @ rs') cache =
     (let (a, cache') = cache_run fetch rs cache; (b, cache'') = cache_run fetch rs' cache' in (a @ b, cache''))"
  by (induction fetch rs cache rule: cache_run.induct) (auto split: prod.splits)

text \<open>
  What the cache promises: the answer to a request is the first successful answer the fetcher gave for
  that path in this or an earlier request, and the fetcher's present error when it gave none.
\<close>

locale file_fetcher =
  fixes fetch :: "'w \<Rightarrow> string \<Rightarrow> 'e + 't"
    and present :: "'w \<Rightarrow> string \<Rightarrow> bool"
  assumes fetch_present: "present w p \<Longrightarrow> \<exists>v. fetch w p = Inr v"
    and fetch_absent: "\<not> present w p \<Longrightarrow> \<exists>e. fetch w p = Inl e"
begin

lemma fetch_cases:
  obtains (found) v where "present w p" "fetch w p = Inr v"
  | (missing) e where "\<not> present w p" "fetch w p = Inl e"
  using fetch_present [of w p] fetch_absent [of w p] by blast

lemma cache_after:
  assumes "cache_get_file (fetch w) cache q = (a, cache')"
  shows "cache' p = (if p = q \<and> cache p = None \<and> present w p
    then (case fetch w p of Inl _ \<Rightarrow> None | Inr v \<Rightarrow> Some (create_file_cache_entry p v)) else cache p)"
proof (cases w q rule: fetch_cases)
  case (found v)
  show ?thesis using assms
    by (cases "cache q") (auto simp add: cache_get_file_hit cache_get_file_miss found)
next
  case (missing e)
  show ?thesis using assms
    by (cases "cache q") (auto simp add: cache_get_file_hit cache_get_file_miss missing)
qed

lemma answer_nth:
  "i < length requests \<Longrightarrow> requests ! i = (w, p) \<Longrightarrow>
   fst (cache_run fetch requests cache) ! i =
     (case cache p of Some e \<Rightarrow> Inr (ce_value e)
      | None \<Rightarrow> (case find (\<lambda>(w', q). q = p \<and> present w' p) (take i requests) of
                  Some (w', q) \<Rightarrow> fetch w' p | None \<Rightarrow> fetch w p))"
proof (induction requests arbitrary: i cache)
  case (Cons r requests)
  obtain w0 p0 where [simp]: "r = (w0, p0)" by (cases r)
  obtain a cache' where get: "cache_get_file (fetch w0) cache p0 = (a, cache')" by fastforce
  have run: "fst (cache_run fetch (r # requests) cache) = a # fst (cache_run fetch requests cache')"
    by (simp add: get split: prod.splits)
  show ?case
  proof (cases i)
    case 0
    with Cons.prems show ?thesis unfolding run using get
      by (cases "cache p0") (auto simp: cache_get_file_hit cache_get_file_miss)
  next
    case (Suc j)
    have IH: "fst (cache_run fetch requests cache') ! j =
      (case cache' p of Some e \<Rightarrow> Inr (ce_value e)
       | None \<Rightarrow> (case find (\<lambda>(w', q). q = p \<and> present w' p) (take j requests) of
                   Some (w', q) \<Rightarrow> fetch w' p | None \<Rightarrow> fetch w p))"
      using Cons.prems Suc by (intro Cons.IH) auto
    show ?thesis
    proof (cases w0 p rule: fetch_cases)
      case (found v)
      with IH cache_after [OF get, of p] Suc show ?thesis unfolding run
        by (cases "cache p"; cases "p = p0") (auto simp: create_file_cache_entry_def)
    next
      case (missing e)
      with IH cache_after [OF get, of p] Suc show ?thesis unfolding run
        by (cases "cache p") auto
    qed
  qed
qed simp

lemma run_dom:
  "dom (snd (cache_run fetch requests cache)) = dom cache \<union> {p. \<exists>(w, q) \<in> set requests. q = p \<and> present w p}"
proof (induction requests arbitrary: cache)
  case (Cons r requests)
  obtain w0 p0 where [simp]: "r = (w0, p0)" by (cases r)
  obtain a cache' where get: "cache_get_file (fetch w0) cache p0 = (a, cache')" by fastforce
  have "snd (cache_run fetch (r # requests) cache) = snd (cache_run fetch requests cache')"
    by (simp add: get split: prod.splits)
  moreover have "dom cache' = dom cache \<union> (if present w0 p0 then {p0} else {})"
    using fetch_present [of w0 p0] by (auto simp: cache_after [OF get] dom_def)
  ultimately show ?case using Cons.IH [of cache'] by auto
qed simp

lemma steady_world:
  "fst (cache_run fetch (map (Pair w) ps) Map.empty) = map (fetch w) ps"
proof (rule nth_equalityI)
  fix i assume "i < length (fst (cache_run fetch (map (Pair w) ps) Map.empty))"
  then have i: "i < length ps" by (simp add: cache_run_length)
  have "find (\<lambda>(w', q). q = ps ! i \<and> present w' (ps ! i)) (take i (map (Pair w) ps)) = Some (w', q) \<Longrightarrow> w' = w" for w' q
    by (auto simp: find_Some_iff)
  with i show "fst (cache_run fetch (map (Pair w) ps) Map.empty) ! i = map (fetch w) ps ! i"
    by (auto simp: answer_nth [of _ _ w "ps ! i"] split: option.splits)
qed (simp add: cache_run_length)

end

end
