(* ===== verification/FileManager.thy ===== *)
theory FileManager
  imports ContentCoding FileFetcher
begin

text \<open>
  \<^verbatim>\<open>include/simpleserv/utility/file_manager.hpp\<close> and \<^verbatim>\<open>src/simpleserv/utility/file_manager.cpp\<close>: file
  types and encodings, the descriptors of the files below the web directory and their encoded
  companions, reading a file through its descriptor, and the cache in front of it.  The log lines
  are in \<open>Logging\<close>.
\<close>

section \<open>Types and encodings\<close>

datatype file_type =
    TEXT_HTML | TEXT_CSS | TEXT_JS | TEXT_PLAIN | IMAGE_PNG | IMAGE_SVG
  | FONT_TTF | FONT_WOFF | FONT_WOFF2

datatype file_encoding = NONE | BROTLI | DEFLATE | GZIP

definition file_type_map :: "file_type \<rightharpoonup> string" where
  "file_type_map = map_of
     [(TEXT_HTML, ''text/html''), (TEXT_CSS, ''text/css''), (TEXT_JS, ''text/javascript''),
      (TEXT_PLAIN, ''text/plain''), (IMAGE_PNG, ''image/png''), (IMAGE_SVG, ''image/svg+xml''),
      (FONT_TTF, ''font/ttf''), (FONT_WOFF, ''font/woff''), (FONT_WOFF2, ''font/woff2'')]"

definition extension_map :: "string \<rightharpoonup> file_type" where
  "extension_map = map_of
     [(''.html'', TEXT_HTML), (''.css'', TEXT_CSS), (''.js'', TEXT_JS), (''.png'', IMAGE_PNG),
      (''.svg'', IMAGE_SVG), (''.ttf'', FONT_TTF), (''.woff'', FONT_WOFF), (''.woff2'', FONT_WOFF2)]"

definition file_encoding_map :: "file_encoding \<rightharpoonup> string" where
  "file_encoding_map = map_of
     [(NONE, ''''), (BROTLI, ''br''), (DEFLATE, ''deflate''), (GZIP, ''gzip'')]"

definition encode_filetype :: "string \<Rightarrow> file_type" where
  "encode_filetype filename =
     (case extension_map (path_extension filename) of Some t \<Rightarrow> t | None \<Rightarrow> TEXT_PLAIN)"

definition decode_filetype :: "file_type \<Rightarrow> string" where
  "decode_filetype filetype = (case file_type_map filetype of Some s \<Rightarrow> s | None \<Rightarrow> ''text/plain'')"

definition decode_file_encoding :: "file_encoding \<Rightarrow> string" where
  "decode_file_encoding file_encoding =
     (case file_encoding_map file_encoding of Some s \<Rightarrow> s | None \<Rightarrow> '''')"

definition is_extension :: "string \<Rightarrow> string \<Rightarrow> bool" where
  "is_extension s extension =
     (let len = length extension
      in if length s < len then False else take len (drop (length s - len) s) = extension)"

definition supported_extensions :: "string list" where
  "supported_extensions =
     [''.html'', ''.js'', ''.css'', ''.png'', ''.jpg'', ''.svg'', ''.ttf'', ''.woff'', ''.woff2'', ''.ico'']"

definition is_supported_extension :: "string \<Rightarrow> bool" where
  "is_supported_extension s \<longleftrightarrow> list_ex (\<lambda>extension. is_extension s extension) supported_extensions"

section \<open>Descriptors\<close>

record file_descriptor =
  fd_filename :: string
  fd_filetype :: file_type
  fd_paths :: "file_encoding \<rightharpoonup> string"

record http_file_data =
  data_filetype :: file_type
  data_encoding :: file_encoding
  data_content :: string

type_synonym descriptors = "string \<rightharpoonup> file_descriptor"

datatype file_manager_exception = FileManagerException string

definition FileManagerNotFoundException :: "string \<Rightarrow> file_manager_exception" where
  "FileManagerNotFoundException p = FileManagerException (''Could not find the following file: '' @ p)"

text \<open>
  The walk of \<^verbatim>\<open>construct_file_descriptors\<close>; it throws when a directory cannot be iterated or the kind of an
  entry not be found out.
\<close>

definition new_descriptor :: "string \<Rightarrow> string \<Rightarrow> file_descriptor" where
  "new_descriptor filename p =
     \<lparr>fd_filename = filename, fd_filetype = encode_filetype filename, fd_paths = [NONE \<mapsto> p]\<rparr>"

definition construct_visit :: "string \<Rightarrow> string \<Rightarrow> descriptors \<Rightarrow> descriptors outcome" where
  "construct_visit dir_path filename fds =
     Returns (fds(path_append dir_path filename \<mapsto> new_descriptor filename (path_append dir_path filename)))"

definition construct_file_descriptors ::
  "string \<Rightarrow> fs_node list option \<Rightarrow> descriptors \<Rightarrow> descriptors outcome" where
  "construct_file_descriptors p tree fds =
     walk construct_visit [(p, tree)] fds"

text \<open>
  \<^verbatim>\<open>generate_encoded_files\<close> iterates over the descriptors, an unordered map: \<open>order\<close> lists its keys in
  the order of the iteration.
\<close>

definition is_text :: "file_descriptor \<Rightarrow> bool" where
  "is_text fd \<longleftrightarrow>
     fd_filetype fd = TEXT_HTML \<or> fd_filetype fd = TEXT_CSS \<or> fd_filetype fd = TEXT_JS"

fun generate_encoded_files ::
  "compressor \<Rightarrow> (string \<Rightarrow> bool) \<Rightarrow> string list \<Rightarrow> disk \<Rightarrow> descriptors \<Rightarrow> (disk \<times> descriptors) outcome" where
  "generate_encoded_files compress writable [] files fds = Returns (files, fds)"
| "generate_encoded_files compress writable (p # order) files fds =
     (case fds p of
        None \<Rightarrow> generate_encoded_files compress writable order files fds
      | Some fd \<Rightarrow>
          if is_text fd then
            obind (brotli_encode compress writable (path_append (parent_path p) (fd_filename fd)) files)
              (\<lambda>(output_path, files').
                generate_encoded_files compress writable order files'
                  (if output_path \<noteq> '''' then
                     fds(p \<mapsto> fd\<lparr>fd_paths := (fd_paths fd)(BROTLI \<mapsto> output_path)\<rparr>)
                   else fds))
          else generate_encoded_files compress writable order files fds)"

section \<open>Fetching\<close>

text \<open>
  \<^verbatim>\<open>DiskFileFetcher::get_file\<close>.  \<^verbatim>\<open>file_paths[NONE]\<close> of the copied descriptor is the empty path when
  there is no such entry; a file that does not open reads as the empty text.
\<close>

definition read_file :: "disk \<Rightarrow> string \<Rightarrow> string" where
  "read_file files p = (case files p of None \<Rightarrow> '''' | Some content \<Rightarrow> content)"

definition disk_get_file ::
  "disk \<Rightarrow> descriptors \<Rightarrow> string \<Rightarrow> file_manager_exception + http_file_data" where
  "disk_get_file files fds full_path =
     (case fds full_path of
        None \<Rightarrow> Inl (FileManagerException (''File not found: '' @ full_path))
      | Some fd \<Rightarrow>
          let (encoding, actual_path) =
            (case fd_paths fd BROTLI of
               Some p \<Rightarrow> (BROTLI, p)
             | None \<Rightarrow> (NONE, case fd_paths fd NONE of Some p \<Rightarrow> p | None \<Rightarrow> ''''))
          in Inr \<lparr>data_filetype = fd_filetype fd, data_encoding = encoding,
                  data_content = read_file files actual_path\<rparr>)"

section \<open>The class FileManager\<close>

text \<open>
  \<^verbatim>\<open>FileManager\<close> owns a cache over a disk fetcher: the descriptors are the fetcher's, the entries the
  cache's.  Its methods pass on to the two; \<^verbatim>\<open>get_file_headers\<close> is declared and nowhere defined.
\<close>

record file_manager =
  fm_descriptors :: descriptors
  fm_cache :: "http_file_data file_cache"

definition new_file_manager :: file_manager where
  "new_file_manager = \<lparr>fm_descriptors = Map.empty, fm_cache = Map.empty\<rparr>"

definition fm_construct_file_descriptors ::
  "string \<Rightarrow> fs_node list option \<Rightarrow> file_manager \<Rightarrow> file_manager outcome" where
  "fm_construct_file_descriptors p tree fm =
     obind (construct_file_descriptors p tree (fm_descriptors fm)) (\<lambda>fds. Returns (fm\<lparr>fm_descriptors := fds\<rparr>))"

definition fm_generate_encoded_files ::
  "compressor \<Rightarrow> (string \<Rightarrow> bool) \<Rightarrow> string list \<Rightarrow> disk \<Rightarrow> file_manager \<Rightarrow> (disk \<times> file_manager) outcome" where
  "fm_generate_encoded_files compress writable order files fm =
     obind (generate_encoded_files compress writable order files (fm_descriptors fm))
       (\<lambda>(files', fds). Returns (files', fm\<lparr>fm_descriptors := fds\<rparr>))"

definition get_file ::
  "disk \<Rightarrow> file_manager \<Rightarrow> string \<Rightarrow> (file_manager_exception + http_file_data) \<times> file_manager" where
  "get_file files fm full_path =
     (let (r, cache) = cache_get_file (disk_get_file files (fm_descriptors fm)) (fm_cache fm) full_path
      in (r, fm\<lparr>fm_cache := cache\<rparr>))"

definition get_file_in ::
  "disk \<Rightarrow> file_manager \<Rightarrow> string \<Rightarrow> string \<Rightarrow> (file_manager_exception + http_file_data) \<times> file_manager" where
  "get_file_in files fm p filename = get_file files fm (p @ filename)"

section \<open>Facts: types and descriptors\<close>

lemma is_extension_iff: "is_extension s e \<longleftrightarrow> (\<exists>f. s = f @ e)"
proof
  assume "is_extension s e"
  then have "s = take (length s - length e) s @ e"
    by (auto simp: is_extension_def Let_def split: if_splits)
       (metis append_take_drop_id diff_diff_cancel length_drop not_less take_all_iff order_refl)
  then show "\<exists>f. s = f @ e" ..
qed (auto simp: is_extension_def)

lemma decode_filetype_total: "file_type_map t = Some (decode_filetype t)"
  by (cases t) (simp_all add: file_type_map_def decode_filetype_def)

lemma decode_encoding_total: "file_encoding_map e = Some (decode_file_encoding e)"
  by (cases e) (simp_all add: file_encoding_map_def decode_file_encoding_def)

lemma path_extension_append [simp]:
  "dir_ok d \<Longrightarrow> name_ok n \<Longrightarrow> path_extension (path_append d n) = path_extension n"
proof -
  assume "dir_ok d" and n: "name_ok n"
  then have "path_filename (path_append d n) = path_filename n"
    by (simp add: path_filename_name name_ok_def)
  then show ?thesis by (simp add: path_extension_def)
qed

lemma is_text_extension:
  "encode_filetype n = TEXT_HTML \<or> encode_filetype n = TEXT_CSS \<or> encode_filetype n = TEXT_JS \<longleftrightarrow>
   path_extension n \<in> {''.html'', ''.css'', ''.js''}"
  by (auto simp: encode_filetype_def extension_map_def split: if_splits)

text \<open>Descriptors as the walk makes them: each stands under the path of its own file.\<close>

definition descriptors_ok :: "descriptors \<Rightarrow> bool" where
  "descriptors_ok fds \<longleftrightarrow>
     (\<forall>p fd. fds p = Some fd \<longrightarrow>
        (\<exists>d n. dir_ok d \<and> name_ok n \<and> p = path_append d n \<and> fd_filename fd = n \<and>
           fd_filetype fd = encode_filetype n \<and> fd_paths fd NONE = Some p))"

lemma descriptors_okI:
  assumes "\<And>p fd. fds p = Some fd \<Longrightarrow>
    fd = new_descriptor (path_filename p) p \<and> (\<exists>d n. dir_ok d \<and> name_ok n \<and> p = path_append d n)"
  shows "descriptors_ok fds"
  unfolding descriptors_ok_def
proof (intro allI impI)
  fix p fd assume "fds p = Some fd"
  with assms obtain d n where "fd = new_descriptor (path_filename p) p" "dir_ok d" "name_ok n" "p = path_append d n"
    by blast
  then show "\<exists>d n. dir_ok d \<and> name_ok n \<and> p = path_append d n \<and> fd_filename fd = n \<and>
      fd_filetype fd = encode_filetype n \<and> fd_paths fd NONE = Some p"
    by (intro exI [of _ d] exI [of _ n]) (simp add: new_descriptor_def)
qed

lemma files_below_ok:
  "dir_ok d \<Longrightarrow> node_ok e \<Longrightarrow> (d', n) \<in> set (files_below d e) \<Longrightarrow> dir_ok d' \<and> name_ok n"
proof (induction d e rule: files_below.induct)
  case (3 d m es)
  from "3.prems" obtain e where e: "e \<in> set es" "(d', n) \<in> set (files_below (path_append d m) e)" by auto
  from "3.prems" have "dir_ok (path_append d m)" "node_ok e"
    using e(1) by (auto intro: dir_ok_append)
  with "3.IH" [OF e(1)] e(2) show ?case by simp
qed simp_all

lemma construct_visits:
  "visit_all construct_visit vs fds = Returns
     (\<lambda>p. if p \<in> (\<lambda>(d, n). path_append d n) ` set vs then
            Some (let (d, n) = last (filter (\<lambda>(d, n). path_append d n = p) vs) in new_descriptor n p)
          else fds p)"
proof (induction vs arbitrary: fds)
  case (Cons v vs)
  obtain d n where [simp]: "v = (d, n)" by (cases v)
  have "filter (\<lambda>(d, n). path_append d n = p) vs = [] \<longleftrightarrow> p \<notin> (\<lambda>(d, n). path_append d n) ` set vs" for p
    by (auto simp: filter_empty_conv)
  with Cons show ?case
    by (auto simp: construct_visit_def fun_eq_iff split: if_splits)
qed simp

lemma construct_descriptors_eq:
  assumes root: "dir_ok root" and tree: "\<forall>e \<in> set es. node_ok e" and "readable (Some es)"
  shows "construct_file_descriptors root (Some es) fds = Returns
    (\<lambda>p. if p \<in> paths_below root es then Some (new_descriptor (path_filename p) p) else fds p)"
proof -
  obtain vs where vs: "\<And>s. walk construct_visit [(root, Some es)] s = visit_all construct_visit vs s"
    "set vs = (\<Union>e \<in> set es. set (files_below root e))"
    using walk_visits [of "[(root, Some es)]" construct_visit] assms(3) by auto
  have ok: "(d, n) \<in> set vs \<Longrightarrow> dir_ok d \<and> name_ok n" for d n
    using vs(2) files_below_ok [OF root] tree by blast
  have "(let (d, n) = last (filter (\<lambda>(d, n). path_append d n = p) vs) in new_descriptor n p) =
      new_descriptor (path_filename p) p" if "p \<in> (\<lambda>(d, n). path_append d n) ` set vs" for p
  proof -
    let ?ws = "filter (\<lambda>(d, n). path_append d n = p) vs"
    from that have "?ws \<noteq> []" by (auto simp: filter_empty_conv)
    then have "last ?ws \<in> set ?ws" by (rule last_in_set)
    then obtain d n where dn: "last ?ws = (d, n)" "(d, n) \<in> set vs" "path_append d n = p" by auto
    with ok [of d n] have "path_filename p = n" by auto
    with dn(1) show ?thesis by simp
  qed
  then show ?thesis
    unfolding construct_file_descriptors_def vs(1) construct_visits
    by (auto simp: fun_eq_iff paths_below_def vs(2))
qed

lemma construct_returns_readable:
  "construct_file_descriptors root tree fds = Returns fds' \<Longrightarrow> readable tree"
  unfolding construct_file_descriptors_def by (rule walk_returns_readable)

lemma construct_unreadable:
  assumes "\<not> readable tree"
  shows "construct_file_descriptors root tree fds = Throws FilesystemError"
proof -
  have "walk construct_visit [(root, tree)] fds \<noteq> Returns fds'" for fds'
    using walk_returns_readable [of construct_visit root tree fds fds'] assms by blast
  moreover have "\<exists>fds'. construct_visit d n fds = Returns fds'" for d n fds by (simp add: construct_visit_def)
  ultimately show ?thesis
    using walk_total [of construct_visit "[(root, tree)]" fds] by (auto simp: construct_file_descriptors_def)
qed

lemma construct_descriptors_ok:
  assumes "dir_ok root" and "\<forall>e \<in> set es. node_ok e"
    and "construct_file_descriptors root (Some es) Map.empty = Returns fds"
  shows "descriptors_ok fds \<and> dom fds = paths_below root es"
proof -
  from construct_descriptors_eq [OF assms(1,2) construct_returns_readable [OF assms(3)]] assms(3) have fds:
    "fds = (\<lambda>p. if p \<in> paths_below root es then Some (new_descriptor (path_filename p) p) else None)"
    by simp
  have "\<exists>d n. dir_ok d \<and> name_ok n \<and> p = path_append d n" if "p \<in> paths_below root es" for p
    using that files_below_ok [OF assms(1)] assms(2) by (auto simp: paths_below_def) blast
  then have "descriptors_ok fds"
    by (intro descriptors_okI) (auto simp: fds split: if_splits)
  with fds show ?thesis by (auto simp: dom_def)
qed

text \<open>
  C14. What \<^verbatim>\<open>construct_file_descriptors\<close> finds.  Whatever order the entries are enumerated in and however
  deep the tree is, the walk ends.  If every directory below the root can be opened and every entry's kind
  found out, a path has a descriptor afterwards iff it is the path of a file below the root (or had one
  before); the descriptor carries the file's name, the type of its extension, and the path itself as its
  unencoded representation.  Otherwise it throws, and with it the start of the program.  So it does where
  directories lead round in a circle through symbolic links, which the system follows up to some number on
  paths up to some length: one link to a directory above it is enough.
\<close>

theorem construct_finds_all_files:
  "(dir_ok root \<and> (\<forall>e \<in> set es. node_ok e) \<and> readable (Some es) \<longrightarrow>
     (\<exists>fds'. construct_file_descriptors root (Some es) fds = Returns fds' \<and>
       (\<forall>p. fds' p =
         (if p \<in> paths_below root es
          then Some \<lparr>fd_filename = path_filename p, fd_filetype = encode_filetype (path_filename p),
                     fd_paths = [NONE \<mapsto> p]\<rparr>
          else fds p)))) \<and>
   (\<not> readable tree \<longrightarrow> construct_file_descriptors root tree fds = Throws FilesystemError) \<and>
   (i \<in> S \<and> (\<forall>j \<in> S. \<forall>entries. G j = Some entries \<longrightarrow> (\<exists>(n, l) \<in> set entries. leads l S)) \<longrightarrow>
     construct_file_descriptors root (unfolded G links len i) fds = Throws FilesystemError)"
  using construct_descriptors_eq [of root es fds] construct_unreadable [of _ root fds] cycle_unreadable [of S G i links len]
  by (auto simp: new_descriptor_def)

definition sample_tree :: "fs_node list" where
  "sample_tree =
     [DirNode ''css'' (Some [FileNode ''a.css'']), FileNode ''index.html'',
      DirNode ''img'' (Some [DirNode ''icons'' (Some [FileNode ''b.png'']), FileNode ''README''])]"

lemma sample_tree_ok: "dir_ok ''../webdir'' \<and> (\<forall>e \<in> set sample_tree. node_ok e)"
  by (simp add: dir_ok_def sample_tree_def name_ok_def)

lemma sample_tree_readable: "readable (Some sample_tree)"
  by (simp add: sample_tree_def)

text \<open>The web directory \<open>0\<close> has a file and a directory \<open>1\<close>, which has a link to the web directory.\<close>

definition sample_graph :: fs_graph where
  "sample_graph = [0 \<mapsto> [(''index.html'', NoDir), (''img'', SubDir 1)], 1 \<mapsto> [(''up'', LinkTo 0)]]"

theorem construct_finds_all_files_witness:
  "(\<exists>fds'. construct_file_descriptors ''../webdir'' (Some sample_tree) Map.empty = Returns fds' \<and>
     fds' ''../webdir/img/icons/b.png'' =
       Some \<lparr>fd_filename = ''b.png'', fd_filetype = IMAGE_PNG,
             fd_paths = [NONE \<mapsto> ''../webdir/img/icons/b.png'']\<rparr> \<and>
     fds' ''../webdir/css'' = None) \<and>
   construct_file_descriptors ''../webdir'' (unfolded sample_graph 40 4096 0) Map.empty = Throws FilesystemError \<and>
   construct_file_descriptors ''../webdir'' (Some [FileNode ''index.html'', DirNode ''private'' None]) Map.empty =
     Throws FilesystemError"
proof -
  from construct_finds_all_files [THEN conjunct1, rule_format,
      OF conjI [OF conjunct1 [OF sample_tree_ok] conjI [OF conjunct2 [OF sample_tree_ok] sample_tree_readable]], of Map.empty]
  obtain fds' where fds': "construct_file_descriptors ''../webdir'' (Some sample_tree) Map.empty = Returns fds'"
    "\<And>p. fds' p = (if p \<in> paths_below ''../webdir'' sample_tree
        then Some \<lparr>fd_filename = path_filename p, fd_filetype = encode_filetype (path_filename p),
                   fd_paths = [NONE \<mapsto> p]\<rparr> else None)" by blast
  have "''../webdir/img/icons/b.png'' \<in> paths_below ''../webdir'' sample_tree"
    and "''../webdir/css'' \<notin> paths_below ''../webdir'' sample_tree"
    by (simp_all add: paths_below_def sample_tree_def path_append_def)
  moreover have "path_filename ''../webdir/img/icons/b.png'' = ''b.png''" and "encode_filetype ''b.png'' = IMAGE_PNG"
    by code_simp+
  moreover have "construct_file_descriptors ''../webdir'' (unfolded sample_graph 40 4096 0) Map.empty = Throws FilesystemError"
    by (rule construct_finds_all_files [where S = "{0, 1}" and G = sample_graph, THEN conjunct2, THEN conjunct2, THEN mp])
       (simp add: sample_graph_def leads_def)
  moreover have "construct_file_descriptors ''../webdir'' (Some [FileNode ''index.html'', DirNode ''private'' None]) Map.empty =
     Throws FilesystemError"
    by (rule construct_finds_all_files [THEN conjunct2, THEN conjunct1, THEN mp]) simp
  ultimately show ?thesis using fds'(1) by (auto simp: fds'(2))
qed

section \<open>Facts: encoded companions\<close>

text \<open>
  What encoding should amount to, as functions of the state before it: the output for a path, and
  the files and descriptors afterwards, for the set \<open>P\<close> of paths that have been visited.
\<close>

definition companion :: "compressor \<Rightarrow> (string \<Rightarrow> bool) \<Rightarrow> disk \<Rightarrow> string \<Rightarrow> string option" where
  "companion compress writable files p =
     (case files p of None \<Rightarrow> None
      | Some input \<Rightarrow>
          (case compress input (replicate (length input) (CHR 0x00)) of
             None \<Rightarrow> None
           | Some (output, n) \<Rightarrow> if writable (p @ ''.br'') then Some output else None))"

definition text_path :: "descriptors \<Rightarrow> string \<Rightarrow> bool" where
  "text_path fds p \<longleftrightarrow> (case fds p of None \<Rightarrow> False | Some fd \<Rightarrow> is_text fd)"

definition encoded_files ::
  "compressor \<Rightarrow> (string \<Rightarrow> bool) \<Rightarrow> string set \<Rightarrow> disk \<Rightarrow> descriptors \<Rightarrow> disk" where
  "encoded_files compress writable P files fds =
     (\<lambda>q. let p = take (length q - 3) q
          in if q = p @ ''.br'' \<and> p \<in> P \<and> text_path fds p \<and> companion compress writable files p \<noteq> None
             then companion compress writable files p else files q)"

definition encoded_descriptors ::
  "compressor \<Rightarrow> (string \<Rightarrow> bool) \<Rightarrow> string set \<Rightarrow> disk \<Rightarrow> descriptors \<Rightarrow> descriptors" where
  "encoded_descriptors compress writable P files fds =
     (\<lambda>p. if p \<in> P \<and> text_path fds p \<and> companion compress writable files p \<noteq> None
          then map_option (\<lambda>fd. fd\<lparr>fd_paths := (fd_paths fd)(BROTLI \<mapsto> p @ ''.br'')\<rparr>) (fds p)
          else fds p)"

lemma text_path_not_br: "descriptors_ok fds \<Longrightarrow> text_path fds p \<Longrightarrow> p \<noteq> q @ ''.br''"
proof
  assume ok: "descriptors_ok fds" and t: "text_path fds p" and eq: "p = q @ ''.br''"
  from t obtain fd where fd: "fds p = Some fd" "is_text fd"
    by (auto simp: text_path_def split: option.splits)
  with ok obtain d n where "dir_ok d" "name_ok n" "p = path_append d n" "fd_filetype fd = encode_filetype n"
    unfolding descriptors_ok_def by blast
  with fd(2) have "path_extension p \<in> {''.html'', ''.css'', ''.js''}"
    using is_text_extension [of n] by (simp add: is_text_def)
  with eq path_extension_br [of q] show False by simp
qed

lemma descriptor_own_path:
  "descriptors_ok fds \<Longrightarrow> fds p = Some fd \<Longrightarrow> path_append (parent_path p) (fd_filename fd) = p"
  unfolding descriptors_ok_def by fastforce

lemma brotli_encode_companion:
  assumes "files p \<noteq> None"
  shows "brotli_encode compress writable p files =
    (case companion compress writable files p of
       None \<Rightarrow> Returns ('''', files)
     | Some out \<Rightarrow> Returns (p @ ''.br'', files(p @ ''.br'' \<mapsto> out)))"
  using assms
  by (auto simp: brotli_encode_def companion_def write_to_file_def split: option.splits)

lemma text_path_update [simp]:
  "fds p = Some fd \<Longrightarrow> text_path (fds(p \<mapsto> fd\<lparr>fd_paths := ps\<rparr>)) = text_path fds"
  by (auto simp: text_path_def is_text_def fun_eq_iff)

lemma descriptors_ok_update:
  assumes "descriptors_ok fds" and "fds p = Some fd"
  shows "descriptors_ok (fds(p \<mapsto> fd\<lparr>fd_paths := (fd_paths fd)(BROTLI \<mapsto> out)\<rparr>))"
  unfolding descriptors_ok_def
proof (intro allI impI)
  fix q fd' assume "(fds(p \<mapsto> fd\<lparr>fd_paths := (fd_paths fd)(BROTLI \<mapsto> out)\<rparr>)) q = Some fd'"
  then obtain fd0 where "fds q = Some fd0" "fd_filename fd' = fd_filename fd0"
    "fd_filetype fd' = fd_filetype fd0" "fd_paths fd' NONE = fd_paths fd0 NONE"
    using assms(2) by (auto split: if_splits)
  with assms(1) show "\<exists>d n. dir_ok d \<and> name_ok n \<and> q = path_append d n \<and> fd_filename fd' = n \<and>
      fd_filetype fd' = encode_filetype n \<and> fd_paths fd' NONE = Some q"
    unfolding descriptors_ok_def by simp
qed

lemma br_suffix_take [simp]: "take (length q - 3) (p @ ''.br'') = p" if "q = p @ ''.br''" for p q :: string
  using that by simp

lemma encoded_skip:
  assumes "\<not> text_path fds p \<or> companion compress writable files p = None"
  shows "encoded_files compress writable (insert p P) files fds = encoded_files compress writable P files fds"
    and "encoded_descriptors compress writable (insert p P) files fds = encoded_descriptors compress writable P files fds"
  using assms by (auto simp: encoded_files_def encoded_descriptors_def Let_def fun_eq_iff)

lemma encoded_step:
  assumes ok: "descriptors_ok fds" and fd: "fds p = Some fd" "is_text fd"
    and out: "companion compress writable files p = Some out" and p: "p \<notin> P"
  defines "files' \<equiv> files(p @ ''.br'' \<mapsto> out)"
    and "fds' \<equiv> fds(p \<mapsto> fd\<lparr>fd_paths := (fd_paths fd)(BROTLI \<mapsto> p @ ''.br'')\<rparr>)"
  shows "encoded_files compress writable P files' fds' = encoded_files compress writable (insert p P) files fds"
    and "encoded_descriptors compress writable P files' fds' =
      encoded_descriptors compress writable (insert p P) files fds"
proof -
  have t: "text_path fds' = text_path fds" using fd(1) by (simp add: fds'_def)
  have tp: "text_path fds p" using fd by (simp add: text_path_def)
  have c: "companion compress writable files' q = companion compress writable files q" if "text_path fds q" for q
    using text_path_not_br [OF ok that, of p] by (simp add: companion_def files'_def)
  show "encoded_files compress writable P files' fds' = encoded_files compress writable (insert p P) files fds"
  proof
    fix q
    show "encoded_files compress writable P files' fds' q = encoded_files compress writable (insert p P) files fds q"
    proof (cases "q = p @ ''.br''")
      case True
      then show ?thesis using p tp out by (simp add: encoded_files_def t files'_def)
    next
      case False
      then have "files' q = files q" by (simp add: files'_def)
      with False c show ?thesis by (auto simp: encoded_files_def t Let_def)
    qed
  qed
  show "encoded_descriptors compress writable P files' fds' =
      encoded_descriptors compress writable (insert p P) files fds"
  proof
    fix q
    show "encoded_descriptors compress writable P files' fds' q =
        encoded_descriptors compress writable (insert p P) files fds q"
    proof (cases "q = p")
      case True
      then show ?thesis using p tp out fd by (simp add: encoded_descriptors_def fds'_def)
    next
      case False
      then have "fds' q = fds q" by (simp add: fds'_def)
      with False c show ?thesis by (auto simp: encoded_descriptors_def t)
    qed
  qed
qed

lemma generate_encoded:
  assumes "distinct order" and "descriptors_ok fds"
    and "\<forall>p \<in> set order. text_path fds p \<longrightarrow> files p \<noteq> None"
  shows "generate_encoded_files compress writable order files fds =
    Returns (encoded_files compress writable (set order) files fds,
             encoded_descriptors compress writable (set order) files fds)"
  using assms
proof (induction order arbitrary: files fds)
  case Nil
  then show ?case by (simp add: encoded_files_def encoded_descriptors_def fun_eq_iff Let_def)
next
  case (Cons p order)
  show ?case
  proof (cases "text_path fds p")
    case False
    with Cons show ?thesis
      by (auto simp: encoded_skip text_path_def split: option.splits)
  next
    case True
    then obtain fd where fd: "fds p = Some fd" "is_text fd"
      by (auto simp: text_path_def split: option.splits)
    have p: "path_append (parent_path p) (fd_filename fd) = p"
      using Cons.prems(2) fd(1) by (rule descriptor_own_path)
    have here: "files p \<noteq> None" using Cons.prems(3) True by simp
    show ?thesis
    proof (cases "companion compress writable files p")
      case None
      with Cons fd here show ?thesis
        by (simp add: p brotli_encode_companion encoded_skip)
    next
      case (Some out)
      let ?files = "files(p @ ''.br'' \<mapsto> out)"
      let ?fds = "fds(p \<mapsto> fd\<lparr>fd_paths := (fd_paths fd)(BROTLI \<mapsto> p @ ''.br'')\<rparr>)"
      have "generate_encoded_files compress writable order ?files ?fds =
          Returns (encoded_files compress writable (set order) ?files ?fds,
                   encoded_descriptors compress writable (set order) ?files ?fds)"
      proof (rule Cons.IH)
        show "distinct order" using Cons.prems(1) by simp
        show "descriptors_ok ?fds" using Cons.prems(2) fd(1) by (rule descriptors_ok_update)
        show "\<forall>q \<in> set order. text_path ?fds q \<longrightarrow> ?files q \<noteq> None"
          using text_path_update [of fds p fd "(fd_paths fd)(BROTLI \<mapsto> p @ ''.br'')"] fd(1) Cons.prems(3)
          by (metis fun_upd_apply list.set_intros(2) option.distinct(1))
      qed
      also have "\<dots> = Returns (encoded_files compress writable (set (p # order)) files fds,
                   encoded_descriptors compress writable (set (p # order)) files fds)"
        using encoded_step [OF Cons.prems(2) fd Some, of "set order"] Cons.prems(1) by simp
      finally show ?thesis
        using fd here Some by (simp add: p brotli_encode_companion)
    qed
  qed
qed

text \<open>
  C17. \<^verbatim>\<open>generate_encoded_files\<close> does not depend on the order of the descriptor map.  Where every text
  file is on disk, the loop writes exactly one companion for each text file the compressor compresses
  and whose companion can be opened, from the contents before the loop, and records the companion in
  that file's descriptor and in no other; every order of iteration gives the same disk and descriptors.
\<close>

theorem generate_encoded_files_order:
  assumes "descriptors_ok fds" and "distinct order" and "set order = dom fds"
    and "\<forall>p. text_path fds p \<longrightarrow> files p \<noteq> None"
  shows "generate_encoded_files compress writable order files fds =
    Returns (encoded_files compress writable (dom fds) files fds,
             encoded_descriptors compress writable (dom fds) files fds)"
  using generate_encoded [OF assms(2,1)] assms(3,4) by simp

definition sample_paths :: "string list" where
  "sample_paths = [''w/README'', ''w/css/a.css'', ''w/index.html'']"

definition sample_descriptors :: descriptors where
  "sample_descriptors = map_of (map (\<lambda>p. (p, new_descriptor (path_filename p) p)) sample_paths)"

definition sample_disk :: disk where
  "sample_disk = map_of [(''w/css/a.css'', ''aab''), (''w/index.html'', ''<html></html>''), (''w/README'', ''hello'')]"

lemma sample_descriptors_eq:
  "sample_descriptors p = (if p \<in> set sample_paths then Some (new_descriptor (path_filename p) p) else None)"
  by (auto simp: sample_descriptors_def sample_paths_def)

lemma sample_descriptors_ok: "descriptors_ok sample_descriptors"
proof -
  have dirs: "dir_ok ''w''" "dir_ok ''w/css''"
    and names: "name_ok ''README''" "name_ok ''a.css''" "name_ok ''index.html''"
    by (simp_all add: dir_ok_def name_ok_def)
  have "\<exists>d n. dir_ok d \<and> name_ok n \<and> p = path_append d n" if "p \<in> set sample_paths" for p
  proof -
    from that consider "p = path_append ''w'' ''README''" | "p = path_append ''w/css'' ''a.css''"
      | "p = path_append ''w'' ''index.html''"
      by (auto simp: sample_paths_def path_append_def)
    then show ?thesis using dirs names by cases blast+
  qed
  then show ?thesis
    by (intro descriptors_okI) (auto simp: sample_descriptors_eq split: if_splits)
qed

lemma sample_text_on_disk: "\<forall>p. text_path sample_descriptors p \<longrightarrow> sample_disk p \<noteq> None"
proof -
  have "\<forall>p \<in> set sample_paths. text_path sample_descriptors p \<longrightarrow> sample_disk p \<noteq> None"
    by code_simp
  moreover have "text_path sample_descriptors p \<Longrightarrow> p \<in> set sample_paths" for p
    by (auto simp: text_path_def sample_descriptors_eq split: if_splits)
  ultimately show ?thesis by blast
qed

lemma sample_no_brotli: "\<forall>p fd. sample_descriptors p = Some fd \<longrightarrow> fd_paths fd BROTLI = None"
  by (auto simp: sample_descriptors_eq new_descriptor_def split: if_splits)

theorem generate_encoded_files_order_witness:
  "\<exists>files fds. generate_encoded_files dedup_compressor (\<lambda>_. True) sample_paths sample_disk sample_descriptors =
       Returns (files, fds) \<and>
     files ''w/css/a.css.br'' = Some (''ab'' @ [CHR 0x00]) \<and> files ''w/README.br'' = None \<and>
     map_option (\<lambda>fd. fd_paths fd BROTLI) (fds ''w/css/a.css'') = Some (Some ''w/css/a.css.br'') \<and>
     map_option (\<lambda>fd. fd_paths fd BROTLI) (fds ''w/README'') = Some None"
proof -
  have dom: "dom sample_descriptors = set sample_paths"
    by (auto simp: sample_descriptors_eq dom_def)
  from generate_encoded_files_order [OF sample_descriptors_ok _ _ sample_text_on_disk, of sample_paths dedup_compressor "\<lambda>_. True"]
  have gen: "generate_encoded_files dedup_compressor (\<lambda>_. True) sample_paths sample_disk sample_descriptors =
    Returns (encoded_files dedup_compressor (\<lambda>_. True) (set sample_paths) sample_disk sample_descriptors,
             encoded_descriptors dedup_compressor (\<lambda>_. True) (set sample_paths) sample_disk sample_descriptors)"
    by (simp add: dom) (simp add: sample_paths_def)
  show ?thesis
    by (intro exI conjI, rule gen) code_simp+
qed

section \<open>Facts: the representation that is served\<close>

lemma encoded_descriptors_dom: "dom (encoded_descriptors compress writable P files fds) = dom fds"
  by (auto simp: encoded_descriptors_def dom_def)

text \<open>
  C15. What the disk fetcher answers after start-up.  For descriptors as the walk leaves them, after
  \<^verbatim>\<open>generate_encoded_files\<close>: a path without a descriptor is an error naming it; a text file that was
  compressed is answered with its companion's contents, marked as Brotli; every other file with the
  contents of the file itself, unmarked; each with the type of its extension.
\<close>

theorem served_representation:
  assumes "descriptors_ok fds" and "distinct order" and "set order = dom fds"
    and "\<forall>p. text_path fds p \<longrightarrow> files p \<noteq> None"
    and "\<forall>p fd. fds p = Some fd \<longrightarrow> fd_paths fd BROTLI = None"
    and "generate_encoded_files compress writable order files fds = Returns (files', fds')"
  shows "disk_get_file files' fds' p =
    (case fds p of
       None \<Rightarrow> Inl (FileManagerException (''File not found: '' @ p))
     | Some fd \<Rightarrow>
         (case (if is_text fd then companion compress writable files p else None) of
            Some out \<Rightarrow> Inr \<lparr>data_filetype = encode_filetype (path_filename p), data_encoding = BROTLI,
                             data_content = out\<rparr>
          | None \<Rightarrow> Inr \<lparr>data_filetype = encode_filetype (path_filename p), data_encoding = NONE,
                         data_content = read_file files' p\<rparr>))"
proof -
  from generate_encoded [OF assms(2,1), of files compress writable] assms(3,4,6)
  have files': "files' = encoded_files compress writable (dom fds) files fds"
    and fds': "fds' = encoded_descriptors compress writable (dom fds) files fds" by simp_all
  show ?thesis
  proof (cases "fds p")
    case None
    then show ?thesis by (simp add: disk_get_file_def fds' encoded_descriptors_def)
  next
    case (Some fd)
    with assms(1) obtain d n where dn: "p = path_append d n" "dir_ok d" "name_ok n"
      "fd_filetype fd = encode_filetype n" "fd_paths fd NONE = Some p"
      unfolding descriptors_ok_def by metis
    then have type: "fd_filetype fd = encode_filetype (path_filename p)" by simp
    have br: "fd_paths fd BROTLI = None" using assms(5) Some by blast
    have tp: "text_path fds p = is_text fd" using Some by (simp add: text_path_def)
    show ?thesis
      using Some type br tp dn(5)
      by (cases "companion compress writable files p")
         (auto simp: disk_get_file_def fds' files' encoded_descriptors_def encoded_files_def read_file_def)
  qed
qed

theorem served_representation_witness:
  "\<exists>files fds. generate_encoded_files dedup_compressor (\<lambda>p. p \<noteq> ''w/index.html.br'') sample_paths sample_disk
       sample_descriptors = Returns (files, fds) \<and>
     disk_get_file files fds ''w/css/a.css'' =
       Inr \<lparr>data_filetype = TEXT_CSS, data_encoding = BROTLI, data_content = ''ab'' @ [CHR 0x00]\<rparr> \<and>
     disk_get_file files fds ''w/index.html'' =
       Inr \<lparr>data_filetype = TEXT_HTML, data_encoding = NONE, data_content = ''<html></html>''\<rparr> \<and>
     disk_get_file files fds ''w/none'' = Inl (FileManagerException ''File not found: w/none'')"
proof -
  let ?w = "\<lambda>p. p \<noteq> ''w/index.html.br''"
  have dom: "distinct sample_paths" "set sample_paths = dom sample_descriptors"
    by (simp add: sample_paths_def) (auto simp: sample_descriptors_eq dom_def)
  note pre = sample_descriptors_ok dom sample_text_on_disk sample_no_brotli
  obtain files fds where gen:
    "generate_encoded_files dedup_compressor ?w sample_paths sample_disk sample_descriptors = Returns (files, fds)"
    using generate_encoded [OF dom(1) sample_descriptors_ok] sample_text_on_disk by blast
  from generate_encoded [OF dom(1) sample_descriptors_ok, of sample_disk dedup_compressor ?w] sample_text_on_disk gen
  have files: "files = encoded_files dedup_compressor ?w (set sample_paths) sample_disk sample_descriptors"
    by simp
  have r: "read_file files ''w/index.html'' = ''<html></html>''"
    unfolding files by code_simp
  have "disk_get_file files fds ''w/css/a.css'' =
       Inr \<lparr>data_filetype = TEXT_CSS, data_encoding = BROTLI, data_content = ''ab'' @ [CHR 0x00]\<rparr>"
    unfolding served_representation [OF pre gen] by code_simp
  moreover have "disk_get_file files fds ''w/index.html'' =
       Inr \<lparr>data_filetype = TEXT_HTML, data_encoding = NONE, data_content = read_file files ''w/index.html''\<rparr>"
    unfolding served_representation [OF pre gen] by code_simp
  moreover have "disk_get_file files fds ''w/none'' = Inl (FileManagerException ''File not found: w/none'')"
    unfolding served_representation [OF pre gen] by code_simp
  ultimately show ?thesis using gen r by (intro exI [of _ files] exI [of _ fds]) simp
qed

section \<open>Facts: the cache in front of the disk\<close>

text \<open>The disk fetcher in a world: what is on disk, and the descriptors.\<close>

definition fetch_in :: "disk \<times> descriptors \<Rightarrow> string \<Rightarrow> file_manager_exception + http_file_data" where
  "fetch_in world p = disk_get_file (fst world) (snd world) p"

definition described_in :: "disk \<times> descriptors \<Rightarrow> string \<Rightarrow> bool" where
  "described_in world p \<longleftrightarrow> snd world p \<noteq> None"

interpretation disk_fetcher: file_fetcher fetch_in described_in
  by unfold_locales
     (auto simp: fetch_in_def described_in_def disk_get_file_def Let_def split: option.splits prod.splits)

text \<open>
  C18. The cache never refreshes.  Over any sequence of requests, the disk and the descriptors changing
  between them, the answer for a path is the one the disk gave for the first request for that path
  made at a time at which it had a descriptor; before that the answer is the disk's error.
\<close>

theorem file_cache_first_answer:
  assumes "i < length requests" and "requests ! i = (world, p)"
  shows "fst (cache_run fetch_in requests Map.empty) ! i =
    (case find (\<lambda>(w, q). q = p \<and> described_in w p) (take i requests) of
       Some (w, _) \<Rightarrow> fetch_in w p
     | None \<Rightarrow> fetch_in world p)"
  using disk_fetcher.answer_nth [OF assms, of Map.empty] by simp

theorem file_cache_first_answer_witness:
  "fst (cache_run fetch_in
      [((sample_disk, Map.empty), ''w/README''), ((sample_disk, sample_descriptors), ''w/README''),
       ((Map.empty, Map.empty), ''w/README'')] Map.empty) ! 2 =
     Inr \<lparr>data_filetype = TEXT_PLAIN, data_encoding = NONE, data_content = ''hello''\<rparr>"
proof -
  let ?rs = "[((sample_disk, Map.empty), ''w/README''), ((sample_disk, sample_descriptors), ''w/README''),
       ((Map.empty, Map.empty), ''w/README'')]"
  have "2 < length ?rs" and "?rs ! 2 = ((Map.empty, Map.empty), ''w/README'')" by simp_all
  from file_cache_first_answer [OF this] show ?thesis
    by (simp add: described_in_def fetch_in_def sample_descriptors_eq sample_paths_def numeral_2_eq_2
        disk_get_file_def new_descriptor_def read_file_def sample_disk_def) code_simp
qed

text \<open>
  While the disk and the descriptors stay as they are, the cache cannot be observed: a sequence of
  requests is answered as the disk alone would answer it.
\<close>

theorem file_cache_transparent:
  "fst (cache_run fetch_in (map (Pair (files, fds)) ps) Map.empty) = map (disk_get_file files fds) ps"
  using disk_fetcher.steady_world [of "(files, fds)" ps] by (simp add: fetch_in_def)

end
