(* ===== verification/HttpHandler.thy ===== *)
theory HttpHandler
  imports Request_Roundtrip FileManager
begin

text \<open>
  \<^verbatim>\<open>include/simpleserv/http/http_handler.hpp\<close> and \<^verbatim>\<open>src/simpleserv/http/http_handler.cpp\<close>: from the text
  of a request to the text of the response, through the parser and the file manager.  The state is the
  file manager the handler's functions use; the disk is an argument.  The log lines are in \<open>Logging\<close>.
\<close>

section \<open>The functions of the source\<close>

definition capabilities :: "header list" where
  "capabilities =
     [\<lparr>hkey = ''Age'', hvalue = ''0''\<rparr>, \<lparr>hkey = ''Allow'', hvalue = ''GET, HEAD, OPTIONS''\<rparr>,
      \<lparr>hkey = ''Server'', hvalue = ''SSRV/0.1''\<rparr>]"

definition remove_query :: "string \<Rightarrow> string outcome" where
  "remove_query s =
     (case find_char s CHR ''?'' 0 of
        Some query_index \<Rightarrow> substr s 0 query_index
      | None \<Rightarrow> Returns s)"

definition convert_to_filedirectory :: "string \<Rightarrow> string outcome" where
  "convert_to_filedirectory request_path =
     obind (remove_query request_path) (\<lambda>p. Returns (''../webdir'' @ p))"

definition prepare_response :: "disk \<Rightarrow> http_request \<Rightarrow> file_manager \<Rightarrow> (http_response \<times> file_manager) outcome" where
  "prepare_response files request fm =
     (let response = HTTPResponse OK HTTP_1_1
      in obind (convert_to_filedirectory (req_path request)) (\<lambda>p.
         case get_file files fm p of
           (Inl _, fm') \<Rightarrow> Returns (HTTPResponse NOT_FOUND HTTP_1_1, fm')
         | (Inr file_data, fm') \<Rightarrow>
             let response = SetHeader ''Content-Type'' (decode_filetype (data_filetype file_data)) response;
                 response =
                   (if data_encoding file_data \<noteq> NONE
                    then SetHeader ''Content-Encoding'' (decode_file_encoding (data_encoding file_data)) response
                    else response);
                 response =
                   (if req_method request \<noteq> HEAD then SetContent (data_content file_data) response else response)
             in Returns (response, fm')))"

definition handle :: "disk \<Rightarrow> string \<Rightarrow> file_manager \<Rightarrow> (string option \<times> file_manager) outcome" where
  "handle files s fm =
     obind (parse_http_request s) (\<lambda>result.
       case result of
         Inl _ \<Rightarrow> Returns (None, fm)
       | Inr request \<Rightarrow>
           obind (prepare_response files request fm) (\<lambda>(response, fm').
           obind (response_to_string response) (\<lambda>t. Returns (Some t, fm'))))"

section \<open>Facts: the response\<close>

definition path_part :: "string \<Rightarrow> string" where
  "path_part p = takeWhile (\<lambda>c. c \<noteq> CHR ''?'') p"

lemma remove_query_eq: "remove_query p = Returns (path_part p)"
proof (cases "find_char p CHR ''?'' 0")
  case None
  then have "CHR ''?'' \<notin> set p" by (auto simp: find_char_def find_index_None_iff)
  then have "path_part p = p" by (auto simp: path_part_def takeWhile_eq_all_conv)
  with None show ?thesis by (simp add: remove_query_def)
next
  case (Some i)
  then have "find_index (\<lambda>c. c = CHR ''?'') p = Some i" by (auto simp: find_char_def)
  from find_index_split [OF this] obtain ys where ys: "p = take i p @ CHR ''?'' # ys"
    and pre: "CHR ''?'' \<notin> set (take i p)" and i: "i < length p" by blast
  from pre have "takeWhile (\<lambda>c. c \<noteq> CHR ''?'') (take i p @ CHR ''?'' # ys) = take i p"
    by (subst takeWhile_append2) auto
  then have "path_part p = take i p" unfolding path_part_def ys [symmetric] .
  with Some i show ?thesis by (simp add: remove_query_def substr_def)
qed

text \<open>The texts of the two responses.\<close>

definition not_found_text :: string where
  "not_found_text = ''HTTP/1.1 404 Not Found'' @ CRLF @ CRLF"

definition found_head :: "http_file_data \<Rightarrow> string" where
  "found_head d =
     ''HTTP/1.1 200 OK'' @ CRLF @
     (if data_encoding d \<noteq> NONE then ''Content-Encoding: '' @ decode_file_encoding (data_encoding d) @ CRLF else '''') @
     ''Content-Type: '' @ decode_filetype (data_filetype d) @ CRLF @ CRLF"

definition answer_text :: "http_request \<Rightarrow> 'e + http_file_data \<Rightarrow> string" where
  "answer_text r result =
     (case result of
        Inl _ \<Rightarrow> not_found_text
      | Inr d \<Rightarrow> found_head d @ (if req_method r = HEAD then '''' else data_content d))"

lemma answer_text_eq:
  "answer_text r result =
     (case result of
        Inl _ \<Rightarrow> ''HTTP/1.1 404 Not Found'' @ CRLF @ CRLF
      | Inr d \<Rightarrow>
          ''HTTP/1.1 200 OK'' @ CRLF @
          (if data_encoding d = NONE then ''''
           else ''Content-Encoding: '' @ decode_file_encoding (data_encoding d) @ CRLF) @
          ''Content-Type: '' @ decode_filetype (data_filetype d) @ CRLF @ CRLF @
          (if req_method r = HEAD then '''' else data_content d))"
  by (simp add: answer_text_def found_head_def not_found_text_def split: sum.splits)

lemma handle_accepted:
  assumes "parse_http_request s = Returns (Inr r)"
  shows "handle files s fm =
    (case get_file files fm (''../webdir'' @ path_part (req_path r)) of
       (result, fm') \<Rightarrow> Returns (Some (answer_text r result), fm'))"
  using assms
  by (simp add: handle_def prepare_response_def convert_to_filedirectory_def remove_query_eq
      response_to_string_def print_response_def HTTPResponse_def SetHeader_def SetContent_def array_at_def
      HTTP_VERSION_STRINGS_def answer_text_def not_found_text_def found_head_def print_header_def
      split: prod.splits sum.splits)

section \<open>Facts: the file manager behind the handler\<close>

text \<open>The cache holds what the disk fetcher would answer now.\<close>

definition cache_agrees :: "disk \<Rightarrow> file_manager \<Rightarrow> bool" where
  "cache_agrees files fm \<longleftrightarrow>
     (\<forall>p e. fm_cache fm p = Some e \<longrightarrow> disk_get_file files (fm_descriptors fm) p = Inr (ce_value e))"

lemma get_file_agrees:
  assumes "cache_agrees files fm"
  shows "\<exists>fm'. get_file files fm p = (disk_get_file files (fm_descriptors fm) p, fm') \<and>
    fm_descriptors fm' = fm_descriptors fm \<and> cache_agrees files fm' \<and>
    (\<forall>e. disk_get_file files (fm_descriptors fm) p = Inl e \<longrightarrow> fm' = fm)"
proof (cases "fm_cache fm p")
  case None
  then show ?thesis using assms
    by (cases "disk_get_file files (fm_descriptors fm) p")
       (auto simp: get_file_def cache_get_file_miss cache_agrees_def create_file_cache_entry_def)
next
  case (Some e)
  with assms show ?thesis by (auto simp: get_file_def cache_get_file_hit cache_agrees_def)
qed

lemma handle_agrees:
  assumes "parse_http_request s = Returns (Inr r)" and "cache_agrees files fm"
  shows "\<exists>fm'. handle files s fm = Returns
      (Some (answer_text r (disk_get_file files (fm_descriptors fm) (''../webdir'' @ path_part (req_path r)))), fm') \<and>
    fm_descriptors fm' = fm_descriptors fm \<and> cache_agrees files fm' \<and>
    (\<forall>e. disk_get_file files (fm_descriptors fm) (''../webdir'' @ path_part (req_path r)) = Inl e \<longrightarrow> fm' = fm)"
  using get_file_agrees [OF assms(2), of "''../webdir'' @ path_part (req_path r)"]
  by (auto simp: handle_accepted [OF assms(1)])

lemma get_file_missing:
  assumes "cache_agrees files fm" and "fm_descriptors fm p = None"
  shows "get_file files fm p = (Inl (FileManagerException (''File not found: '' @ p)), fm)"
proof -
  from assms(2) have d: "disk_get_file files (fm_descriptors fm) p = Inl (FileManagerException (''File not found: '' @ p))"
    by (simp add: disk_get_file_def)
  with assms(1) have "fm_cache fm p = None" by (cases "fm_cache fm p") (auto simp: cache_agrees_def)
  with d show ?thesis by (simp add: get_file_def cache_get_file_miss)
qed

lemma handle_missing:
  assumes "parse_http_request s = Returns (Inr r)" and "cache_agrees files fm"
    and "fm_descriptors fm (''../webdir'' @ path_part (req_path r)) = None"
  shows "handle files s fm = Returns (Some not_found_text, fm)"
  unfolding handle_accepted [OF assms(1)] get_file_missing [OF assms(2,3)] by (simp add: answer_text_def)

text \<open>
  C2. The answer to an accepted request.  The file asked for is the request's path up to its first
  question mark, below the web directory.  Without a descriptor for it the answer is the bare 404
  response; with one it is a 200 response with the type, the encoding unless there is none, in key
  order, an empty line, and the contents of the file unless the method is HEAD.  The cache goes on
  agreeing with the disk.
\<close>

theorem handle_answers:
  assumes "parse_http_request s = Returns (Inr r)" and "cache_agrees files fm"
  shows "\<exists>fm'. handle files s fm = Returns (Some
      (case disk_get_file files (fm_descriptors fm) (''../webdir'' @ path_part (req_path r)) of
         Inl _ \<Rightarrow> ''HTTP/1.1 404 Not Found'' @ CRLF @ CRLF
       | Inr d \<Rightarrow>
           ''HTTP/1.1 200 OK'' @ CRLF @
           (if data_encoding d = NONE then ''''
            else ''Content-Encoding: '' @ decode_file_encoding (data_encoding d) @ CRLF) @
           ''Content-Type: '' @ decode_filetype (data_filetype d) @ CRLF @ CRLF @
           (if req_method r = HEAD then '''' else data_content d)), fm') \<and>
    fm_descriptors fm' = fm_descriptors fm \<and> cache_agrees files fm'"
  using handle_agrees [OF assms] unfolding answer_text_eq by blast

definition sample_manager :: file_manager where
  "sample_manager =
     \<lparr>fm_descriptors = [''../webdir/a.css'' \<mapsto> new_descriptor ''a.css'' ''../webdir/a.css''], fm_cache = Map.empty\<rparr>"

lemma sample_manager_agrees: "cache_agrees files sample_manager"
  by (simp add: cache_agrees_def sample_manager_def)

theorem handle_answers_witness:
  "\<exists>fm. handle [''../webdir/a.css'' \<mapsto> ''body { }''] (''GET /a.css?v=2 HTTP/1.1'' @ CRLF @ CRLF) sample_manager =
     Returns (Some (''HTTP/1.1 200 OK'' @ CRLF @ ''Content-Type: text/css'' @ CRLF @ CRLF @ ''body { }''), fm)"
proof -
  have "parse_http_request (''GET /a.css?v=2 HTTP/1.1'' @ CRLF @ CRLF) =
      Returns (Inr (HTTPRequest GET ''/a.css?v=2'' HTTP_1_1))"
    by code_simp
  from handle_answers [OF this sample_manager_agrees, of "[''../webdir/a.css'' \<mapsto> ''body { }'']"]
  show ?thesis
    by (simp add: HTTPRequest_def path_part_def sample_manager_def disk_get_file_def new_descriptor_def read_file_def
        encode_filetype_def extension_map_def path_extension_def path_filename_def decode_filetype_def
        file_type_map_def) blast
qed

section \<open>Facts: nothing outside the web directory\<close>

text \<open>A manager as the start-up makes it.\<close>

definition started ::
  "compressor \<Rightarrow> (string \<Rightarrow> bool) \<Rightarrow> string list \<Rightarrow> fs_node list \<Rightarrow> disk \<Rightarrow> (disk \<times> file_manager) outcome" where
  "started compress writable order tree files =
     obind (fm_construct_file_descriptors ''../webdir'' (Some tree) new_file_manager)
       (fm_generate_encoded_files compress writable order files)"

lemma generate_dom:
  "generate_encoded_files compress writable order files fds = Returns (files', fds') \<Longrightarrow> dom fds' = dom fds"
proof (induction compress writable order files fds rule: generate_encoded_files.induct)
  case (2 compress writable p order files fds)
  show ?case
  proof (cases "fds p")
    case None
    with 2 show ?thesis by simp
  next
    case (Some fd)
    show ?thesis
    proof (cases "is_text fd")
      case False
      with 2 Some show ?thesis by simp
    next
      case True
      let ?fds = "\<lambda>out. if out \<noteq> '''' then fds(p \<mapsto> fd\<lparr>fd_paths := (fd_paths fd)(BROTLI \<mapsto> out)\<rparr>) else fds"
      from "2.prems" Some True obtain out files1 where
        enc: "brotli_encode compress writable (path_append (parent_path p) (fd_filename fd)) files = Returns (out, files1)"
        and gen: "generate_encoded_files compress writable order files1 (?fds out) = Returns (files', fds')"
        by (auto simp: obind_eq_Returns)
      from "2.IH" (2) [OF Some True enc refl gen] have "dom fds' = dom (?fds out)" .
      with Some show ?thesis by (auto split: if_splits)
    qed
  qed
qed simp

lemma started_manager:
  assumes "started compress writable order tree files = Returns (files', fm)" and "\<forall>e \<in> set tree. node_ok e"
  shows "dom (fm_descriptors fm) = paths_below ''../webdir'' tree \<and> cache_agrees disk fm"
proof -
  have root: "dir_ok ''../webdir''" by (simp add: dir_ok_def)
  from assms(1) obtain fds where fds: "construct_file_descriptors ''../webdir'' (Some tree) Map.empty = Returns fds"
    by (auto simp: started_def fm_construct_file_descriptors_def new_file_manager_def obind_eq_Returns)
  from assms(1) fds obtain fds' where
    gen: "generate_encoded_files compress writable order files fds = Returns (files', fds')"
    and fm: "fm = \<lparr>fm_descriptors = fds', fm_cache = Map.empty\<rparr>"
    by (auto simp: started_def fm_construct_file_descriptors_def fm_generate_encoded_files_def
        new_file_manager_def obind_eq_Returns)
  from gen have "dom fds' = dom fds" by (rule generate_dom)
  with construct_descriptors_ok [OF root assms(2) fds] fm show ?thesis by (simp add: cache_agrees_def)
qed

text \<open>
  C3. No request reads outside the web directory.  After start-up over any tree, a request whose path,
  up to the question mark, has an empty component after the first, a \<open>.\<close> or a \<open>..\<close>, or does not begin with a
  slash, is answered 404 and leaves the file manager as it was, whatever is on the disk.  So is every
  request for a path that was not below the web directory when the server started.
\<close>

theorem handle_contained:
  assumes "started compress writable order tree files0 = Returns (files1, fm)"
    and "\<forall>e \<in> set tree. node_ok e"
    and "parse_http_request s = Returns (Inr r)"
    and "''..'' \<in> set (components (path_part (req_path r))) \<or> ''.'' \<in> set (components (path_part (req_path r))) \<or>
         [] \<in> set (tl (components (path_part (req_path r)))) \<or> hd (components (path_part (req_path r))) \<noteq> [] \<or>
         ''../webdir'' @ path_part (req_path r) \<notin> paths_below ''../webdir'' tree"
  shows "handle files s fm = Returns (Some not_found_text, fm)"
proof -
  let ?p = "path_part (req_path r)"
  have root: "dir_ok ''../webdir''" by (simp add: dir_ok_def)
  have "''../webdir'' @ ?p \<notin> paths_below ''../webdir'' tree"
  proof
    assume "''../webdir'' @ ?p \<in> paths_below ''../webdir'' tree"
    with paths_below_components [OF root assms(2) this] obtain ns where
      ns: "components ?p = [] # ns" "\<forall>n \<in> set ns. name_ok n" by blast
    then have "''..'' \<notin> set (components ?p)" "''.'' \<notin> set (components ?p)" "[] \<notin> set (tl (components ?p))"
      "hd (components ?p) = []"
      by (simp_all add: name_ok_def) metis+
    with assms(4) \<open>''../webdir'' @ ?p \<in> paths_below ''../webdir'' tree\<close> show False by blast
  qed
  with started_manager [OF assms(1,2)] have "fm_descriptors fm (''../webdir'' @ ?p) = None" by blast
  with handle_missing [OF assms(3)] started_manager [OF assms(1,2)] show ?thesis by blast
qed

theorem handle_contained_witness:
  "\<exists>files fm. started dedup_compressor (\<lambda>_. True) [] sample_tree Map.empty = Returns (files, fm) \<and>
     handle [''../webdir/../etc/passwd'' \<mapsto> ''root''] (''GET /../etc/passwd HTTP/1.1'' @ CRLF @ CRLF) fm =
       Returns (Some not_found_text, fm)"
proof -
  obtain files fm where st: "started dedup_compressor (\<lambda>_. True) [] sample_tree Map.empty = Returns (files, fm)"
    using construct_descriptors_eq [OF conjunct1 [OF sample_tree_ok] conjunct2 [OF sample_tree_ok] sample_tree_readable, of Map.empty]
    by (simp add: started_def fm_construct_file_descriptors_def fm_generate_encoded_files_def new_file_manager_def)
  have parse: "parse_http_request (''GET /../etc/passwd HTTP/1.1'' @ CRLF @ CRLF) =
      Returns (Inr (HTTPRequest GET ''/../etc/passwd'' HTTP_1_1))"
    by code_simp
  have "''..'' \<in> set (components (path_part (req_path (HTTPRequest GET ''/../etc/passwd'' HTTP_1_1))))"
    by code_simp
  with handle_contained [OF st conjunct2 [OF sample_tree_ok] parse] st show ?thesis by blast
qed

section \<open>Facts: methods and rejected requests\<close>

lemma answer_text_split:
  assumes "m \<noteq> HEAD"
  shows "\<exists>h body. answer_text (r\<lparr>req_method := HEAD\<rparr>) result = h @ CRLF @ CRLF \<and>
    answer_text (r\<lparr>req_method := m\<rparr>) result = h @ CRLF @ CRLF @ body"
proof (cases result)
  case (Inl e)
  then show ?thesis
    by (intro exI [of _ "''HTTP/1.1 404 Not Found''"] exI [of _ "''''"]) (simp add: answer_text_eq)
next
  case (Inr d)
  then show ?thesis
    by (intro exI [of _ "''HTTP/1.1 200 OK'' @ CRLF @ (if data_encoding d = NONE then ''''
            else ''Content-Encoding: '' @ decode_file_encoding (data_encoding d) @ CRLF) @
          ''Content-Type: '' @ decode_filetype (data_filetype d)"] exI [of _ "data_content d"])
       (simp add: answer_text_eq assms)
qed

text \<open>
  HEAD and the other methods.  A printable request sent with any other method (POST, DELETE and
  OPTIONS among them: the handler tells no method but HEAD apart) is answered with the same head as with
  HEAD, ended by an empty line, and then the body; the effect on the file manager is the same.
\<close>

theorem head_is_get_without_body:
  assumes "request_ok r" and "m \<noteq> HEAD"
    and "print_request (r\<lparr>req_method := m\<rparr>) = Returns s"
    and "print_request (r\<lparr>req_method := HEAD\<rparr>) = Returns s_head"
  shows "\<exists>h body fm'. handle files s fm = Returns (Some (h @ CRLF @ CRLF @ body), fm') \<and>
    handle files s_head fm = Returns (Some (h @ CRLF @ CRLF), fm')"
proof -
  have ok: "request_ok (r\<lparr>req_method := m'\<rparr>)" for m'
    using assms(1) by (simp add: request_ok_def fields_ok_def)
  from roundtrip [OF ok, of m] roundtrip [OF ok, of HEAD] assms(3,4)
  have parse: "parse_http_request s = Returns (Inr (r\<lparr>req_method := m\<rparr>))"
    "parse_http_request s_head = Returns (Inr (r\<lparr>req_method := HEAD\<rparr>))" by simp_all
  obtain result fm' where get: "get_file files fm (''../webdir'' @ path_part (req_path r)) = (result, fm')"
    by fastforce
  obtain h body where h: "answer_text (r\<lparr>req_method := HEAD\<rparr>) result = h @ CRLF @ CRLF"
    "answer_text (r\<lparr>req_method := m\<rparr>) result = h @ CRLF @ CRLF @ body"
    using answer_text_split [OF assms(2)] by blast
  have "handle files s fm = Returns (Some (answer_text (r\<lparr>req_method := m\<rparr>) result), fm')"
    and "handle files s_head fm = Returns (Some (answer_text (r\<lparr>req_method := HEAD\<rparr>) result), fm')"
    using handle_accepted [OF parse(1), of files fm] handle_accepted [OF parse(2), of files fm] get by simp_all
  then show ?thesis unfolding h by blast
qed

theorem head_is_get_without_body_witness:
  "\<exists>h body fm'.
     handle [''../webdir/a.css'' \<mapsto> ''body { }''] (''DELETE /a.css HTTP/1.1'' @ CRLF @ CRLF) sample_manager =
       Returns (Some (h @ CRLF @ CRLF @ body), fm') \<and>
     handle [''../webdir/a.css'' \<mapsto> ''body { }''] (''HEAD /a.css HTTP/1.1'' @ CRLF @ CRLF) sample_manager =
       Returns (Some (h @ CRLF @ CRLF), fm')"
  by (rule head_is_get_without_body [of "HTTPRequest GET ''/a.css'' HTTP_1_1" DELETE])
     (code_simp+)

text \<open>
  Requests that are not accepted.  Where the parser reports an error the handler has no response and
  leaves the file manager as it was; on the empty text it does not return at all: the exception of the
  parser's first look at the text passes through it.
\<close>

theorem handle_rejected:
  "(parse_http_request s = Returns (Inl e) \<longrightarrow> handle files s fm = Returns (None, fm)) \<and>
   handle files '''' fm = Throws OutOfRange"
proof
  show "parse_http_request s = Returns (Inl e) \<longrightarrow> handle files s fm = Returns (None, fm)"
    by (simp add: handle_def)
  have "parse_http_request '''' = Throws OutOfRange" by code_simp
  then show "handle files '''' fm = Throws OutOfRange" by (simp add: handle_def)
qed

theorem handle_rejected_witness:
  "\<exists>e. parse_http_request ''BREW / HTTP/1.1'' = Returns (Inl e) \<and>
     handle Map.empty ''BREW / HTTP/1.1'' new_file_manager = Returns (None, new_file_manager)"
proof -
  obtain e where e: "parse_http_request ''BREW / HTTP/1.1'' = Returns (Inl e)"
    by (rule that) code_simp
  with handle_rejected [of "''BREW / HTTP/1.1''" e Map.empty new_file_manager] show ?thesis by blast
qed

end
