(* ===== verification/Connection.thy ===== *)
theory Connection
  imports HttpHandler LockFreeQueue
begin

text \<open>
  \<^verbatim>\<open>include/simpleserv/request_processing/\<close>: the connection objects, their senders and closers
  (\<^verbatim>\<open>tcp_connection.hpp\<close>, \<^verbatim>\<open>tls_connection.hpp\<close>), the worker (\<^verbatim>\<open>connection_handler.hpp\<close>) and the thread
  pool (\<^verbatim>\<open>threadpool.hpp\<close>).  What a thread does to the outside is a list of calls (\<open>io\<close>); what the system
  calls and the TLS library answer are arguments.  The log lines are left out.
\<close>

section \<open>Connections\<close>

record http_connection =
  tcp_fd :: int
  tcp_request :: string

text \<open>\<open>'ssl\<close> is the type of the library's handles, \<^verbatim>\<open>WOLFSSL*\<close>.\<close>

record 'ssl https_connection =
  tls_fd :: int
  tls_ssl :: 'ssl
  tls_request :: string

definition HTTPSConnectionObject :: "int \<Rightarrow> 'ssl \<Rightarrow> string \<Rightarrow> 'ssl https_connection" where
  "HTTPSConnectionObject fd ssl_in request_in = \<lparr>tls_fd = fd, tls_ssl = ssl_in, tls_request = request_in\<rparr>"

text \<open>
  A write through the library is given the text and, as an \<^verbatim>\<open>int\<close>, how much of it to write.
\<close>

datatype 'ssl io =
    Send int string
  | Close int
  | SslWrite 'ssl string int
  | SslShutdown 'ssl
  | SslFree 'ssl

section \<open>Senders and closers\<close>

text \<open>\<^verbatim>\<open>TCPSender::SendMsg\<close> calls \<^verbatim>\<open>send\<close> once and does not look at its result.\<close>

definition TCPSender_SendMsg :: "http_connection \<Rightarrow> string \<Rightarrow> 'ssl io list" where
  "TCPSender_SendMsg conn_obj response = [Send (tcp_fd conn_obj) response]"

definition TCPCloser_CloseConnection :: "http_connection \<Rightarrow> 'ssl io list" where
  "TCPCloser_CloseConnection conn_obj = [Close (tcp_fd conn_obj)]"

text \<open>\<^verbatim>\<open>static_cast<int>(response.length())\<close>: the length modulo \<open>2 ^ 32\<close>, as a signed number.\<close>

definition length_as_int :: "string \<Rightarrow> int" where
  "length_as_int response = signed_take_bit 31 (int (length response))"

lemma length_as_int_small: "length response < 2 ^ 31 \<Longrightarrow> length_as_int response = int (length response)"
  by (simp add: length_as_int_def signed_take_bit_int_eq_self)

lemma length_as_int_large:
  assumes "2 ^ 31 \<le> length response" and "length response < 2 ^ 32"
  shows "length_as_int response < 0"
proof -
  let ?n = "int (length response)"
  have "signed_take_bit 31 ?n = take_bit 32 (?n + 2 ^ 31) - 2 ^ 31"
    using signed_take_bit_eq_take_bit_shift [of 31 ?n] by simp
  also have "take_bit 32 (?n + 2 ^ 31) = ?n + 2 ^ 31 - 2 ^ 32"
    using assms mod_pos_pos_trivial [of "?n + 2 ^ 31 - 2 ^ 32" "2 ^ 32"] minus_mod_self2 [of "?n + 2 ^ 31" "2 ^ 32"]
    by (simp add: take_bit_eq_mod)
  finally show ?thesis using assms by (simp add: length_as_int_def)
qed

lemma length_as_int_bound: "2 ^ 32 \<le> length response \<Longrightarrow> length_as_int response < int (length response)"
  using signed_take_bit_int_less_exp [of 31 "int (length response)"] by (simp add: length_as_int_def)

text \<open>
  \<^verbatim>\<open>TLSSender::SendMsg\<close> repeats the write while the library wants to write again.  \<open>want_write k\<close> tells
  whether \<^verbatim>\<open>wolfSSL_get_error\<close> answers so after the \<open>k\<close>th write; the loop may never end.
\<close>

partial_function (option) tls_write_loop ::
  "(nat \<Rightarrow> bool) \<Rightarrow> 'ssl \<Rightarrow> string \<Rightarrow> nat \<Rightarrow> 'ssl io list option" where
  "tls_write_loop want_write ssl response k =
     (if want_write k
      then Option.bind (tls_write_loop want_write ssl response (Suc k)) (\<lambda>calls.
        Some (SslWrite ssl response (length_as_int response) # calls))
      else Some [SslWrite ssl response (length_as_int response)])"

definition TLSSender_SendMsg ::
  "(nat \<Rightarrow> bool) \<Rightarrow> 'ssl https_connection \<Rightarrow> string \<Rightarrow> 'ssl io list option" where
  "TLSSender_SendMsg want_write conn_obj response = tls_write_loop want_write (tls_ssl conn_obj) response 0"

definition TLSCloser_CloseConnection :: "'ssl https_connection \<Rightarrow> 'ssl io list" where
  "TLSCloser_CloseConnection conn_obj =
     [Close (tls_fd conn_obj), SslShutdown (tls_ssl conn_obj), SslFree (tls_ssl conn_obj)]"

section \<open>The worker\<close>

text \<open>
  \<^verbatim>\<open>handle_connection\<close>: the answer of the handler, which may throw, is sent if there is one; the
  connection is closed.  \<open>None\<close> where the sender does not return; \<open>'s\<close> is the handler's state.
\<close>

definition handle_connection ::
  "(string \<Rightarrow> 's \<Rightarrow> (string option \<times> 's) outcome) \<Rightarrow> ('c \<Rightarrow> string) \<Rightarrow>
   ('c \<Rightarrow> string \<Rightarrow> 'ssl io list option) \<Rightarrow> ('c \<Rightarrow> 'ssl io list) \<Rightarrow>
   'c \<Rightarrow> 's \<Rightarrow> ('ssl io list option \<times> 's) outcome" where
  "handle_connection handler request send_msg close_connection conn_obj s =
     obind (handler (request conn_obj) s) (\<lambda>(response, s').
       Returns
         (case response of
            Some r \<Rightarrow> Option.bind (send_msg conn_obj r) (\<lambda>calls. Some (calls @ close_connection conn_obj))
          | None \<Rightarrow> Some (close_connection conn_obj), s'))"

text \<open>
  \<^verbatim>\<open>ThreadpoolConnectionHandler\<close>.  Its default constructor leaves the pointer to the queue without a value.
\<close>

datatype queue_pointer = Unset | NullPointer | ToQueue

record worker =
  w_queue :: queue_pointer
  w_ready :: bool

definition default_worker :: worker where
  "default_worker = \<lparr>w_queue = Unset, w_ready = False\<rparr>"

definition new_worker :: "queue_pointer \<Rightarrow> worker" where
  "new_worker queue = \<lparr>w_queue = queue, w_ready = True\<rparr>"

text \<open>
  How \<^verbatim>\<open>Start\<close> stands, beside the calls made so far: its loop goes on, it is in a send that does not
  return, an exception has left it (which ends the thread and with it the process), an assertion has failed,
  or it is undefined.
\<close>

datatype ('q, 's) worker_end =
    Going 'q 's
  | Sending 'q 's
  | Ended cpp_exn 'q
  | Aborted
  | Meaningless

text \<open>
  The first \<open>n\<close> rounds of the loop, for a list of \<open>n\<close> flags: whether the exchange of the round's \<^verbatim>\<open>pop\<close> gives
  up.
\<close>

fun worker_rounds ::
  "('c \<Rightarrow> 's \<Rightarrow> ('ssl io list option \<times> 's) outcome) \<Rightarrow> ('c \<Rightarrow> 'c) \<Rightarrow> bool list \<Rightarrow> 'c queue \<Rightarrow> 's \<Rightarrow>
   'ssl io list \<times> ('c queue, 's) worker_end" where
  "worker_rounds handle_conn moved [] q s = ([], Going q s)"
| "worker_rounds handle_conn moved (spurious # rounds) q s =
     (case pop 100 moved spurious q of
        Returns (None, q') \<Rightarrow> worker_rounds handle_conn moved rounds q' s
      | Returns (Some conn_obj, q') \<Rightarrow>
          (case handle_conn conn_obj s of
             Returns (Some io, s') \<Rightarrow> map_prod ((@) io) id (worker_rounds handle_conn moved rounds q' s')
           | Returns (None, s') \<Rightarrow> ([], Sending q' s')
           | Throws e \<Rightarrow> ([], Ended e q')
           | Undefined \<Rightarrow> ([], Meaningless))
      | Throws e \<Rightarrow> ([], Ended e q)
      | Undefined \<Rightarrow> ([], Meaningless))"

text \<open>
  \<^verbatim>\<open>Start\<close>.  The assertion on the pointer is there unless the build defines \<^verbatim>\<open>NDEBUG\<close> (\<open>ndebug\<close>), as the
  release build of \<^verbatim>\<open>CMakeLists.txt\<close> does; to read a pointer without a value is undefined.
\<close>

definition worker_Start ::
  "bool \<Rightarrow> ('c \<Rightarrow> 's \<Rightarrow> ('ssl io list option \<times> 's) outcome) \<Rightarrow> ('c \<Rightarrow> 'c) \<Rightarrow> bool list \<Rightarrow> worker \<Rightarrow> 'c queue \<Rightarrow> 's \<Rightarrow>
   'ssl io list \<times> ('c queue, 's) worker_end" where
  "worker_Start ndebug handle_conn moved rounds w q s =
     (if \<not> ndebug \<and> w_queue w = Unset then ([], Meaningless)
      else if \<not> ndebug \<and> w_queue w = NullPointer then ([], Aborted)
      else if \<not> w_ready w then ([], Ended RuntimeError q)
      else if w_queue w \<noteq> ToQueue then ([], Meaningless)
      else worker_rounds handle_conn moved rounds q s)"

section \<open>The thread pool\<close>

record 'c threadpool =
  tp_queue :: "'c queue"
  tp_handlers :: "worker list"

definition new_threadpool :: "nat \<Rightarrow> 'c \<Rightarrow> 'c threadpool" where
  "new_threadpool num_threads d =
     \<lparr>tp_queue = new_queue 100 d, tp_handlers = map (\<lambda>_. new_worker ToQueue) [0..<num_threads]\<rparr>"

text \<open>The result of the push is not looked at.\<close>

definition add_task :: "'c \<Rightarrow> 'c threadpool \<Rightarrow> 'c threadpool outcome" where
  "add_task obj tp = obind (push 100 obj (tp_queue tp)) (\<lambda>(_, q). Returns (tp\<lparr>tp_queue := q\<rparr>))"

section \<open>Facts: the worker on a list of connections\<close>

fun serve_list ::
  "('c \<Rightarrow> 's \<Rightarrow> ('ssl io list option \<times> 's) outcome) \<Rightarrow> bool list \<Rightarrow> 'c list \<Rightarrow> 's \<Rightarrow>
   'ssl io list \<times> ('c list, 's) worker_end" where
  "serve_list handle_conn [] cs s = ([], Going cs s)"
| "serve_list handle_conn (spurious # rounds) cs s =
     (if spurious \<or> cs = [] then serve_list handle_conn rounds cs s
      else case handle_conn (hd cs) s of
          Returns (Some io, s') \<Rightarrow> map_prod ((@) io) id (serve_list handle_conn rounds (tl cs) s')
        | Returns (None, s') \<Rightarrow> ([], Sending (tl cs) s')
        | Throws e \<Rightarrow> ([], Ended e (tl cs))
        | Undefined \<Rightarrow> ([], Meaningless))"

abbreviation seen_as_list ::
  "'ssl io list \<times> ('c queue, 's) worker_end \<Rightarrow> 'ssl io list \<times> ('c list, 's) worker_end" where
  "seen_as_list \<equiv> map_prod id (map_worker_end (contents 100) id)"

lemma seen_Ended: "seen_as_list r = (io, Ended e rest) \<Longrightarrow> \<exists>q. r = (io, Ended e q) \<and> contents 100 q = rest"
  by (cases r; cases "snd r") auto

lemma worker_refines:
  "queue_sized 100 q \<Longrightarrow>
   seen_as_list (worker_rounds hc moved rounds q s) = serve_list hc rounds (contents 100 q) s"
proof (induction rounds arbitrary: q s)
  case (Cons b rounds)
  show ?case
  proof (cases "b \<or> contents 100 q = []")
    case True
    with lock_free.get_none [OF Cons.prems True] Cons.IH [OF Cons.prems] show ?thesis by auto
  next
    case False
    then obtain c cs where c: "contents 100 q = c # cs" "b = False" by (cases "contents 100 q") auto
    from lock_free.get_first [OF Cons.prems c(1)] obtain q1 where
      q1: "pop 100 moved False q = Returns (Some c, q1)" "queue_sized 100 q1" "contents 100 q1 = cs" by blast
    note IH = Cons.IH [OF q1(2), unfolded q1(3), symmetric]
    show ?thesis
      by (simp add: c q1 IH split: outcome.split option.split prod.split)
         (auto simp: map_prod_def split: prod.splits)
  qed
qed simp

text \<open>
  C38. The worker refines a loop over a list of connections.  On a queue that has not been overfilled,
  any number of rounds of the worker, some of which may give up, does to the outside, to the handler's
  state and to what the queue holds exactly what the same rounds do to the list of the connections
  held: each round that does not give up takes the first one; an exception of the handler and a send that
  does not return end it alike.
\<close>

theorem worker_refines_list:
  assumes "queue_sized 100 q" and "w_ready w" and "w_queue w = ToQueue"
  shows "seen_as_list (worker_Start ndebug hc moved rounds w q s) = serve_list hc rounds (contents 100 q) s"
  using worker_refines [OF assms(1)] assms(2,3) by (simp add: worker_Start_def)

section \<open>Facts: the contract of senders and closers\<close>

definition closed_fds :: "'ssl io list \<Rightarrow> int list" where
  "closed_fds calls = concat (map (\<lambda>call. case call of Close fd \<Rightarrow> [fd] | _ \<Rightarrow> []) calls)"

lemma closed_fds_append [simp]: "closed_fds (a @ b) = closed_fds a @ closed_fds b"
  by (simp add: closed_fds_def)

text \<open>
  A sender closes nothing; a closer closes the descriptor of its connection, once.  Whoever serves
  connections through such a pair closes each once, in the order of serving.
\<close>

locale connection_io =
  fixes send_msg :: "'c \<Rightarrow> string \<Rightarrow> 'ssl io list option"
    and close_connection :: "'c \<Rightarrow> 'ssl io list"
    and fd_of :: "'c \<Rightarrow> int"
  assumes send_closes_nothing: "send_msg c r = Some calls \<Longrightarrow> closed_fds calls = []"
    and close_closes_one: "closed_fds (close_connection c) = [fd_of c]"
begin

lemma handled_closed:
  "handle_connection handler request send_msg close_connection c s = Returns (Some calls, s') \<Longrightarrow>
   closed_fds calls = [fd_of c]"
  by (auto simp: handle_connection_def obind_eq_Returns close_closes_one send_closes_nothing bind_eq_Some_conv
      split: option.splits)

lemma served_closed:
  "serve_list (handle_connection handler request send_msg close_connection) rounds cs s = (calls, fin) \<Longrightarrow>
   case fin of
     Going cs' s' \<Rightarrow> map fd_of cs = closed_fds calls @ map fd_of cs'
   | Ended e cs' \<Rightarrow> \<exists>c \<in> set cs. map fd_of cs = closed_fds calls @ fd_of c # map fd_of cs' \<and>
       (\<exists>s'. handler (request c) s' = Throws e)
   | _ \<Rightarrow> True"
proof (induction "handle_connection handler request send_msg close_connection" rounds cs s
    arbitrary: calls rule: serve_list.induct)
  case (1 cs s)
  then show ?case by (auto simp: closed_fds_def)
next
  case (2 b rounds cs s)
  let ?hc = "handle_connection handler request send_msg close_connection"
  show ?case
  proof (cases "b \<or> cs = []")
    case True
    with 2 show ?thesis by auto
  next
    case False
    then obtain c cs1 where [simp]: "cs = c # cs1" by (cases cs) auto
    show ?thesis
    proof (cases "?hc c s")
      case (Returns r)
      then obtain io s1 where r: "?hc c s = Returns (io, s1)" by (cases r) auto
      show ?thesis
      proof (cases io)
        case (Some own)
        obtain io' fin' where rest: "serve_list ?hc rounds cs1 s1 = (io', fin')" by (cases "serve_list ?hc rounds cs1 s1")
        from 2(3) False r Some rest have eq: "calls = own @ io'" "fin = fin'" by simp_all
        have "closed_fds calls = fd_of c # closed_fds io'"
          using handled_closed [OF r [unfolded Some]] by (simp add: eq(1))
        with 2(2) False r Some rest show ?thesis by (auto simp: eq(2) split: worker_end.splits)
      qed (use 2(3) False r in auto)
    next
      case (Throws e)
      with 2(3) False have "calls = []" "fin = Ended e cs1" by simp_all
      moreover from Throws have "handler (request c) s = Throws e"
        by (cases "handler (request c) s") (auto simp: handle_connection_def split: option.splits)
      ultimately show ?thesis by (auto simp: closed_fds_def)
    qed (use 2(3) False in auto)
  qed
qed

end

definition tcp_send :: "http_connection \<Rightarrow> string \<Rightarrow> 'ssl io list option" where
  "tcp_send c r = Some (TCPSender_SendMsg c r)"

definition tcp_handle ::
  "(string \<Rightarrow> 's \<Rightarrow> (string option \<times> 's) outcome) \<Rightarrow> http_connection \<Rightarrow> 's \<Rightarrow> ('ssl io list option \<times> 's) outcome" where
  "tcp_handle handler = handle_connection handler tcp_request tcp_send TCPCloser_CloseConnection"

definition tls_handle ::
  "(nat \<Rightarrow> bool) \<Rightarrow> (string \<Rightarrow> 's \<Rightarrow> (string option \<times> 's) outcome) \<Rightarrow> 'ssl https_connection \<Rightarrow> 's \<Rightarrow>
   ('ssl io list option \<times> 's) outcome" where
  "tls_handle want_write handler =
     handle_connection handler tls_request (TLSSender_SendMsg want_write) TLSCloser_CloseConnection"

interpretation tcp_io: connection_io tcp_send TCPCloser_CloseConnection tcp_fd
  by unfold_locales (auto simp: tcp_send_def TCPSender_SendMsg_def TCPCloser_CloseConnection_def closed_fds_def)

text \<open>The writes of the TLS sender: one for each time the library wants to write again, and one more.\<close>

lemma tls_write_loop_Some:
  "tls_write_loop want_write ssl r k = Some calls \<Longrightarrow>
   \<exists>n. calls = replicate (Suc n) (SslWrite ssl r (length_as_int r)) \<and> \<not> want_write (k + n)"
proof (rule tls_write_loop.raw_induct [where P = "\<lambda>want_write ssl r k calls.
    \<exists>n. calls = replicate (Suc n) (SslWrite ssl r (length_as_int r)) \<and> \<not> want_write (k + n)"])
  fix loop :: "(nat \<Rightarrow> bool) \<Rightarrow> 'a \<Rightarrow> string \<Rightarrow> nat \<Rightarrow> 'a io list option" and ww ssl r k calls
  assume IH: "\<And>ww ssl r k calls. loop ww ssl r k = Some calls \<Longrightarrow>
      \<exists>n. calls = replicate (Suc n) (SslWrite ssl r (length_as_int r)) \<and> \<not> ww (k + n)"
    and body: "(if ww k then Option.bind (loop ww ssl r (Suc k)) (\<lambda>calls. Some (SslWrite ssl r (length_as_int r) # calls))
      else Some [SslWrite ssl r (length_as_int r)]) = Some calls"
  show "\<exists>n. calls = replicate (Suc n) (SslWrite ssl r (length_as_int r)) \<and> \<not> ww (k + n)"
  proof (cases "ww k")
    case True
    with body obtain io where io: "loop ww ssl r (Suc k) = Some io" "calls = SslWrite ssl r (length_as_int r) # io"
      by (auto simp: bind_eq_Some_conv)
    from IH [OF io(1)] obtain n where "io = replicate (Suc n) (SslWrite ssl r (length_as_int r))" "\<not> ww (Suc k + n)" by blast
    with io(2) show ?thesis by (intro exI [of _ "Suc n"]) simp
  next
    case False
    with body show ?thesis by (intro exI [of _ 0]) simp
  qed
qed

lemma tls_write_loop_returns:
  "\<not> want_write (k + n) \<Longrightarrow> (\<forall>i < n. want_write (k + i)) \<Longrightarrow>
   tls_write_loop want_write ssl r k = Some (replicate (Suc n) (SslWrite ssl r (length_as_int r)))"
proof (induction n arbitrary: k)
  case 0
  then show ?case by (subst tls_write_loop.simps) simp
next
  case (Suc n)
  then have "tls_write_loop want_write ssl r (Suc k) = Some (replicate (Suc n) (SslWrite ssl r (length_as_int r)))"
    by (intro Suc.IH) auto
  moreover have "want_write k" using Suc.prems(2) by (auto dest: spec [of _ 0])
  ultimately show ?case by (subst tls_write_loop.simps) simp
qed

lemma tls_write_loop_stuck: "(\<forall>i. want_write (k + i)) \<Longrightarrow> tls_write_loop want_write ssl r k = None"
  using tls_write_loop_Some [of want_write ssl r k] by (cases "tls_write_loop want_write ssl r k") blast+

lemma tls_write_loop_ends: "\<not> want_write n \<Longrightarrow> tls_write_loop want_write ssl r 0 \<noteq> None"
proof -
  assume "\<not> want_write n"
  then have "\<exists>k. \<not> want_write k" by blast
  then obtain k where "\<not> want_write k" "\<forall>i < k. want_write i"
    unfolding exists_least_iff [of "\<lambda>k. \<not> want_write k"] by blast
  with tls_write_loop_returns [of want_write 0 k ssl r] show ?thesis by simp
qed

interpretation tls_io: connection_io "TLSSender_SendMsg want_write" TLSCloser_CloseConnection tls_fd for want_write
proof unfold_locales
  fix c :: "'a https_connection" and r calls
  show "TLSSender_SendMsg want_write c r = Some calls \<Longrightarrow> closed_fds calls = []"
    by (auto simp: TLSSender_SendMsg_def closed_fds_def dest!: tls_write_loop_Some)
  show "closed_fds (TLSCloser_CloseConnection c) = [tls_fd c]"
    by (simp add: TLSCloser_CloseConnection_def closed_fds_def)
qed

text \<open>
  Every connection is closed once.  While the rounds of a worker go on, the descriptors it has closed, in
  order, are those of the connections it took from the queue, in the order of the queue, and the others are
  still in the queue.  When an exception of the handler ends them, the connection it was thrown for
  is neither closed nor in the queue any more.  So it is for plain and for TLS connections.
\<close>

theorem served_connections_closed:
  "(serve_list (tcp_handle handler) rounds cs s = (calls, fin) \<longrightarrow>
      (case fin of
         Going cs' s' \<Rightarrow> map tcp_fd cs = closed_fds calls @ map tcp_fd cs'
       | Ended e cs' \<Rightarrow> \<exists>c \<in> set cs. map tcp_fd cs = closed_fds calls @ tcp_fd c # map tcp_fd cs' \<and>
           (\<exists>s'. handler (tcp_request c) s' = Throws e)
       | _ \<Rightarrow> True)) \<and>
   (serve_list (tls_handle want_write handler) rounds ts s = (tls_calls, tls_fin) \<longrightarrow>
      (case tls_fin of
         Going cs' s' \<Rightarrow> map tls_fd ts = closed_fds tls_calls @ map tls_fd cs'
       | Ended e cs' \<Rightarrow> \<exists>c \<in> set ts. map tls_fd ts = closed_fds tls_calls @ tls_fd c # map tls_fd cs' \<and>
           (\<exists>s'. handler (tls_request c) s' = Throws e)
       | _ \<Rightarrow> True))"
  unfolding tcp_handle_def tls_handle_def
  by (intro conjI impI; erule tcp_io.served_closed tls_io.served_closed)

text \<open>Rounds after rounds.\<close>

lemma serve_list_append:
  "serve_list hc (rounds @ later) cs s =
     (case serve_list hc rounds cs s of
        (calls, Going cs' s') \<Rightarrow> map_prod ((@) calls) id (serve_list hc later cs' s')
      | (calls, fin) \<Rightarrow> (calls, fin))"
proof (induction hc rounds cs s rule: serve_list.induct)
  case (1 hc cs s)
  show ?case by (simp add: map_prod_def)
next
  case (2 hc b rounds cs s)
  then show ?case
    by (auto simp: prod.map_comp comp_def map_prod_def split: outcome.splits option.splits prod.splits worker_end.splits)
qed

text \<open>
  C30. The empty request ends the server.  A worker that takes a connection whose request is empty (its peer
  closed it without sending, or sent a zero byte first), after any rounds that went well and from any state of
  the file manager they left, throws: nothing is sent to that connection and it is not closed, the
  descriptors closed are those of the connections taken before it, the connections behind it stay in the
  queue, and the rounds after it are not run.  So it is over TCP and over TLS, in debug and in release
  builds.  A worker made without a queue throws at once in a release build; in a debug build its assertion
  reads a pointer that has no value.
\<close>

theorem empty_request_ends_worker:
  "(queue_sized 100 q \<and> tcp_request c = '''' \<and>
      serve_list (tcp_handle (handle files)) before (contents 100 q) fm = (calls, Going (c # cs) fm1) \<longrightarrow>
      (\<exists>q'. worker_Start ndebug (tcp_handle (handle files)) moved (before @ False # after) (new_worker ToQueue) q fm =
        (calls, Ended OutOfRange q') \<and> contents 100 q' = cs) \<and>
      map tcp_fd (contents 100 q) = closed_fds calls @ tcp_fd c # map tcp_fd cs) \<and>
   (queue_sized 100 p \<and> tls_request d = '''' \<and>
      serve_list (tls_handle want_write (handle files)) before (contents 100 p) fm = (tls_calls, Going (d # ds) fm1) \<longrightarrow>
      (\<exists>p'. worker_Start ndebug (tls_handle want_write (handle files)) moved_tls (before @ False # after) (new_worker ToQueue) p fm =
        (tls_calls, Ended OutOfRange p') \<and> contents 100 p' = ds) \<and>
      map tls_fd (contents 100 p) = closed_fds tls_calls @ tls_fd d # map tls_fd ds) \<and>
   worker_Start ndebug (tcp_handle (handle files)) moved after default_worker q fm =
     (if ndebug then ([], Ended RuntimeError q) else ([], Meaningless))"
proof (intro conjI impI; (elim conjE)?)
  have "parse_http_request '''' = Throws OutOfRange" by code_simp
  then have empty: "handle files '''' m = Throws OutOfRange" for m by (simp add: handle_def)
  have ready: "w_ready (new_worker ToQueue)" "w_queue (new_worker ToQueue) = ToQueue" by (simp_all add: new_worker_def)
  {
    assume q: "queue_sized 100 q" and c: "tcp_request c = ''''"
      and run: "serve_list (tcp_handle (handle files)) before (contents 100 q) fm = (calls, Going (c # cs) fm1)"
    have "serve_list (tcp_handle (handle files)) (before @ False # after) (contents 100 q) fm = (calls, Ended OutOfRange cs)"
      by (simp add: serve_list_append run) (simp add: tcp_handle_def handle_connection_def c empty)
    with worker_refines_list [OF q ready]
    have "seen_as_list (worker_Start ndebug (tcp_handle (handle files)) moved (before @ False # after) (new_worker ToQueue) q fm) =
        (calls, Ended OutOfRange cs)" by metis
    then show "\<exists>q'. worker_Start ndebug (tcp_handle (handle files)) moved (before @ False # after) (new_worker ToQueue) q fm =
        (calls, Ended OutOfRange q') \<and> contents 100 q' = cs" by (rule seen_Ended)
    show "map tcp_fd (contents 100 q) = closed_fds calls @ tcp_fd c # map tcp_fd cs"
      using served_connections_closed [THEN conjunct1, rule_format, OF run] by simp
  }
  {
    assume p: "queue_sized 100 p" and d: "tls_request d = ''''"
      and run: "serve_list (tls_handle want_write (handle files)) before (contents 100 p) fm = (tls_calls, Going (d # ds) fm1)"
    have "serve_list (tls_handle want_write (handle files)) (before @ False # after) (contents 100 p) fm =
        (tls_calls, Ended OutOfRange ds)"
      by (simp add: serve_list_append run) (simp add: tls_handle_def handle_connection_def d empty)
    with worker_refines_list [OF p ready]
    have "seen_as_list (worker_Start ndebug (tls_handle want_write (handle files)) moved_tls (before @ False # after) (new_worker ToQueue) p fm) =
        (tls_calls, Ended OutOfRange ds)" by metis
    then show "\<exists>p'. worker_Start ndebug (tls_handle want_write (handle files)) moved_tls (before @ False # after) (new_worker ToQueue) p fm =
        (tls_calls, Ended OutOfRange p') \<and> contents 100 p' = ds" by (rule seen_Ended)
    show "map tls_fd (contents 100 p) = closed_fds tls_calls @ tls_fd d # map tls_fd ds"
      using served_connections_closed [THEN conjunct2, rule_format, OF run] by simp
  }
qed (simp add: worker_Start_def default_worker_def)

text \<open>
  C36. The TLS sender returns exactly when the library does not want to write for ever; it then has asked it to
  write the response once for each time the library wanted to write again, and once more.  The length it
  gives is that of the response where this fits an \<^verbatim>\<open>int\<close>; of a response of two to four gigabytes it is
  negative, and from four on the response is cut.
\<close>

theorem tls_send_returns:
  "(TLSSender_SendMsg want_write c r = None \<longleftrightarrow> (\<forall>k. want_write k)) \<and>
   (\<not> want_write n \<and> (\<forall>i < n. want_write i) \<longrightarrow>
      TLSSender_SendMsg want_write c r = Some (replicate (Suc n) (SslWrite (tls_ssl c) r (length_as_int r)))) \<and>
   (length r < 2 ^ 31 \<longrightarrow> length_as_int r = int (length r)) \<and>
   (2 ^ 31 \<le> length r \<and> length r < 2 ^ 32 \<longrightarrow> length_as_int r < 0) \<and>
   (2 ^ 32 \<le> length r \<longrightarrow> length_as_int r < int (length r))"
proof (intro conjI)
  show "TLSSender_SendMsg want_write c r = None \<longleftrightarrow> (\<forall>k. want_write k)"
  proof
    show "\<forall>k. want_write k \<Longrightarrow> TLSSender_SendMsg want_write c r = None"
      by (simp add: TLSSender_SendMsg_def tls_write_loop_stuck)
    assume none: "TLSSender_SendMsg want_write c r = None"
    show "\<forall>k. want_write k"
      using tls_write_loop_ends [of want_write _ "tls_ssl c" r] none by (auto simp: TLSSender_SendMsg_def)
  qed
  show "\<not> want_write n \<and> (\<forall>i < n. want_write i) \<longrightarrow>
      TLSSender_SendMsg want_write c r = Some (replicate (Suc n) (SslWrite (tls_ssl c) r (length_as_int r)))"
    using tls_write_loop_returns [of want_write 0 n "tls_ssl c" r] by (simp add: TLSSender_SendMsg_def)
qed (simp_all add: length_as_int_small length_as_int_large length_as_int_bound)

theorem tls_send_returns_witness:
  "TLSSender_SendMsg (\<lambda>k. k < 2) (HTTPSConnectionObject 5 ''ssl'' '''') ''hi'' =
     Some [SslWrite ''ssl'' ''hi'' 2, SslWrite ''ssl'' ''hi'' 2, SslWrite ''ssl'' ''hi'' 2]"
proof -
  note laws = tls_send_returns [of "\<lambda>k. k < 2" "HTTPSConnectionObject 5 ''ssl'' ''''" "''hi''" 2]
  from laws have "length_as_int ''hi'' = 2" by simp
  with laws show ?thesis by (auto simp: HTTPSConnectionObject_def numeral_3_eq_3 numeral_2_eq_2)
qed

text \<open>The samples: a handler that counts its calls and answers all requests but one, and a queue of three.\<close>

definition sample_handler :: "string \<Rightarrow> nat \<Rightarrow> (string option \<times> nat) outcome" where
  "sample_handler request n = Returns (if request = ''bad'' then None else Some (request @ ''!''), n + 1)"

definition sample_connections :: "http_connection list" where
  "sample_connections =
     [\<lparr>tcp_fd = 7, tcp_request = ''a''\<rparr>, \<lparr>tcp_fd = 8, tcp_request = ''bad''\<rparr>, \<lparr>tcp_fd = 9, tcp_request = ''c''\<rparr>]"

lemma sample_queue:
  assumes "length cs < 100"
  shows "\<exists>q. queue_sized 100 q \<and> contents 100 q = cs"
proof -
  have "list_run 99 (map Push cs) xs = Some ([], xs @ cs)" if "length xs + length cs < 100" for xs
    using that by (induction cs arbitrary: xs) auto
  from this [of "[]"] assms have "list_run (100 - 1) (map Push cs) (contents 100 (new_queue 100 d)) = Some ([], cs)" for d
    by (simp add: contents_new)
  from lock_free.refines_list [OF new_queue_sized this] show ?thesis by auto
qed

theorem worker_refines_list_witness:
  "\<exists>q. contents 100 q = sample_connections \<and>
     seen_as_list (worker_Start True (tcp_handle sample_handler) id [False, True, False] (new_worker ToQueue) q 0) =
     ([Send 7 ''a!'' :: unit io, Close 7, Close 8], Going [\<lparr>tcp_fd = 9, tcp_request = ''c''\<rparr>] 2)"
proof -
  obtain q where q: "queue_sized 100 q" "contents 100 q = sample_connections"
    using sample_queue [of sample_connections] by (auto simp: sample_connections_def)
  have "serve_list (tcp_handle sample_handler) [False, True, False] sample_connections 0 =
      ([Send 7 ''a!'' :: unit io, Close 7, Close 8], Going [\<lparr>tcp_fd = 9, tcp_request = ''c''\<rparr>] 2)"
    by code_simp
  with worker_refines_list [OF q(1), of "new_worker ToQueue" True
      "tcp_handle sample_handler :: _ \<Rightarrow> _ \<Rightarrow> (unit io list option \<times> _) outcome" id "[False, True, False]" 0] q(2)
  show ?thesis by (intro exI [of _ q]) (simp add: new_worker_def)
qed

theorem served_connections_closed_witness:
  "\<exists>(calls :: unit io list) cs' s'. serve_list (tcp_handle sample_handler) [False, True, False] sample_connections 0 = (calls, Going cs' s') \<and>
     map tcp_fd sample_connections = closed_fds calls @ map tcp_fd cs' \<and> closed_fds calls = [7, 8]"
proof -
  have run: "serve_list (tcp_handle sample_handler) [False, True, False] sample_connections 0 =
      ([Send 7 ''a!'' :: unit io, Close 7, Close 8], Going [\<lparr>tcp_fd = 9, tcp_request = ''c''\<rparr>] 2)"
    by code_simp
  with served_connections_closed [THEN conjunct1, rule_format, OF run]
  show ?thesis by (auto simp: closed_fds_def)
qed

definition ending_requests :: "http_connection list" where
  "ending_requests =
     [\<lparr>tcp_fd = 6, tcp_request = ''BREW / HTTP/1.1''\<rparr>, \<lparr>tcp_fd = 7, tcp_request = ''''\<rparr>,
      \<lparr>tcp_fd = 8, tcp_request = ''GET / HTTP/1.1''\<rparr>]"

theorem empty_request_ends_worker_witness:
  "\<exists>q q'. contents 100 q = ending_requests \<and>
     worker_Start True (tcp_handle (handle Map.empty)) id [False, False, False] (new_worker ToQueue) q new_file_manager =
       ([Close 6 :: unit io], Ended OutOfRange q') \<and>
     contents 100 q' = [\<lparr>tcp_fd = 8, tcp_request = ''GET / HTTP/1.1''\<rparr>]"
proof -
  obtain q where q: "queue_sized 100 q" "contents 100 q = ending_requests"
    using sample_queue [of ending_requests] by (auto simp: ending_requests_def)
  have before: "serve_list (tcp_handle (handle Map.empty)) [False] (contents 100 q) new_file_manager =
      ([Close 6 :: unit io], Going (\<lparr>tcp_fd = 7, tcp_request = ''''\<rparr> # [\<lparr>tcp_fd = 8, tcp_request = ''GET / HTTP/1.1''\<rparr>]) new_file_manager)"
  proof -
    have "case parse_http_request ''BREW / HTTP/1.1'' of Returns (Inl e) \<Rightarrow> True | _ \<Rightarrow> False" by code_simp
    then obtain e where "parse_http_request ''BREW / HTTP/1.1'' = Returns (Inl e)" by (auto split: outcome.splits sum.splits)
    then show ?thesis
      by (simp add: q(2) ending_requests_def tcp_handle_def handle_connection_def handle_def TCPCloser_CloseConnection_def)
  qed
  have "\<exists>q'. worker_Start True (tcp_handle (handle Map.empty)) id ([False] @ False # [False]) (new_worker ToQueue) q new_file_manager =
       ([Close 6 :: unit io], Ended OutOfRange q') \<and> contents 100 q' = [\<lparr>tcp_fd = 8, tcp_request = ''GET / HTTP/1.1''\<rparr>]"
    by (rule empty_request_ends_worker [THEN conjunct1, rule_format, OF conjI [OF q(1) conjI [OF _ before]], THEN conjunct1]) simp
  with q(2) show ?thesis unfolding append.simps by blast
qed

end
