(* ===== verification/AcceptLoop.thy ===== *)
theory AcceptLoop
  imports Connection
begin

text \<open>
  \<^verbatim>\<open>include/simpleserv/server/tcp_server.hpp\<close>, \<^verbatim>\<open>tls_server.hpp\<close> and \<^verbatim>\<open>constants.hpp\<close>: starting a server,
  and the loop that accepts connections, reads one request from each and hands it to the thread pool.
  The system calls and the TLS library are arguments: a round of the loop is what they answer in it.
  Log lines are left out.
\<close>

section \<open>Constants and servers\<close>

definition MAXBUFLEN :: nat where "MAXBUFLEN = 4096"
definition HTTP_PORT :: u32 where "HTTP_PORT = 80"
definition HTTPS_PORT :: u32 where "HTTPS_PORT = 443"

definition EXIT_FAILURE :: int where "EXIT_FAILURE = 1"
definition EAGAIN :: int where "EAGAIN = 11"

text \<open>The parts of the two server classes that are alike; \<open>srv_errno\<close> is \<^verbatim>\<open>errno\<close> of the accepting thread.\<close>

record 'c server =
  srv_port :: u32
  srv_sockfd :: int
  srv_client_fd :: int
  srv_errno :: int
  srv_pool :: "'c threadpool"

definition TCPServer :: "u32 \<Rightarrow> http_connection server" where
  "TCPServer port =
     \<lparr>srv_port = port, srv_sockfd = -1, srv_client_fd = -1, srv_errno = 0,
      srv_pool = new_threadpool 4 \<lparr>tcp_fd = -1, tcp_request = ''''\<rparr>\<rparr>"

text \<open>
  The members of \<^verbatim>\<open>TLSServer\<close> for the two descriptors are not initialised: their values until \<^verbatim>\<open>Start\<close>
  and the first \<^verbatim>\<open>accept4\<close> are arguments.
\<close>

definition TLSServer :: "int \<Rightarrow> int \<Rightarrow> 'ssl \<Rightarrow> u32 \<Rightarrow> 'ssl https_connection server" where
  "TLSServer sockfd0 client_fd0 null port =
     \<lparr>srv_port = port, srv_sockfd = sockfd0, srv_client_fd = client_fd0, srv_errno = 0,
      srv_pool = new_threadpool 4 (HTTPSConnectionObject (-1) null '''')\<rparr>"

section \<open>Start\<close>

text \<open>What the calls of \<^verbatim>\<open>Start\<close> return.  \<open>Inl\<close> is the code \<^verbatim>\<open>quick_exit\<close> ends the process with.\<close>

record start_calls =
  gai_result :: int
  socket_result :: int
  bind_result :: int
  listen_result :: int

definition tcp_Start :: "start_calls \<Rightarrow> 'c server \<Rightarrow> int + 'c server" where
  "tcp_Start calls srv =
     (if gai_result calls \<noteq> 0 then Inl EXIT_FAILURE
      else
        let srv = srv\<lparr>srv_sockfd := socket_result calls\<rparr> in
        if srv_sockfd srv = -1 then Inl 1
        else if bind_result calls = -1 then Inl 1
        else if listen_result calls = -1 then Inl 1
        else Inr srv)"

record tls_start_calls = start_calls +
  ctx_result :: bool
  certificate_result :: int
  key_result :: int

definition tls_Start :: "tls_start_calls \<Rightarrow> 'c server \<Rightarrow> int + 'c server" where
  "tls_Start calls srv =
     (if gai_result calls \<noteq> 0 then Inl EXIT_FAILURE
      else
        let srv = srv\<lparr>srv_sockfd := socket_result calls\<rparr> in
        if srv_sockfd srv = -1 then Inl 1
        else if bind_result calls = -1 then Inl 1
        else if listen_result calls = -1 then Inl 1
        else if \<not> ctx_result calls then Inl EXIT_FAILURE
        else if certificate_result calls \<noteq> 1 then Inl EXIT_FAILURE
        else if key_result calls \<noteq> 1 then Inl EXIT_FAILURE
        else Inr srv)"

section \<open>The accept loop\<close>

text \<open>
  How the loop stands after some rounds: it returned because it was asked to stop or because a read
  failed, it waits in a read that gets no answer, or it goes on.
\<close>

datatype loop_status = Stopped | Failed | Waiting | Running

text \<open>
  An answer of \<^verbatim>\<open>recv\<close>: the count it returns, \<^verbatim>\<open>errno\<close> afterwards where it sets it, and the bytes it
  stored, which are as many as it says and at most as many as were asked for.
\<close>

record recv_answer =
  ra_count :: int
  ra_errno :: "int option"
  ra_bytes :: string

record tcp_round =
  tr_stop :: bool
  tr_fd :: int
  tr_errno :: "int option"
  tr_recvs :: "recv_answer list"

definition set_errno :: "int option \<Rightarrow> 'c server \<Rightarrow> 'c server" where
  "set_errno e srv = (case e of None \<Rightarrow> srv | Some n \<Rightarrow> srv\<lparr>srv_errno := n\<rparr>)"

text \<open>The first \<^verbatim>\<open>recv\<close> and the loop that repeats it; \<open>None\<close> when no answer is left.\<close>

fun recv_loop :: "recv_answer list \<Rightarrow> 'c server \<Rightarrow> (recv_answer \<times> 'c server) option" where
  "recv_loop [] srv = None"
| "recv_loop (a # as) srv =
     (let srv = set_errno (ra_errno a) srv
      in if ra_count a = -1 \<and> srv_errno srv = EAGAIN then recv_loop as srv else Some (a, srv))"

text \<open>
  The zeroed buffer after the read and after \<^verbatim>\<open>buf.at(numbytes) = '\0'\<close>, read back as a C string.  The
  conversion of a negative count gives an index out of range.
\<close>

definition request_in_buffer :: "recv_answer \<Rightarrow> string outcome" where
  "request_in_buffer a =
     (let buf = take MAXBUFLEN (ra_bytes a @ replicate MAXBUFLEN (CHR 0x00))
      in if 0 \<le> ra_count a \<and> nat (ra_count a) < MAXBUFLEN
         then Returns (takeWhile (\<lambda>c. c \<noteq> CHR 0x00) (buf[nat (ra_count a) := CHR 0x00]))
         else Throws OutOfRange)"

definition pool_task :: "'c \<Rightarrow> 'c server \<Rightarrow> 'c server outcome" where
  "pool_task c srv = obind (add_task c (srv_pool srv)) (\<lambda>tp. Returns (srv\<lparr>srv_pool := tp\<rparr>))"

fun tcp_AcceptIncoming ::
  "tcp_round list \<Rightarrow> http_connection server \<Rightarrow> (loop_status \<times> http_connection server) outcome" where
  "tcp_AcceptIncoming [] srv = Returns (Running, srv)"
| "tcp_AcceptIncoming (r # rounds) srv =
     (if tr_stop r then Returns (Stopped, srv)
      else
        let srv = set_errno (tr_errno r) (srv\<lparr>srv_client_fd := tr_fd r\<rparr>) in
        if srv_client_fd srv \<noteq> -1 \<and> srv_errno srv \<noteq> EAGAIN then
          (case recv_loop (tr_recvs r) srv of
             None \<Rightarrow> Returns (Waiting, srv)
           | Some (a, srv) \<Rightarrow>
               if ra_count a = -1 then Returns (Failed, srv)
               else
                 obind (request_in_buffer a) (\<lambda>request_str.
                 obind (pool_task \<lparr>tcp_fd = srv_client_fd srv, tcp_request = request_str\<rparr> srv) (\<lambda>srv.
                   tcp_AcceptIncoming rounds srv)))
        else tcp_AcceptIncoming rounds srv)"

text \<open>
  In a round of the TLS loop: the handle \<^verbatim>\<open>wolfSSL_new\<close> returns, which may be the null pointer, and
  for each read the answer and whether \<^verbatim>\<open>wolfSSL_get_error(ssl, ret)\<close>, with \<^verbatim>\<open>ret\<close> the result of
  \<^verbatim>\<open>wolfSSL_accept\<close>, is then \<^verbatim>\<open>WANT_READ\<close>.  Nothing but the null handle itself comes of it.
\<close>

record 'ssl tls_round =
  lr_stop :: bool
  lr_fd :: int
  lr_errno :: "int option"
  lr_ssl :: 'ssl
  lr_reads :: "(recv_answer \<times> bool) list"

fun tls_read_loop :: "(recv_answer \<times> bool) list \<Rightarrow> 'c server \<Rightarrow> (recv_answer \<times> 'c server) option" where
  "tls_read_loop [] srv = None"
| "tls_read_loop ((a, want_read) # as) srv =
     (let srv = set_errno (ra_errno a) srv
      in if want_read then tls_read_loop as srv else Some (a, srv))"

fun tls_AcceptIncoming ::
  "'ssl tls_round list \<Rightarrow> 'ssl https_connection server \<Rightarrow> (loop_status \<times> 'ssl https_connection server) outcome" where
  "tls_AcceptIncoming [] srv = Returns (Running, srv)"
| "tls_AcceptIncoming (r # rounds) srv =
     (if lr_stop r then Returns (Stopped, srv)
      else
        let srv = set_errno (lr_errno r) (srv\<lparr>srv_client_fd := lr_fd r\<rparr>) in
        if srv_client_fd srv \<noteq> -1 \<and> srv_errno srv \<noteq> EAGAIN then
          (case tls_read_loop (lr_reads r) srv of
             None \<Rightarrow> Returns (Waiting, srv)
           | Some (a, srv) \<Rightarrow>
               if ra_count a < 0 then Returns (Failed, srv)
               else
                 obind (request_in_buffer a) (\<lambda>request_str.
                 obind (pool_task (HTTPSConnectionObject (srv_client_fd srv) (lr_ssl r) request_str) srv) (\<lambda>srv.
                   tls_AcceptIncoming rounds srv)))
        else tls_AcceptIncoming rounds srv)"

section \<open>Facts: what reaches the thread pool\<close>

abbreviation pending :: "'c server \<Rightarrow> 'c list" where
  "pending srv \<equiv> contents 100 (tp_queue (srv_pool srv))"

definition server_ok :: "'c server \<Rightarrow> bool" where
  "server_ok srv \<longleftrightarrow> queue_sized 100 (tp_queue (srv_pool srv))"

lemma server_ok_new: "server_ok (TCPServer port)" "pending (TCPServer port) = []"
  by (simp_all add: server_ok_def TCPServer_def new_threadpool_def new_queue_sized contents_new)

lemma set_errno_simps [simp]:
  "srv_pool (set_errno e srv) = srv_pool srv" "srv_client_fd (set_errno e srv) = srv_client_fd srv"
  "srv_sockfd (set_errno e srv) = srv_sockfd srv" "srv_port (set_errno e srv) = srv_port srv"
  "srv_errno (set_errno e srv) = (case e of None \<Rightarrow> srv_errno srv | Some n \<Rightarrow> n)"
  "server_ok (set_errno e srv) = server_ok srv"
  by (cases e; simp add: set_errno_def server_ok_def)+

lemma pool_task_room:
  assumes "server_ok srv" and "length (pending srv) < 99"
  shows "\<exists>srv'. pool_task c srv = Returns srv' \<and> server_ok srv' \<and> pending srv' = pending srv @ [c] \<and>
    srv_errno srv' = srv_errno srv"
  using lock_free.put_room [of 100 "tp_queue (srv_pool srv)" c] assms
  by (auto simp: pool_task_def add_task_def server_ok_def)

lemma tcp_accept_append:
  "tcp_AcceptIncoming (rs @ rs') srv =
     obind (tcp_AcceptIncoming rs srv) (\<lambda>(st, srv').
       if st = Running then tcp_AcceptIncoming rs' srv' else Returns (st, srv'))"
  by (induction rs srv rule: tcp_AcceptIncoming.induct)
     (auto simp: Let_def obind_assoc split: option.splits prod.splits intro!: obind_cong)

text \<open>The answer a read ends with, and what becomes of it when it is a request.\<close>

definition final_answer :: "tcp_round \<Rightarrow> recv_answer" where
  "final_answer r = hd (dropWhile (\<lambda>a. ra_count a = -1 \<and> ra_errno a = Some EAGAIN) (tr_recvs r))"

definition task_of :: "tcp_round \<Rightarrow> http_connection list" where
  "task_of r =
     (if tr_fd r = -1 then []
      else [\<lparr>tcp_fd = tr_fd r, tcp_request = takeWhile (\<lambda>c. c \<noteq> CHR 0x00) (ra_bytes (final_answer r))\<rparr>])"

text \<open>The buffer need not be built to know what is read from it.\<close>

lemma request_in_buffer_code [code]:
  "request_in_buffer a =
     (if 0 \<le> ra_count a \<and> ra_count a < 4096
      then Returns (takeWhile (\<lambda>c. c \<noteq> CHR 0x00) (take (nat (ra_count a)) (ra_bytes a)))
      else Throws OutOfRange)"
proof (cases "0 \<le> ra_count a \<and> ra_count a < 4096")
  case True
  define n where "n = nat (ra_count a)"
  with True have n: "n < MAXBUFLEN" by (simp add: MAXBUFLEN_def nat_less_iff)
  have zero: "takeWhile (\<lambda>c. c \<noteq> CHR 0x00) (xs @ CHR 0x00 # ys) = takeWhile (\<lambda>c. c \<noteq> CHR 0x00) xs" for xs ys
    by (induction xs) auto
  have zeros: "takeWhile (\<lambda>c. c \<noteq> CHR 0x00) (xs @ replicate k (CHR 0x00)) = takeWhile (\<lambda>c. c \<noteq> CHR 0x00) xs" for xs k
    by (induction xs) (auto simp: takeWhile_eq_Nil_iff split: nat.split)
  let ?buf = "take MAXBUFLEN (ra_bytes a @ replicate MAXBUFLEN (CHR 0x00))"
  have "?buf[n := CHR 0x00] = take n (ra_bytes a) @ replicate (n - length (ra_bytes a)) (CHR 0x00) @ CHR 0x00 # drop (Suc n) ?buf"
    using n by (simp add: upd_conv_take_nth_drop min_def)
  then have "takeWhile (\<lambda>c. c \<noteq> CHR 0x00) (?buf[n := CHR 0x00]) = takeWhile (\<lambda>c. c \<noteq> CHR 0x00) (take n (ra_bytes a))"
    using zero [of "take n (ra_bytes a) @ replicate (n - length (ra_bytes a)) (CHR 0x00)"] zeros by simp
  with True n show ?thesis by (simp add: request_in_buffer_def Let_def n_def)
next
  case False
  then have "\<not> (0 \<le> ra_count a \<and> nat (ra_count a) < MAXBUFLEN)" by (auto simp: MAXBUFLEN_def nat_less_iff)
  with False show ?thesis by (simp add: request_in_buffer_def)
qed

lemma request_in_buffer_eq:
  assumes "ra_count a = int (length (ra_bytes a))" and "length (ra_bytes a) \<le> MAXBUFLEN - 1"
  shows "request_in_buffer a = Returns (takeWhile (\<lambda>c. c \<noteq> CHR 0x00) (ra_bytes a))"
  using assms by (simp add: request_in_buffer_code MAXBUFLEN_def)

section \<open>The loops, round by round\<close>

type_synonym ('r, 'c) accepting = "'r \<Rightarrow> 'c server \<Rightarrow> ((loop_status + 'c option) \<times> 'c server) outcome"

definition accept_round ::
  "tcp_round \<Rightarrow> http_connection server \<Rightarrow> ((loop_status + http_connection option) \<times> http_connection server) outcome" where
  "accept_round r srv =
     (if tr_stop r then Returns (Inl Stopped, srv)
      else
        let srv = set_errno (tr_errno r) (srv\<lparr>srv_client_fd := tr_fd r\<rparr>) in
        if srv_client_fd srv \<noteq> -1 \<and> srv_errno srv \<noteq> EAGAIN then
          (case recv_loop (tr_recvs r) srv of
             None \<Rightarrow> Returns (Inl Waiting, srv)
           | Some (a, srv) \<Rightarrow>
               if ra_count a = -1 then Returns (Inl Failed, srv)
               else obind (request_in_buffer a) (\<lambda>request_str.
                 Returns (Inr (Some \<lparr>tcp_fd = srv_client_fd srv, tcp_request = request_str\<rparr>), srv)))
        else Returns (Inr None, srv))"

text \<open>The loop is its rounds.\<close>

lemma accept_rounds:
  "tcp_AcceptIncoming (r # rounds) srv =
     obind (accept_round r srv) (\<lambda>(result, srv).
       case result of
         Inl status \<Rightarrow> Returns (status, srv)
       | Inr None \<Rightarrow> tcp_AcceptIncoming rounds srv
       | Inr (Some c) \<Rightarrow> obind (pool_task c srv) (tcp_AcceptIncoming rounds))"
  by (simp add: accept_round_def Let_def obind_assoc split: option.split)

text \<open>The same for the TLS loop.\<close>

definition tls_accept_round ::
  "'ssl tls_round \<Rightarrow> 'ssl https_connection server \<Rightarrow>
   ((loop_status + 'ssl https_connection option) \<times> 'ssl https_connection server) outcome" where
  "tls_accept_round r srv =
     (if lr_stop r then Returns (Inl Stopped, srv)
      else
        let srv = set_errno (lr_errno r) (srv\<lparr>srv_client_fd := lr_fd r\<rparr>) in
        if srv_client_fd srv \<noteq> -1 \<and> srv_errno srv \<noteq> EAGAIN then
          (case tls_read_loop (lr_reads r) srv of
             None \<Rightarrow> Returns (Inl Waiting, srv)
           | Some (a, srv) \<Rightarrow>
               if ra_count a < 0 then Returns (Inl Failed, srv)
               else obind (request_in_buffer a) (\<lambda>request_str.
                 Returns (Inr (Some (HTTPSConnectionObject (srv_client_fd srv) (lr_ssl r) request_str)), srv)))
        else Returns (Inr None, srv))"

lemma tls_accept_rounds:
  "tls_AcceptIncoming (r # rounds) srv =
     obind (tls_accept_round r srv) (\<lambda>(result, srv).
       case result of
         Inl status \<Rightarrow> Returns (status, srv)
       | Inr None \<Rightarrow> tls_AcceptIncoming rounds srv
       | Inr (Some c) \<Rightarrow> obind (pool_task c srv) (tls_AcceptIncoming rounds))"
  by (simp add: tls_accept_round_def Let_def obind_assoc split: option.split)

definition tls_final_answer :: "'ssl tls_round \<Rightarrow> recv_answer" where
  "tls_final_answer r = fst (hd (dropWhile snd (lr_reads r)))"

definition tls_task_of :: "'ssl tls_round \<Rightarrow> 'ssl https_connection list" where
  "tls_task_of r =
     (if lr_fd r = -1 then []
      else [HTTPSConnectionObject (lr_fd r) (lr_ssl r)
        (takeWhile (\<lambda>c. c \<noteq> CHR 0x00) (ra_bytes (tls_final_answer r)))])"

section \<open>Facts: how the loops stop serving\<close>

text \<open>
  A stale \<open>errno\<close>.  The loops ask \<open>errno\<close> whether a successful accept failed.  Once it is \<open>EAGAIN\<close>, as
  it is after the first round in which nobody connects to the non-blocking socket, and as long as
  successful accepts leave it alone, both loops go on for any number of rounds and hand nothing to the
  workers, however many connections arrive: each is neither answered nor closed.
\<close>

theorem stale_errno_drops_connections:
  assumes "srv_errno srv = EAGAIN" and "srv_errno tls = EAGAIN"
    and "\<forall>r \<in> set rounds. \<not> tr_stop r \<and> tr_errno r \<in> {None, Some EAGAIN}"
    and "\<forall>r \<in> set tls_rounds. \<not> lr_stop r \<and> lr_errno r \<in> {None, Some EAGAIN}"
  shows "(\<exists>srv'. tcp_AcceptIncoming rounds srv = Returns (Running, srv') \<and> srv_pool srv' = srv_pool srv) \<and>
    (\<exists>tls'. tls_AcceptIncoming tls_rounds tls = Returns (Running, tls') \<and> srv_pool tls' = srv_pool tls)"
proof
  show "\<exists>srv'. tcp_AcceptIncoming rounds srv = Returns (Running, srv') \<and> srv_pool srv' = srv_pool srv"
    using assms(1,3)
  proof (induction rounds arbitrary: srv)
    case (Cons r rounds)
    let ?srv = "set_errno (tr_errno r) (srv\<lparr>srv_client_fd := tr_fd r\<rparr>)"
    from Cons.prems have "srv_errno ?srv = EAGAIN" by auto
    moreover from this Cons.prems(2) have "\<exists>srv'. tcp_AcceptIncoming rounds ?srv = Returns (Running, srv') \<and>
        srv_pool srv' = srv_pool ?srv"
      by (intro Cons.IH) auto
    ultimately show ?case using Cons.prems(2) by (auto simp: Let_def)
  qed simp
  show "\<exists>tls'. tls_AcceptIncoming tls_rounds tls = Returns (Running, tls') \<and> srv_pool tls' = srv_pool tls"
    using assms(2,4)
  proof (induction tls_rounds arbitrary: tls)
    case (Cons r rounds)
    let ?srv = "set_errno (lr_errno r) (tls\<lparr>srv_client_fd := lr_fd r\<rparr>)"
    from Cons.prems have "srv_errno ?srv = EAGAIN" by auto
    moreover from this Cons.prems(2) have "\<exists>srv'. tls_AcceptIncoming rounds ?srv = Returns (Running, srv') \<and>
        srv_pool srv' = srv_pool ?srv"
      by (intro Cons.IH) auto
    ultimately show ?case using Cons.prems(2) by (auto simp: Let_def)
  qed simp
qed

definition quiet_round :: tcp_round where
  "quiet_round = \<lparr>tr_stop = False, tr_fd = -1, tr_errno = Some EAGAIN, tr_recvs = []\<rparr>"

definition connecting_round :: "int \<Rightarrow> tcp_round" where
  "connecting_round fd = \<lparr>tr_stop = False, tr_fd = fd, tr_errno = None,
     tr_recvs = [\<lparr>ra_count = 14, ra_errno = None, ra_bytes = ''GET / HTTP/1.1''\<rparr>]\<rparr>"

theorem stale_errno_drops_connections_witness:
  "\<exists>srv. tcp_AcceptIncoming [quiet_round, connecting_round 5, connecting_round 6] (TCPServer HTTP_PORT) =
       Returns (Running, srv) \<and> pending srv = []"
proof -
  let ?s = "TCPServer HTTP_PORT"
  let ?s1 = "set_errno (Some EAGAIN) (?s\<lparr>srv_client_fd := -1\<rparr>)"
  let ?t = "set_errno (Some EAGAIN) (TLSServer 0 0 (0::nat) HTTPS_PORT)"
  obtain srv where srv: "tcp_AcceptIncoming [connecting_round 5, connecting_round 6] ?s1 = Returns (Running, srv)"
    "srv_pool srv = srv_pool ?s1"
    using stale_errno_drops_connections [of ?s1 ?t "[connecting_round 5, connecting_round 6]" "[]"]
    by (auto simp: connecting_round_def)
  have "tcp_AcceptIncoming [quiet_round, connecting_round 5, connecting_round 6] ?s =
      tcp_AcceptIncoming [connecting_round 5, connecting_round 6] ?s1"
    by (subst tcp_AcceptIncoming.simps(2)) (simp add: quiet_round_def Let_def del: tcp_AcceptIncoming.simps)
  with srv show ?thesis by (simp add: server_ok_new)
qed

lemma tls_accept_append:
  "tls_AcceptIncoming (rs @ rs') srv =
     obind (tls_AcceptIncoming rs srv) (\<lambda>(st, srv').
       if st = Running then tls_AcceptIncoming rs' srv' else Returns (st, srv'))"
  by (induction rs srv rule: tls_AcceptIncoming.induct)
     (auto simp: Let_def obind_assoc split: option.splits prod.splits intro!: obind_cong)

end
