(* ===== verification/SharedFiles.thy ===== *)
theory SharedFiles
  imports HttpHandler
begin

text \<open>
  The static \<^verbatim>\<open>file_manager\<close> of \<^verbatim>\<open>http_handler.hpp\<close> as the threads share it.  Its mutexes, and the one of
  \<^verbatim>\<open>CacheFileFetcher\<close>, are declared and never locked, and nothing else in the code makes one worker
  synchronise with another: the atomics they write, the head and the size of the queue, are never loaded with
  acquire by \<^verbatim>\<open>pop\<close> or \<^verbatim>\<open>push\<close> (\<^verbatim>\<open>lock_free_queue.hpp\<close>).  So two calls of the handler by different workers count as
  unordered whenever they happen (an order that the allocator may make by chance is not counted), and if they
  use the maps in conflicting ways the behaviour is undefined.
\<close>

section \<open>How a request uses the two maps\<close>

text \<open>
  \<^verbatim>\<open>CacheFileFetcher::get_file\<close> calls \<^verbatim>\<open>find\<close> on the cache and, in \<^verbatim>\<open>DiskFileFetcher::get_file\<close>, on the
  descriptors, which only looks.  A file found in either is then taken with \<^verbatim>\<open>operator[]\<close>, which for data races
  counts as a modification of the map, and one found on the disk is inserted as well.
\<close>

datatype cache_use = NoUse | Looks | Modifies

definition use_at :: "file_manager \<Rightarrow> string \<Rightarrow> cache_use" where
  "use_at fm full_path =
     (if fm_cache fm full_path = None \<and> fm_descriptors fm full_path = None then Looks else Modifies)"

definition use_of :: "string \<Rightarrow> file_manager \<Rightarrow> cache_use" where
  "use_of s fm =
     (case parse_http_request s of
        Returns (Inr request) \<Rightarrow>
          (case convert_to_filedirectory (req_path request) of Returns p \<Rightarrow> use_at fm p | _ \<Rightarrow> NoUse)
      | _ \<Rightarrow> NoUse)"

fun conflict :: "cache_use \<Rightarrow> cache_use \<Rightarrow> bool" where
  "conflict Modifies u \<longleftrightarrow> u \<noteq> NoUse"
| "conflict u Modifies \<longleftrightarrow> u \<noteq> NoUse"
| "conflict _ _ \<longleftrightarrow> False"

section \<open>The handler of a thread\<close>

text \<open>The manager, and who has used it and how.\<close>

record 'w shared_files =
  sf_manager :: file_manager
  sf_uses :: "('w \<times> cache_use) list"

definition new_shared_files :: "file_manager \<Rightarrow> 'w shared_files" where
  "new_shared_files fm = \<lparr>sf_manager = fm, sf_uses = []\<rparr>"

definition races :: "'w \<Rightarrow> cache_use \<Rightarrow> ('w \<times> cache_use) list \<Rightarrow> bool" where
  "races w u uses \<longleftrightarrow> list_ex (\<lambda>(v, u'). v \<noteq> w \<and> conflict u u') uses"

definition handle_shared ::
  "disk \<Rightarrow> 'w \<Rightarrow> string \<Rightarrow> 'w shared_files \<Rightarrow> (string option \<times> 'w shared_files) outcome" where
  "handle_shared files w s sf =
     (let u = use_of s (sf_manager sf) in
      if races w u (sf_uses sf) then Undefined
      else obind (handle files s (sf_manager sf)) (\<lambda>(response, fm).
        Returns (response, \<lparr>sf_manager = fm, sf_uses = sf_uses sf @ [(w, u)]\<rparr>)))"

section \<open>Facts\<close>

lemma conflict_sym: "conflict u v = conflict v u"
  by (cases u; cases v) simp_all

lemma conflict_Modifies: "conflict u v \<Longrightarrow> u = Modifies \<or> v = Modifies"
  by (cases u; cases v) simp_all

lemma handle_shared_Returns:
  "handle_shared files w s sf = Returns (r, sf') \<longleftrightarrow>
   \<not> races w (use_of s (sf_manager sf)) (sf_uses sf) \<and> handle files s (sf_manager sf) = Returns (r, sf_manager sf') \<and>
   sf_uses sf' = sf_uses sf @ [(w, use_of s (sf_manager sf))]"
  by (auto simp: handle_shared_def Let_def obind_eq_Returns)

lemma handle_shared_free:
  "\<not> races w (use_of s (sf_manager sf)) (sf_uses sf) \<Longrightarrow> handle files s (sf_manager sf) = Returns (r, fm) \<Longrightarrow>
   handle_shared files w s sf = Returns (r, \<lparr>sf_manager = fm, sf_uses = sf_uses sf @ [(w, use_of s (sf_manager sf))]\<rparr>)"
  by (simp add: handle_shared_def)

text \<open>A request for no file that has a descriptor only looks.\<close>

definition finds :: "descriptors \<Rightarrow> string \<Rightarrow> bool" where
  "finds fds s =
     (case parse_http_request s of
        Returns (Inr r) \<Rightarrow> fds (''../webdir'' @ path_part (req_path r)) \<noteq> None
      | _ \<Rightarrow> False)"

lemma use_of_quiet:
  assumes "cache_agrees files fm" and "\<not> finds (fm_descriptors fm) s"
  shows "use_of s fm \<noteq> Modifies"
proof -
  have "fm_cache fm p = None" if "fm_descriptors fm p = None" for p
  proof (cases "fm_cache fm p")
    case (Some e)
    with assms(1) have "disk_get_file files (fm_descriptors fm) p = Inr (ce_value e)" by (simp add: cache_agrees_def)
    with that show ?thesis by (simp add: disk_get_file_def)
  qed
  with assms(2) show ?thesis
    by (auto simp: use_of_def use_at_def finds_def convert_to_filedirectory_def remove_query_eq
        split: outcome.splits sum.splits)
qed

text \<open>No race can come up while there is one worker only, or while nobody modifies.\<close>

definition calm :: "nat \<Rightarrow> nat shared_files \<Rightarrow> bool" where
  "calm workers sf = list_all (\<lambda>(w, u). w < workers \<and> (workers = 1 \<or> u \<noteq> Modifies)) (sf_uses sf)"

lemma calm_new: "calm workers (new_shared_files fm)"
  by (simp add: calm_def new_shared_files_def)

lemma calm_handle:
  assumes "calm workers sf" and "w < workers" and "workers = 1 \<or> \<not> finds (fm_descriptors (sf_manager sf)) s"
    and "cache_agrees files (sf_manager sf)" and "handle files s (sf_manager sf) = Returns (r, fm)"
  shows "\<exists>sf'. handle_shared files w s sf = Returns (r, sf') \<and> sf_manager sf' = fm \<and> calm workers sf'"
proof -
  let ?u = "use_of s (sf_manager sf)"
  have u: "workers = 1 \<or> ?u \<noteq> Modifies" using assms(3) use_of_quiet [OF assms(4)] by blast
  then have "\<not> races w ?u (sf_uses sf)"
    using assms(1,2) by (auto simp: races_def calm_def list_ex_iff list_all_iff dest!: conflict_Modifies)
  from handle_shared_free [OF this assms(5)] u assms(1,2) show ?thesis by (auto simp: calm_def)
qed

end
