(* ===== verification/Service.thy ===== *)
theory Service
  imports QueueDelivery AcceptLoop SharedFiles "HOL-Library.Sublist"
begin

text \<open>
  The pool at work: the accesses of \<open>QueueDelivery\<close> to the queue, interleaved with the workers, each of
  which handles the connection it has popped (\<^verbatim>\<open>connection_handler.hpp\<close>) before it pops again.  The
  calls to the outside are one step each.  The handler's call is one step too: it touches nothing that is shared
  but the maps of the file manager, and where it uses them in conflict with a call by another worker,
  earlier or later, the behaviour is undefined (\<open>SharedFiles\<close>) and the run has no such step.  The accesses to the
  queue are sequentially consistent, and no push laps a consumer; what the memory orders of the code
  allow beyond that is in \<open>QueueWeak\<close> and \<open>WeakPool\<close>.
\<close>

section \<open>What a client is owed\<close>

text \<open>What a client is owed for the text it sent: a response if the parser accepts it, then the end.\<close>

definition answer_to :: "disk \<Rightarrow> descriptors \<Rightarrow> string \<Rightarrow> string option" where
  "answer_to files fds s =
     (case parse_http_request s of
        Returns (Inr r) \<Rightarrow> Some (answer_text r (disk_get_file files fds (''../webdir'' @ path_part (req_path r))))
      | _ \<Rightarrow> None)"

definition calls_for :: "disk \<Rightarrow> descriptors \<Rightarrow> http_connection \<Rightarrow> 'ssl io list" where
  "calls_for files fds c =
     (case answer_to files fds (tcp_request c) of
        Some response \<Rightarrow> [Send (tcp_fd c) response, Close (tcp_fd c)]
      | None \<Rightarrow> [Close (tcp_fd c)])"

definition parses :: "string \<Rightarrow> bool" where
  "parses s = (case parse_http_request s of Returns _ \<Rightarrow> True | _ \<Rightarrow> False)"

lemma handle_connection_calls:
  assumes "cache_agrees files fm" and "parses (tcp_request c)"
  shows "\<exists>fm'. tcp_handle (handle files) c fm = Returns (Some (calls_for files (fm_descriptors fm) c), fm') \<and>
    cache_agrees files fm' \<and> fm_descriptors fm' = fm_descriptors fm"
proof -
  obtain x where x: "parse_http_request (tcp_request c) = Returns x"
    using assms(2) by (auto simp: parses_def split: outcome.splits)
  show ?thesis
  proof (cases x)
    case (Inl e)
    with x assms(1) show ?thesis
      by (simp add: tcp_handle_def handle_connection_def handle_def calls_for_def answer_to_def
          TCPCloser_CloseConnection_def)
  next
    case (Inr r)
    with x have "parse_http_request (tcp_request c) = Returns (Inr r)" by simp
    from handle_agrees [OF this assms(1)] Inr x show ?thesis
      by (auto simp: tcp_handle_def handle_connection_def tcp_send_def TCPSender_SendMsg_def
          TCPCloser_CloseConnection_def calls_for_def answer_to_def)
  qed
qed

section \<open>The workers and the queue together\<close>

datatype ('c, 'ssl) job =
    Popping
  | Handling 'c
  | Calling "'ssl io list"

text \<open>\<open>sv_taken\<close> and \<open>sv_log\<close> record, per worker, the connections taken and, for all, the calls made.\<close>

record ('c, 'ssl, 's) service =
  sv_queue :: "'c shared"
  sv_history :: history
  sv_jobs :: "('c, 'ssl) job list"
  sv_state :: 's
  sv_taken :: "'c list list"
  sv_log :: "(nat \<times> 'ssl io) list"

definition new_service :: "nat \<Rightarrow> nat \<Rightarrow> 'c \<Rightarrow> 's \<Rightarrow> ('c, 'ssl, 's) service" where
  "new_service c workers d st =
     \<lparr>sv_queue = new_shared c workers d, sv_history = new_history workers, sv_jobs = replicate workers Popping,
      sv_state = st, sv_taken = replicate workers [], sv_log = []\<rparr>"

datatype 'c activity =
    Access "'c mem_access"
  | Handle nat
  | Perform nat

fun worker_of :: "'c mem_access \<Rightarrow> nat option" where
  "worker_of (LoadHead i) = Some i"
| "worker_of (CompareTail i) = Some i"
| "worker_of (Exchange i spurious) = Some i"
| "worker_of (MoveSlot i) = Some i"
| "worker_of (DecSize i) = Some i"
| "worker_of _ = None"

fun returned :: "'c mem_access \<Rightarrow> 'c shared \<Rightarrow> 'c option" where
  "returned (DecSize i) s = (case at s i of Some (CTaken x) \<Rightarrow> Some x | _ \<Rightarrow> None)"
| "returned _ s = None"

definition free :: "('c, 'ssl) job list \<Rightarrow> nat option \<Rightarrow> bool" where
  "free jobs w = (case w of None \<Rightarrow> True | Some i \<Rightarrow> i < length jobs \<and> jobs ! i = Popping)"

text \<open>
  A worker accesses the queue only while it pops; the last access of a pop that found an element
  leaves it with a connection to handle.  The handler is told which worker calls it.  A step is \<open>None\<close> where the
  thread is not at it, where the handler throws, which ends the process, and where its behaviour is undefined.
\<close>

fun service_step ::
  "nat \<Rightarrow> ('c \<Rightarrow> 'c) \<Rightarrow> (nat \<Rightarrow> 'c \<Rightarrow> 's \<Rightarrow> ('ssl io list option \<times> 's) outcome) \<Rightarrow> 'c activity \<Rightarrow>
   ('c, 'ssl, 's) service \<Rightarrow> ('c, 'ssl, 's) service option" where
  "service_step c moved handle_conn (Access a) sv =
     (case access c moved a (sv_queue sv) of
        None \<Rightarrow> None
      | Some q \<Rightarrow>
          if free (sv_jobs sv) (worker_of a)
          then (let sv' = sv\<lparr>sv_queue := q, sv_history := record_access a q (sv_history sv)\<rparr> in
                case (worker_of a, returned a (sv_queue sv)) of
                  (Some i, Some x) \<Rightarrow>
                    Some (sv'\<lparr>sv_jobs := (sv_jobs sv)[i := Handling x],
                      sv_taken := (sv_taken sv)[i := sv_taken sv ! i @ [x]]\<rparr>)
                | _ \<Rightarrow> Some sv')
          else None)"
| "service_step c moved handle_conn (Handle i) sv =
     (if i < length (sv_jobs sv) then
        case sv_jobs sv ! i of
          Handling x \<Rightarrow>
            (case handle_conn i x (sv_state sv) of
               Returns (Some calls, st) \<Rightarrow> Some (sv\<lparr>sv_jobs := (sv_jobs sv)[i := Calling calls], sv_state := st\<rparr>)
             | _ \<Rightarrow> None)
        | _ \<Rightarrow> None
      else None)"
| "service_step c moved handle_conn (Perform i) sv =
     (if i < length (sv_jobs sv) then
        case sv_jobs sv ! i of
          Calling [] \<Rightarrow> Some (sv\<lparr>sv_jobs := (sv_jobs sv)[i := Popping]\<rparr>)
        | Calling (call # calls) \<Rightarrow>
            Some (sv\<lparr>sv_jobs := (sv_jobs sv)[i := Calling calls], sv_log := sv_log sv @ [(i, call)]\<rparr>)
        | _ \<Rightarrow> None
      else None)"

text \<open>The runs in which no push laps a consumer.\<close>

inductive serving ::
  "nat \<Rightarrow> ('c \<Rightarrow> 'c) \<Rightarrow> (nat \<Rightarrow> 'c \<Rightarrow> 's \<Rightarrow> ('ssl io list option \<times> 's) outcome) \<Rightarrow> nat \<Rightarrow> 'c \<Rightarrow> 's \<Rightarrow>
   ('c, 'ssl, 's) service \<Rightarrow> bool"
  for c moved handle_conn workers d st where
  start: "serving c moved handle_conn workers d st (new_service c workers d st)"
| step: "serving c moved handle_conn workers d st sv \<Longrightarrow>
    (\<And>x. a = Access (LoadTail x) \<Longrightarrow> unlapped c (sv_queue sv) (sv_history sv)) \<Longrightarrow>
    service_step c moved handle_conn a sv = Some sv' \<Longrightarrow> serving c moved handle_conn workers d st sv'"

text \<open>Forgetting what the workers do between two pops leaves a run of the queue alone.\<close>

lemma step_Access:
  "service_step c moved hc (Access a) sv = Some sv' \<longleftrightarrow>
   (\<exists>q. access c moved a (sv_queue sv) = Some q \<and> free (sv_jobs sv) (worker_of a) \<and>
     sv' = (case (worker_of a, returned a (sv_queue sv)) of
       (Some i, Some x) \<Rightarrow> sv\<lparr>sv_queue := q, sv_history := record_access a q (sv_history sv),
         sv_jobs := (sv_jobs sv)[i := Handling x], sv_taken := (sv_taken sv)[i := sv_taken sv ! i @ [x]]\<rparr>
     | _ \<Rightarrow> sv\<lparr>sv_queue := q, sv_history := record_access a q (sv_history sv)\<rparr>))"
  by (auto simp: Let_def split: option.splits)

lemma step_Handle:
  "service_step c moved hc (Handle i) sv = Some sv' \<longleftrightarrow>
   (\<exists>x calls st. i < length (sv_jobs sv) \<and> sv_jobs sv ! i = Handling x \<and>
     hc i x (sv_state sv) = Returns (Some calls, st) \<and>
     sv' = sv\<lparr>sv_jobs := (sv_jobs sv)[i := Calling calls], sv_state := st\<rparr>)"
  by (auto split: job.splits outcome.splits option.splits)

lemma step_Perform:
  "service_step c moved hc (Perform i) sv = Some sv' \<longleftrightarrow>
   i < length (sv_jobs sv) \<and>
   (sv_jobs sv ! i = Calling [] \<and> sv' = sv\<lparr>sv_jobs := (sv_jobs sv)[i := Popping]\<rparr> \<or>
    (\<exists>call calls. sv_jobs sv ! i = Calling (call # calls) \<and>
      sv' = sv\<lparr>sv_jobs := (sv_jobs sv)[i := Calling calls], sv_log := sv_log sv @ [(i, call)]\<rparr>))"
  by (auto split: job.splits list.splits)

declare service_step.simps [simp del]

lemma access_step_queue:
  "service_step c moved hc (Access a) sv = Some sv' \<Longrightarrow>
   access c moved a (sv_queue sv) = Some (sv_queue sv') \<and>
   sv_history sv' = record_access a (sv_queue sv') (sv_history sv)"
  by (auto simp: step_Access split: option.splits)

text \<open>What a step adds to the connections of the accepting thread.\<close>

lemma access_pushes:
  assumes "access c moved a s = Some s'"
  shows "shared.started s' = shared.started s @ (case a of LoadTail x \<Rightarrow> [x] | _ \<Rightarrow> [])"
  using assms
  by (cases a) (auto simp: Let_def goto_def split: producer.splits option.splits consumer.splits outcome.splits if_splits)

lemma step_started:
  assumes "service_step c moved hc a sv = Some sv'"
  shows "shared.started (sv_queue sv') =
    shared.started (sv_queue sv) @ (case a of Access (LoadTail x) \<Rightarrow> [x] | _ \<Rightarrow> [])"
proof (cases a)
  case (Access m)
  from access_pushes [OF access_step_queue [OF assms [unfolded Access], THEN conjunct1]] Access show ?thesis by simp
qed (use assms in \<open>auto simp: step_Handle step_Perform\<close>)

lemma serving_paced:
  "serving c moved hc workers d st sv \<Longrightarrow> paced c moved workers d (sv_queue sv) (sv_history sv)"
proof (induction rule: serving.induct)
  case start
  show ?case by (simp add: new_service_def paced.start)
next
  case (step sv a sv')
  show ?case
  proof (cases a)
    case (Access m)
    with step.hyps(3) have q: "access c moved m (sv_queue sv) = Some (sv_queue sv')"
      "sv_history sv' = record_access m (sv_queue sv') (sv_history sv)"
      using access_step_queue by blast+
    from step.hyps(2) Access have "unlapped c (sv_queue sv) (sv_history sv)" if "m = LoadTail x" for x using that by simp
    from paced.step [OF step.IH this q(1)] q show ?thesis by simp
  qed (use step in \<open>auto simp: step_Handle step_Perform\<close>)
qed

section \<open>The invariant\<close>

definition log_of :: "nat \<Rightarrow> (nat \<times> 'a) list \<Rightarrow> 'a list" where
  "log_of i log = map snd (filter (\<lambda>(j, _). j = i) log)"

lemma log_of_simps [simp]:
  "log_of i [] = []" "log_of i (log @ [(j, call)]) = log_of i log @ (if j = i then [call] else [])"
  by (simp_all add: log_of_def)

fun job_ok :: "('c \<Rightarrow> 'ssl io list) \<Rightarrow> ('c, 'ssl) job \<Rightarrow> 'c list \<Rightarrow> 'ssl io list \<Rightarrow> bool" where
  "job_ok calls_of Popping taken log \<longleftrightarrow> log = concat (map calls_of taken)"
| "job_ok calls_of (Handling x) taken log \<longleftrightarrow>
     taken \<noteq> [] \<and> last taken = x \<and> log = concat (map calls_of (butlast taken))"
| "job_ok calls_of (Calling calls) taken log \<longleftrightarrow> log @ calls = concat (map calls_of taken)"

definition service_ok :: "('c \<Rightarrow> 'ssl io list) \<Rightarrow> ('c, 'ssl, 's) service \<Rightarrow> bool" where
  "service_ok calls_of sv \<longleftrightarrow>
     length (sv_jobs sv) = length (sh_consumers (sv_queue sv)) \<and> length (sv_taken sv) = length (sv_jobs sv) \<and>
     mset (delivered (sv_queue sv)) = mset (concat (sv_taken sv)) \<and> fst ` set (sv_log sv) \<subseteq> {..<length (sv_jobs sv)} \<and>
     (\<forall>i < length (sv_jobs sv). job_ok calls_of (sv_jobs sv ! i) (sv_taken sv ! i) (log_of i (sv_log sv)) \<and>
       (sv_jobs sv ! i \<noteq> Popping \<longrightarrow> sh_consumers (sv_queue sv) ! i = CIdle))"

lemma access_others:
  "access c moved a s = Some s' \<Longrightarrow> worker_of a \<noteq> Some j \<Longrightarrow> sh_consumers s' ! j = sh_consumers s ! j"
  by (cases a) (auto simp: Let_def goto_def split: producer.splits option.splits consumer.splits outcome.splits if_splits)

lemma access_delivered:
  "access c moved a s = Some s' \<Longrightarrow>
   delivered s' = delivered s @ (case returned a s of None \<Rightarrow> [] | Some x \<Rightarrow> [x]) \<and>
   (\<forall>i x. worker_of a = Some i \<longrightarrow> returned a s = Some x \<longrightarrow> sh_consumers s' ! i = CIdle)"
  by (cases a) (auto simp: Let_def goto_def at_def split: producer.splits option.splits consumer.splits outcome.splits if_splits)

lemma returned_worker: "returned a s = Some x \<Longrightarrow> \<exists>i. worker_of a = Some i"
  by (cases a) auto

lemma mset_concat_update:
  "i < length xss \<Longrightarrow> mset (concat (xss[i := xss ! i @ [x]])) = mset (concat xss) + {#x#}"
proof (induction xss arbitrary: i)
  case (Cons xs xss)
  then show ?case by (cases i) (simp_all add: ac_simps)
qed simp

text \<open>A worker that goes on with its job.\<close>

lemma job_moves:
  assumes ok: "service_ok calls_of sv" and i: "i < length (sv_jobs sv)" "sv_jobs sv ! i \<noteq> Popping"
    and sv': "sv_queue sv' = sv_queue sv" "sv_taken sv' = sv_taken sv" "sv_jobs sv' = (sv_jobs sv)[i := job]"
    and range: "fst ` set (sv_log sv') \<subseteq> {..<length (sv_jobs sv)}"
    and log: "\<And>j. j \<noteq> i \<Longrightarrow> log_of j (sv_log sv') = log_of j (sv_log sv)"
    and job: "job_ok calls_of job (sv_taken sv ! i) (log_of i (sv_log sv'))"
  shows "service_ok calls_of sv'"
proof -
  have "job_ok calls_of (sv_jobs sv' ! j) (sv_taken sv' ! j) (log_of j (sv_log sv')) \<and>
      (sv_jobs sv' ! j \<noteq> Popping \<longrightarrow> sh_consumers (sv_queue sv') ! j = CIdle)" if "j < length (sv_jobs sv')" for j
  proof (cases "j = i")
    case True
    with ok i job show ?thesis by (simp add: service_ok_def sv')
  next
    case False
    with ok that log [OF False] show ?thesis by (simp add: service_ok_def sv')
  qed
  with ok range show ?thesis by (simp add: service_ok_def sv')
qed

text \<open>The contract of what a worker does with a connection: the calls it makes depend on nothing that changes.\<close>

locale handler_contract =
  fixes handle_conn :: "nat \<Rightarrow> 'c \<Rightarrow> 's \<Rightarrow> ('ssl io list option \<times> 's) outcome"
    and calls_of :: "'c \<Rightarrow> 'ssl io list"
    and keeps :: "'s \<Rightarrow> bool"
  assumes handled: "keeps s \<Longrightarrow> handle_conn w x s = Returns (Some calls, s') \<Longrightarrow> calls = calls_of x \<and> keeps s'"
begin

lemma access_service_ok:
  assumes ok: "service_ok calls_of sv" and a: "service_step c moved handle_conn (Access a) sv = Some sv'"
  shows "service_ok calls_of sv' \<and> sv_state sv' = sv_state sv"
proof -
  let ?s = "sv_queue sv"
  from a obtain q where q: "access c moved a ?s = Some q" and free: "free (sv_jobs sv) (worker_of a)"
    and sv': "sv' = (case (worker_of a, returned a ?s) of
       (Some i, Some x) \<Rightarrow> sv\<lparr>sv_queue := q, sv_history := record_access a q (sv_history sv),
         sv_jobs := (sv_jobs sv)[i := Handling x], sv_taken := (sv_taken sv)[i := sv_taken sv ! i @ [x]]\<rparr>
     | _ \<Rightarrow> sv\<lparr>sv_queue := q, sv_history := record_access a q (sv_history sv)\<rparr>)"
    by (auto simp: step_Access)
  note len = access_consumers [OF q] and del = access_delivered [OF q] and others = access_others [OF q]
  show ?thesis
  proof (cases "returned a ?s")
    case None
    with sv' have "sv' = sv\<lparr>sv_queue := q, sv_history := record_access a q (sv_history sv)\<rparr>"
      by (simp split: option.splits)
    moreover have "sh_consumers q ! j = CIdle" if "j < length (sv_jobs sv)" "sv_jobs sv ! j \<noteq> Popping" for j
      using that ok free others [of j] by (auto simp: service_ok_def free_def split: option.splits)
    ultimately show ?thesis using ok len del None by (auto simp: service_ok_def)
  next
    case (Some x)
    from returned_worker [OF this] obtain i where w: "worker_of a = Some i" by blast
    with free have i: "i < length (sv_jobs sv)" "sv_jobs sv ! i = Popping" by (simp_all add: free_def)
    from sv' w Some have sv': "sv' = sv\<lparr>sv_queue := q, sv_history := record_access a q (sv_history sv),
         sv_jobs := (sv_jobs sv)[i := Handling x], sv_taken := (sv_taken sv)[i := sv_taken sv ! i @ [x]]\<rparr>" by simp
    have idle: "sh_consumers q ! i = CIdle" using del w Some by simp
    have "mset (delivered q) = mset (concat ((sv_taken sv)[i := sv_taken sv ! i @ [x]]))"
      using ok del Some i by (simp add: service_ok_def mset_concat_update)
    moreover have "sh_consumers q ! j = CIdle" if "j < length (sv_jobs sv)" "j \<noteq> i" "sv_jobs sv ! j \<noteq> Popping" for j
      using that ok w others [of j] by (auto simp: service_ok_def)
    ultimately show ?thesis
      using ok i len idle by (auto simp: service_ok_def sv' nth_list_update)
  qed
qed

lemma step_service_ok:
  assumes ok: "service_ok calls_of sv" and st: "keeps (sv_state sv)"
    and step: "service_step c moved handle_conn a sv = Some sv'"
  shows "service_ok calls_of sv' \<and> keeps (sv_state sv')"
proof (cases a)
  case (Access m)
  with access_service_ok [OF ok, of c moved m sv'] step st show ?thesis by simp
next
  case (Handle i)
  with step obtain x calls s' where i: "i < length (sv_jobs sv)" "sv_jobs sv ! i = Handling x"
    and h: "handle_conn i x (sv_state sv) = Returns (Some calls, s')"
    and sv': "sv' = sv\<lparr>sv_jobs := (sv_jobs sv)[i := Calling calls], sv_state := s'\<rparr>"
    by (auto simp: step_Handle)
  from handled [OF st h] have calls: "calls = calls_of x" "keeps s'" by simp_all
  from ok i have "job_ok calls_of (Handling x) (sv_taken sv ! i) (log_of i (sv_log sv))"
    "fst ` set (sv_log sv) \<subseteq> {..<length (sv_jobs sv)}" unfolding service_ok_def by (metis, metis)
  moreover from this(1) have "job_ok calls_of (Calling calls) (sv_taken sv ! i) (log_of i (sv_log sv))"
    using calls(1) by (cases "sv_taken sv ! i" rule: rev_cases) simp_all
  ultimately have "service_ok calls_of sv'" using i sv' by (intro job_moves [OF ok, of i sv' "Calling calls"]) simp_all
  with calls(2) show ?thesis by (simp add: sv')
next
  case (Perform i)
  with step have i: "i < length (sv_jobs sv)" and
    alts: "sv_jobs sv ! i = Calling [] \<and> sv' = sv\<lparr>sv_jobs := (sv_jobs sv)[i := Popping]\<rparr> \<or>
    (\<exists>call calls. sv_jobs sv ! i = Calling (call # calls) \<and>
      sv' = sv\<lparr>sv_jobs := (sv_jobs sv)[i := Calling calls], sv_log := sv_log sv @ [(i, call)]\<rparr>)"
    by (simp_all add: step_Perform)
  from ok have range: "fst ` set (sv_log sv) \<subseteq> {..<length (sv_jobs sv)}" unfolding service_ok_def by blast
  from ok i have job: "job_ok calls_of (sv_jobs sv ! i) (sv_taken sv ! i) (log_of i (sv_log sv))"
    by (simp add: service_ok_def)
  from alts show ?thesis
  proof (elim disjE exE conjE)
    assume "sv_jobs sv ! i = Calling []" and sv': "sv' = sv\<lparr>sv_jobs := (sv_jobs sv)[i := Popping]\<rparr>"
    with i job range have "service_ok calls_of sv'" by (intro job_moves [OF ok, of i sv' Popping]) simp_all
    with st show ?thesis by (simp add: sv')
  next
    fix call calls
    assume "sv_jobs sv ! i = Calling (call # calls)"
      and sv': "sv' = sv\<lparr>sv_jobs := (sv_jobs sv)[i := Calling calls], sv_log := sv_log sv @ [(i, call)]\<rparr>"
    with i job range have "service_ok calls_of sv'"
      by (intro job_moves [OF ok, of i sv' "Calling calls"]) simp_all
    with st show ?thesis by (simp add: sv')
  qed
qed

lemma serving_ok:
  "serving c moved handle_conn workers d st sv \<Longrightarrow> keeps st \<Longrightarrow> service_ok calls_of sv \<and> keeps (sv_state sv)"
proof (induction rule: serving.induct)
  case start
  have "concat (replicate workers ([] :: 'c list)) = []" by (induction workers) simp_all
  with start show ?case by (simp add: service_ok_def new_service_def new_shared_def)
next
  case (step sv a sv')
  then show ?case using step_service_ok [OF _ _ step.hyps(3)] by blast
qed

lemma served_prefix:
  assumes "service_ok calls_of sv" and "i < length (sv_jobs sv)"
  shows "prefix (log_of i (sv_log sv)) (concat (map calls_of (sv_taken sv ! i)))"
proof -
  from assms have "job_ok calls_of (sv_jobs sv ! i) (sv_taken sv ! i) (log_of i (sv_log sv))"
    by (simp add: service_ok_def)
  then show ?thesis
  proof (cases "sv_jobs sv ! i")
    case (Handling x)
    with \<open>job_ok _ _ _ _\<close> show ?thesis by (cases "sv_taken sv ! i" rule: rev_cases) simp_all
  next
    case (Calling calls)
    with \<open>job_ok _ _ _ _\<close> show ?thesis by (metis job_ok.simps(3) prefixI)
  qed simp
qed

end

text \<open>The invariant of the shared manager; \<open>own i\<close> is worker \<open>i\<close> of this pool among all users of the manager.\<close>

abbreviation files_ok :: "disk \<Rightarrow> descriptors \<Rightarrow> 'w shared_files \<Rightarrow> bool" where
  "files_ok files fds sf \<equiv> cache_agrees files (sf_manager sf) \<and> fm_descriptors (sf_manager sf) = fds"

text \<open>What comes of a connection when the handler returns: the log of the uses does not show in the calls.\<close>

lemma tcp_handle_shared:
  assumes "tcp_handle (handle_shared files w) c sf = Returns (calls, sf')"
  shows "tcp_handle (handle files) c (sf_manager sf) = Returns (calls, sf_manager sf')"
  using assms
  by (auto simp: tcp_handle_def handle_connection_def obind_eq_Returns handle_shared_Returns split: option.splits)

lemma tls_handle_shared:
  assumes "tls_handle ww (handle_shared files w) c sf = Returns (calls, sf')"
  shows "tls_handle ww (handle files) c (sf_manager sf) = Returns (calls, sf_manager sf')"
  using assms
  by (auto simp: tls_handle_def handle_connection_def obind_eq_Returns handle_shared_Returns split: option.splits)

interpretation tcp_serving: handler_contract "\<lambda>i. tcp_handle (handle_shared files (own i))" "calls_for files fds"
  "files_ok files fds" for files fds and own :: "nat \<Rightarrow> 'w"
proof unfold_locales
  fix i sf c and calls :: "'ssl io list" and sf' :: "'w shared_files"
  assume sf: "files_ok files fds sf"
    and h: "tcp_handle (handle_shared files (own i)) c sf = Returns (Some calls, sf')"
  note h = tcp_handle_shared [OF h]
  then have "parses (tcp_request c)"
    by (auto simp: tcp_handle_def handle_connection_def handle_def parses_def obind_eq_Returns split: outcome.splits)
  with conjunct1 [OF sf] have "\<exists>fm'. tcp_handle (handle files) c (sf_manager sf) =
      Returns (Some (calls_for files (fm_descriptors (sf_manager sf)) c :: 'ssl io list), fm') \<and>
      cache_agrees files fm' \<and> fm_descriptors fm' = fm_descriptors (sf_manager sf)"
    by (rule handle_connection_calls)
  with sf h show "calls = calls_for files fds c \<and> files_ok files fds sf'" by auto
qed

text \<open>A TLS connection is owed the same response, written through its handle.\<close>

definition tls_calls_for :: "('ssl \<Rightarrow> nat \<Rightarrow> bool) \<Rightarrow> disk \<Rightarrow> descriptors \<Rightarrow> 'ssl https_connection \<Rightarrow> 'ssl io list" where
  "tls_calls_for want_write files fds c =
     (case answer_to files fds (tls_request c) of
        Some response \<Rightarrow>
          (case TLSSender_SendMsg (want_write (tls_ssl c)) c response of Some writes \<Rightarrow> writes | None \<Rightarrow> []) @
          TLSCloser_CloseConnection c
      | None \<Rightarrow> TLSCloser_CloseConnection c)"

lemma tls_connection_calls:
  assumes fm: "cache_agrees files fm" and h: "tls_handle (want_write (tls_ssl c)) (handle files) c fm = Returns (Some calls, fm')"
  shows "calls = tls_calls_for want_write files (fm_descriptors fm) c \<and> cache_agrees files fm' \<and>
    fm_descriptors fm' = fm_descriptors fm"
proof (cases "parse_http_request (tls_request c)")
  case (Returns x)
  then show ?thesis
  proof (cases x)
    case (Inl e)
    with Returns h fm show ?thesis
      by (auto simp: tls_handle_def handle_connection_def handle_def tls_calls_for_def answer_to_def)
  next
    case (Inr r)
    with Returns have "parse_http_request (tls_request c) = Returns (Inr r)" by simp
    from handle_agrees [OF this fm] Inr Returns h fm show ?thesis
      by (auto simp: tls_handle_def handle_connection_def tls_calls_for_def answer_to_def bind_eq_Some_conv)
  qed
qed (use h in \<open>simp_all add: tls_handle_def handle_connection_def handle_def\<close>)

interpretation tls_serving: handler_contract "\<lambda>i c. tls_handle (want_write (tls_ssl c)) (handle_shared files (own i)) c"
  "tls_calls_for want_write files fds" "files_ok files fds"
  for want_write :: "'ssl \<Rightarrow> nat \<Rightarrow> bool" and files fds and own :: "nat \<Rightarrow> 'w"
proof unfold_locales
  fix i sf c calls and sf' :: "'w shared_files"
  assume sf: "files_ok files fds sf"
    and h: "tls_handle (want_write (tls_ssl c)) (handle_shared files (own i)) c sf = Returns (Some calls, sf')"
  from tls_connection_calls [of files "sf_manager sf" want_write c calls "sf_manager sf'"] tls_handle_shared [OF h] sf
  show "calls = tls_calls_for want_write files fds c \<and> files_ok files fds sf'" by auto
qed

section \<open>Every accepted connection is served once\<close>

definition at_rest :: "('c, 'ssl, 's) service \<Rightarrow> bool" where
  "at_rest sv \<longleftrightarrow>
     set (sv_jobs sv) \<subseteq> {Popping} \<and> set (sh_consumers (sv_queue sv)) \<subseteq> {CIdle} \<and>
     sh_producer (sv_queue sv) = PIdle \<and> empty (sh_queue (sv_queue sv))"

lemma at_rest_logs:
  assumes "service_ok calls_of sv" and "at_rest sv"
  shows "i < length (sv_jobs sv) \<Longrightarrow> log_of i (sv_log sv) = concat (map calls_of (sv_taken sv ! i))"
proof -
  assume i: "i < length (sv_jobs sv)"
  then have "sv_jobs sv ! i = Popping" using assms(2) nth_mem unfolding at_rest_def by blast
  with assms(1) i show "log_of i (sv_log sv) = concat (map calls_of (sv_taken sv ! i))"
    by (auto simp: service_ok_def dest!: spec [of _ i])
qed

lemma taken_started:
  assumes "serving c moved hc workers d st sv" and "service_ok calls_of sv" and "0 < c" and "c \<le> 100" and "at_rest sv"
  shows "mset (concat (sv_taken sv)) = mset (shared.started (sv_queue sv))"
  using paced_accounting [OF serving_paced [OF assms(1)] assms(3,4)] assms(2,5)
  by (simp add: at_rest_def service_ok_def)

lemma closed_by_worker:
  "fst ` set log \<subseteq> {..<n} \<Longrightarrow> mset (closed_fds (map snd log)) = (\<Sum>i<n. mset (closed_fds (log_of i log)))"
proof (induction log rule: rev_induct)
  case Nil
  show ?case by (simp add: closed_fds_def)
next
  case (snoc entry log)
  obtain j call where e: "entry = (j, call)" by (cases entry)
  with snoc.prems have "j < n" by simp
  have "(\<Sum>i<n. mset (closed_fds (log_of i (log @ [(j, call)])))) =
      (\<Sum>i<n. mset (closed_fds (log_of i log)) + (if i = j then mset (closed_fds [call]) else {#}))"
    by (intro sum.cong) (simp_all add: closed_fds_def [of "[]"])
  also have "\<dots> = (\<Sum>i<n. mset (closed_fds (log_of i log))) + mset (closed_fds [call])"
    using \<open>j < n\<close> by (simp add: sum.distrib)
  finally show ?case using snoc e by simp
qed

lemma sum_mset_concat: "(\<Sum>i<length xss. mset (xss ! i)) = mset (concat xss)"
  by (induction xss rule: rev_induct) (simp_all add: nth_append)

text \<open>
  What is promised: each worker does for the connections it has taken what they are owed, one after
  the other; and at rest, every connection added has been taken by one worker, all that is owed has
  been done, and the descriptors closed are those of the connections added, each once.
\<close>

definition in_turn :: "('c \<Rightarrow> 'ssl io list) \<Rightarrow> ('c, 'ssl, 's) service \<Rightarrow> bool" where
  "in_turn calls_of sv \<longleftrightarrow>
     (\<forall>i < length (sv_jobs sv). prefix (log_of i (sv_log sv)) (concat (map calls_of (sv_taken sv ! i))))"

definition all_served :: "('c \<Rightarrow> 'ssl io list) \<Rightarrow> ('c \<Rightarrow> int) \<Rightarrow> ('c, 'ssl, 's) service \<Rightarrow> bool" where
  "all_served calls_of fd_of sv \<longleftrightarrow>
     mset (concat (sv_taken sv)) = mset (shared.started (sv_queue sv)) \<and>
     (\<forall>i < length (sv_jobs sv). log_of i (sv_log sv) = concat (map calls_of (sv_taken sv ! i))) \<and>
     mset (closed_fds (map snd (sv_log sv))) = mset (map fd_of (shared.started (sv_queue sv)))"

text \<open>A handler whose calls for a connection close the connection's descriptor, and no other.\<close>

locale closing_handler = handler_contract handle_conn calls_of keeps
  for handle_conn :: "nat \<Rightarrow> 'c \<Rightarrow> 's \<Rightarrow> ('ssl io list option \<times> 's) outcome" and calls_of keeps +
  fixes fd_of :: "'c \<Rightarrow> int"
  assumes closes: "closed_fds (calls_of x) = [fd_of x]"
begin

lemma closed_calls: "closed_fds (concat (map calls_of cs)) = map fd_of cs"
  by (induction cs) (simp_all add: closes closed_fds_def [of "[]"])

lemma served:
  assumes run: "serving c moved handle_conn workers d st sv" and st: "keeps st" and c: "0 < c" "c \<le> 100"
  shows "in_turn calls_of sv" and "at_rest sv \<Longrightarrow> all_served calls_of fd_of sv"
proof -
  let ?n = "length (sv_jobs sv)"
  have ok: "service_ok calls_of sv" using serving_ok [OF run st] by blast
  then have len: "?n = length (sv_taken sv)" and range: "fst ` set (sv_log sv) \<subseteq> {..<?n}"
    unfolding service_ok_def by metis+
  show "in_turn calls_of sv" using served_prefix [OF ok] by (simp add: in_turn_def)
  assume rest: "at_rest sv"
  have "mset (closed_fds (map snd (sv_log sv))) = (\<Sum>i<?n. mset (map (map fd_of) (sv_taken sv) ! i))"
    unfolding closed_by_worker [OF range]
    by (intro sum.cong) (simp_all add: at_rest_logs [OF ok rest] closed_calls len)
  also have "\<dots> = image_mset fd_of (mset (concat (sv_taken sv)))"
    using sum_mset_concat [of "map (map fd_of) (sv_taken sv)"] by (simp add: len map_concat flip: mset_map)
  finally show "all_served calls_of fd_of sv"
    using taken_started [OF run ok c rest] at_rest_logs [OF ok rest] by (simp add: all_served_def)
qed

end

interpretation tcp_closing: closing_handler "\<lambda>i. tcp_handle (handle_shared files (own i))" "calls_for files fds"
  "files_ok files fds" tcp_fd for files fds and own :: "nat \<Rightarrow> 'w"
  by unfold_locales (simp add: calls_for_def closed_fds_def split: option.splits)

interpretation tls_closing: closing_handler "\<lambda>i c. tls_handle (want_write (tls_ssl c)) (handle_shared files (own i)) c"
  "tls_calls_for want_write files fds" "files_ok files fds" tls_fd
  for want_write :: "'ssl \<Rightarrow> nat \<Rightarrow> bool" and files fds and own :: "nat \<Rightarrow> 'w"
proof unfold_locales
  fix c :: "'ssl https_connection"
  have "closed_fds (case TLSSender_SendMsg (want_write (tls_ssl c)) c r of Some writes \<Rightarrow> writes | None \<Rightarrow> []) = []" for r
    using tls_io.send_closes_nothing [of "want_write (tls_ssl c)" c r]
    by (auto simp: closed_fds_def [of "[]"] split: option.split)
  then show "closed_fds (tls_calls_for want_write files fds c) = [tls_fd c]"
    using tls_io.close_closes_one [of c] by (simp add: tls_calls_for_def split: option.split)
qed

fun service_run ::
  "nat \<Rightarrow> ('c \<Rightarrow> 'c) \<Rightarrow> (nat \<Rightarrow> 'c \<Rightarrow> 's \<Rightarrow> ('ssl io list option \<times> 's) outcome) \<Rightarrow> 'c activity list \<Rightarrow>
   ('c, 'ssl, 's) service \<Rightarrow> ('c, 'ssl, 's) service option" where
  "service_run c moved handle_conn [] sv = Some sv"
| "service_run c moved handle_conn (a # as) sv =
     (if (case a of Access (LoadTail x) \<Rightarrow> unlapped c (sv_queue sv) (sv_history sv) | _ \<Rightarrow> True)
      then (case service_step c moved handle_conn a sv of
              None \<Rightarrow> None
            | Some sv' \<Rightarrow> service_run c moved handle_conn as sv') else None)"

lemma service_run_serving:
  "serving c moved hc workers d st sv \<Longrightarrow> service_run c moved hc as sv = Some sv' \<Longrightarrow>
   serving c moved hc workers d st sv'"
proof (induction as arbitrary: sv)
  case (Cons a as)
  from Cons.prems(2) obtain sv1 where s1: "service_step c moved hc a sv = Some sv1"
    and room: "case a of Access (LoadTail x) \<Rightarrow> unlapped c (sv_queue sv) (sv_history sv) | _ \<Rightarrow> True"
    and rest: "service_run c moved hc as sv1 = Some sv'"
    by (auto split: option.splits if_splits)
  from room have "unlapped c (sv_queue sv) (sv_history sv)" if "a = Access (LoadTail x)" for x using that by simp
  from Cons.IH [OF serving.step [OF Cons.prems(1) this s1] rest] show ?case .
qed simp

abbreviation tcp_worker :: "disk \<Rightarrow> (nat \<Rightarrow> 'w) \<Rightarrow> nat \<Rightarrow> http_connection \<Rightarrow> 'w shared_files \<Rightarrow>
    ('ssl io list option \<times> 'w shared_files) outcome" where
  "tcp_worker files own \<equiv> \<lambda>i. tcp_handle (handle_shared files (own i))"

abbreviation tls_worker :: "('ssl \<Rightarrow> nat \<Rightarrow> bool) \<Rightarrow> disk \<Rightarrow> (nat \<Rightarrow> 'w) \<Rightarrow> nat \<Rightarrow> 'ssl https_connection \<Rightarrow> 'w shared_files \<Rightarrow>
    ('ssl io list option \<times> 'w shared_files) outcome" where
  "tls_worker want_write files own \<equiv> \<lambda>i c. tls_handle (want_write (tls_ssl c)) (handle_shared files (own i)) c"

text \<open>
  C4. The pool serves every accepted connection once.  The runs are those in which the accesses to the queue
  are interleaved in any order (sequentially consistent), no push laps a consumer, no two workers' calls of
  the handler race on the file cache, and no handler throws.  In all of them, with any number
  of workers, what a worker has sent and closed so far is, call by call, the beginning of what the
  connections it took are owed, each in turn; when all workers are back at the queue and it is empty,
  every connection added has been taken by one worker, was sent the answer to its request, if the parser
  accepts it, and was closed, once.  So it is over TCP and over TLS.
\<close>

theorem concurrent_service:
  assumes "cache_agrees files fm" and "0 < c" and "c \<le> 100"
  shows "(serving c moved (tcp_worker files id) workers d (new_shared_files fm) sv \<longrightarrow>
      in_turn (calls_for files (fm_descriptors fm)) sv \<and>
      (at_rest sv \<longrightarrow> all_served (calls_for files (fm_descriptors fm)) tcp_fd sv)) \<and>
    (serving c moved_tls (tls_worker want_write files id) workers e (new_shared_files fm) tv \<longrightarrow>
      in_turn (tls_calls_for want_write files (fm_descriptors fm)) tv \<and>
      (at_rest tv \<longrightarrow> all_served (tls_calls_for want_write files (fm_descriptors fm)) tls_fd tv))"
proof -
  have "files_ok files (fm_descriptors fm) (new_shared_files fm :: nat shared_files)"
    using assms(1) by (simp add: new_shared_files_def)
  with tcp_closing.served [of c moved files id workers d "new_shared_files fm" sv "fm_descriptors fm"]
    tls_closing.served [of c moved_tls want_write files id workers e "new_shared_files fm" tv "fm_descriptors fm"] assms(2,3)
  show ?thesis by blast
qed

definition serve_accesses :: "nat \<Rightarrow> nat \<Rightarrow> 'c activity list" where
  "serve_accesses i calls = map Access (pop_accesses i) @ Handle i # replicate (Suc calls) (Perform i)"

text \<open>A worker is handling a first connection while another one pops a second and finishes it.\<close>

definition sample_service :: "http_connection activity list" where
  "sample_service =
     map Access (push_accesses \<lparr>tcp_fd = 5, tcp_request = ''GET /a.css HTTP/1.1'' @ CRLF @ CRLF\<rparr>) @
     map Access (pop_accesses 0) @ [Handle 0, Perform 0] @
     map Access (push_accesses \<lparr>tcp_fd = 6, tcp_request = ''BREW / HTTP/1.1''\<rparr>) @
     map Access (push_accesses \<lparr>tcp_fd = 7, tcp_request = ''GET /b.css HTTP/1.1'' @ CRLF @ CRLF\<rparr>) @
     serve_accesses 1 1 @ [Perform 0, Perform 0] @ serve_accesses 0 2"

theorem concurrent_service_witness:
  "\<exists>sv :: (http_connection, unit, nat shared_files) service. serving 3 id (tcp_worker [''../webdir/a.css'' \<mapsto> ''body { }''] id) 2 \<lparr>tcp_fd = 0, tcp_request = ''''\<rparr>
       (new_shared_files sample_manager) sv \<and>
     sv_log sv =
       [(0, Send 5 (''HTTP/1.1 200 OK'' @ CRLF @ ''Content-Type: text/css'' @ CRLF @ CRLF @ ''body { }'')),
        (1, Close 6), (0, Close 5), (0, Send 7 not_found_text), (0, Close 7)] \<and>
     mset (closed_fds (map snd (sv_log sv))) = {#5, 6, 7#}"
proof -
  let ?run = "service_run 3 id (tcp_worker [''../webdir/a.css'' \<mapsto> ''body { }''] id) sample_service
    (new_service 3 2 \<lparr>tcp_fd = 0, tcp_request = ''''\<rparr> (new_shared_files sample_manager) :: (http_connection, unit, nat shared_files) service)"
  have "case ?run of None \<Rightarrow> False | Some sv \<Rightarrow>
      at_rest sv \<and> map tcp_fd (shared.started (sv_queue sv)) = [5, 6, 7] \<and>
      sv_log sv =
       [(0, Send 5 (''HTTP/1.1 200 OK'' @ CRLF @ ''Content-Type: text/css'' @ CRLF @ CRLF @ ''body { }'')),
        (1, Close 6), (0, Close 5), (0, Send 7 not_found_text), (0, Close 7)]"
    by code_simp
  then obtain sv where run: "?run = Some sv" and sv: "at_rest sv" "map tcp_fd (shared.started (sv_queue sv)) = [5, 6, 7]"
    "sv_log sv =
       [(0, Send 5 (''HTTP/1.1 200 OK'' @ CRLF @ ''Content-Type: text/css'' @ CRLF @ CRLF @ ''body { }'')),
        (1, Close 6), (0, Close 5), (0, Send 7 not_found_text), (0, Close 7)]"
    by (auto split: option.splits)
  note serving = service_run_serving [OF serving.start run]
  have "(0 :: nat) < 3" "(3 :: nat) \<le> 100" by simp_all
  from concurrent_service [OF sample_manager_agrees this, THEN conjunct1] sv serving
  have "mset (closed_fds (map snd (sv_log sv))) = mset [5, 6, 7]" by (metis all_served_def)
  with sv serving show ?thesis by (intro exI [of _ sv]) simp
qed

section \<open>The pool can always finish\<close>

text \<open>How far a worker is from its next pop, and the accepting thread from its next push.\<close>

fun rank :: "('c, 'ssl) job \<Rightarrow> 'c consumer \<Rightarrow> nat" where
  "rank (Calling calls) pc = 1"
| "rank (Handling x) pc = 2"
| "rank Popping CIdle = 0"
| "rank Popping (CNonEmpty h) = 1"
| "rank Popping (CHead h) = 2"
| "rank Popping (CTaken x) = 3"
| "rank Popping (CWon h) = 4"

fun producer_rank :: "'c producer \<Rightarrow> nat" where
  "producer_rank PIdle = 0"
| "producer_rank PStored = 1"
| "producer_rank (PWritten t) = 2"
| "producer_rank (PLoaded x t) = 3"

definition workload :: "('c, 'ssl, 's) service \<Rightarrow> nat" where
  "workload sv = producer_rank (sh_producer (sv_queue sv)) +
     sum_list (map2 rank (sv_jobs sv) (sh_consumers (sv_queue sv)))"

lemma rank_0: "rank job pc = 0 \<Longrightarrow> job = Popping \<and> pc = CIdle"
  by (cases "(job, pc)" rule: rank.cases) simp_all

text \<open>A step that does not add a connection is a run.\<close>

lemma run_one:
  "service_step c moved hc a sv = Some sv' \<Longrightarrow> (\<And>x. a \<noteq> Access (LoadTail x)) \<Longrightarrow> service_run c moved hc [a] sv = Some sv'"
  by (auto split: activity.split mem_access.split)

lemma run_append:
  "service_run c moved hc as sv = Some sv1 \<Longrightarrow> service_run c moved hc bs sv1 = Some sv2 \<Longrightarrow>
   service_run c moved hc (as @ bs) sv = Some sv2"
  by (induction as arbitrary: sv) (auto split: option.splits if_splits)

lemma run_performs:
  "i < length (sv_jobs sv) \<Longrightarrow> sv_jobs sv ! i = Calling calls \<Longrightarrow>
   \<exists>sv'. service_run c moved hc (replicate (Suc (length calls)) (Perform i)) sv = Some sv' \<and>
     sv_queue sv' = sv_queue sv \<and> sv_history sv' = sv_history sv \<and> sv_jobs sv' = (sv_jobs sv)[i := Popping]"
proof (induction calls arbitrary: sv)
  case Nil
  then show ?case by (auto simp: service_step.simps)
next
  case (Cons call calls)
  let ?sv = "sv\<lparr>sv_jobs := (sv_jobs sv)[i := Calling calls], sv_log := sv_log sv @ [(i, call)]\<rparr>"
  from Cons.prems have "service_step c moved hc (Perform i) sv = Some ?sv" by (simp add: service_step.simps)
  then have one: "service_run c moved hc [Perform i] sv = Some ?sv" by (rule run_one) simp
  from Cons.prems have "i < length (sv_jobs ?sv)" "sv_jobs ?sv ! i = Calling calls" by simp_all
  from Cons.IH [OF this] obtain sv' where
    run: "service_run c moved hc (replicate (Suc (length calls)) (Perform i)) ?sv = Some sv'"
    and sv': "sv_queue sv' = sv_queue ?sv" "sv_history sv' = sv_history ?sv" "sv_jobs sv' = (sv_jobs ?sv)[i := Popping]"
    by blast
  have "service_run c moved hc ([Perform i] @ replicate (Suc (length calls)) (Perform i)) sv = Some sv'"
    by (rule run_append [OF one run])
  moreover have "[Perform i] @ replicate (Suc (length calls)) (Perform i) = replicate (Suc (length (call # calls))) (Perform i)"
    by simp
  ultimately show ?case using sv' by (intro exI [of _ sv'] conjI) simp_all
qed

lemma taken_accepted:
  assumes "service_ok calls_of sv" and "delivery_ok c (sv_queue sv) (sv_history sv)"
    and "i < length (sv_jobs sv)" and "sv_jobs sv ! i = Handling x"
  shows "x \<in> set (shared.started (sv_queue sv))"
proof -
  from assms(1,3,4) have "x \<in> set (sv_taken sv ! i)" "sv_taken sv ! i \<in> set (sv_taken sv)"
    by (auto simp: service_ok_def dest!: spec [of _ i])
  then have "x \<in># mset (concat (sv_taken sv))" by auto
  with assms(1) have "x \<in># mset (delivered (sv_queue sv))" unfolding service_ok_def by metis
  then have "x \<in># mset (take (popped (sv_history sv)) (shared.started (sv_queue sv)))"
    using delivery_okD(12) [OF assms(2)] by (metis union_iff)
  then show ?thesis by (metis in_set_takeD set_mset_mset)
qed

text \<open>A consumer inside \<^verbatim>\<open>pop\<close> leaves it, giving up if it has won nothing.\<close>

lemma pop_goes_on:
  assumes ok: "delivery_ok c s g" and i: "i < length (sh_consumers s)" "sh_consumers s ! i \<noteq> CIdle"
  shows "\<exists>a q. access c moved a s = Some q \<and> worker_of a = Some i \<and>
    shared.started q = shared.started s \<and> popped (record_access a q g) = popped g \<and> sh_producer q = sh_producer s \<and>
    sh_consumers q = (sh_consumers s)[i := sh_consumers q ! i] \<and>
    rank (case returned a s of None \<Rightarrow> Popping | Some x \<Rightarrow> (Handling x :: ('c, 'ssl) job)) (sh_consumers q ! i) <
      rank (Popping :: ('c, 'ssl) job) (sh_consumers s ! i)"
proof (cases "sh_consumers s ! i")
  case (CHead h)
  with i show ?thesis by (intro exI [of _ "CompareTail i"]) (auto simp: at_def goto_def)
next
  case (CNonEmpty h)
  with i show ?thesis by (intro exI [of _ "Exchange i True"]) (auto simp: at_def goto_def Let_def)
next
  case (CWon h)
  obtain m where "unat h = m mod c" by (rule won_claim [OF ok i(1) CWon])
  with delivery_okD(1) [OF ok] have "unat h < length (q_arr (sh_queue s))" by (simp add: queue_ok_def)
  with i CWon show ?thesis by (intro exI [of _ "MoveSlot i"]) (auto simp: at_def goto_def Let_def)
next
  case (CTaken x)
  with i show ?thesis by (intro exI [of _ "DecSize i"]) (auto simp: at_def goto_def Let_def)
qed (use i in simp)

lemma producer_goes_on:
  assumes ok: "delivery_ok c s g" and p: "sh_producer s \<noteq> PIdle"
  shows "\<exists>a q. access c moved a s = Some q \<and> worker_of a = None \<and> (\<forall>x. a \<noteq> LoadTail x) \<and>
    shared.started q = shared.started s \<and> popped (record_access a q g) = popped g \<and>
    sh_consumers q = sh_consumers s \<and> producer_rank (sh_producer q) < producer_rank (sh_producer s)"
proof -
  note d = delivery_okD [OF ok]
  have c: "0 < c" "length (q_arr (sh_queue s)) = c" using d(1) by (simp_all add: queue_ok_def)
  show ?thesis
  proof (cases "sh_producer s")
    case (PLoaded x t)
    with d(8) c show ?thesis by (intro exI [of _ WriteSlot]) (auto simp: Let_def)
  next
    case (PWritten t)
    with d(8) c have "unat t < c" by auto
    from next_index_ring [OF d(1) this] PWritten show ?thesis
      by (intro exI [of _ StoreTail]) (auto simp: Let_def)
  next
    case PStored
    then show ?thesis by (intro exI [of _ IncSize]) (auto simp: Let_def)
  qed (use p in simp)
qed

lemma run_access:
  assumes "access c moved a (sv_queue sv) = Some q" and "free (sv_jobs sv) (worker_of a)"
    and "returned a (sv_queue sv) = None" and "\<forall>x. a \<noteq> LoadTail x"
  shows "service_run c moved hc (Access a # as) sv =
    service_run c moved hc as (sv\<lparr>sv_queue := q, sv_history := record_access a q (sv_history sv)\<rparr>)"
  using assms by (auto simp: service_step.simps Let_def split: option.splits mem_access.split)

text \<open>When everybody is idle and the queue is not empty, a worker wins the first element.\<close>

lemma next_is_won:
  assumes ok: "delivery_ok c (sv_queue sv) (sv_history sv)" and ne: "\<not> empty (sh_queue (sv_queue sv))"
    and idle: "0 < length (sv_jobs sv)" "sv_jobs sv ! 0 = Popping"
      "0 < length (sh_consumers (sv_queue sv))" "sh_consumers (sv_queue sv) ! 0 = CIdle"
  shows "\<exists>as sv'. service_run c moved hc as sv = Some sv' \<and>
    shared.started (sv_queue sv') = shared.started (sv_queue sv) \<and>
    popped (sv_history sv') = Suc (popped (sv_history sv))"
proof -
  let ?s = "sv_queue sv" let ?q = "sh_queue ?s"
  note d = delivery_okD [OF ok]
  have "0 < c" using d(1) by (simp add: queue_ok_def)
  with d(5) have "unat (q_head ?q) < c" by simp
  from next_index_ring [OF d(1) this] obtain n where n: "next_index c ?q (q_head ?q) = Returns n" by auto
  have free: "free (sv_jobs sv) (Some 0)" using idle by (simp add: free_def)
  have head: "q_head ?q \<noteq> q_tail ?q" using ne by (simp add: empty_def)
  show ?thesis
    by (rule exI [of _ "[Access (LoadHead 0), Access (CompareTail 0), Access (Exchange 0 False)]"])
       (use idle free head n in \<open>simp add: run_access at_def goto_def Let_def del: service_run.simps(2)\<close>)
qed

locale answering_handler = handler_contract handle_conn calls_of keeps
  for handle_conn :: "nat \<Rightarrow> 'c \<Rightarrow> 's \<Rightarrow> ('ssl io list option \<times> 's) outcome" and calls_of keeps +
  fixes accepts :: "'c \<Rightarrow> bool" and workers :: nat and at_peace :: "'s \<Rightarrow> bool"
  assumes answers: "keeps s \<Longrightarrow> at_peace s \<Longrightarrow> i < workers \<Longrightarrow> accepts x \<Longrightarrow>
    \<exists>calls s'. handle_conn i x s = Returns (Some calls, s') \<and> at_peace s'"
begin

lemma peace_is_kept:
  "serving c moved handle_conn workers d st sv \<Longrightarrow> keeps st \<Longrightarrow> at_peace st \<Longrightarrow> 0 < c \<Longrightarrow> c \<le> 100 \<Longrightarrow>
   \<forall>x \<in> set (shared.started (sv_queue sv)). accepts x \<Longrightarrow> at_peace (sv_state sv)"
proof (induction rule: serving.induct)
  case start
  then show ?case by (simp add: new_service_def)
next
  case (step sv a sv')
  from step.prems(5) step_started [OF step.hyps(3)] have all: "\<forall>x \<in> set (shared.started (sv_queue sv)). accepts x" by simp
  with step.IH step.prems have peace: "at_peace (sv_state sv)" by blast
  have ok: "service_ok calls_of sv" "keeps (sv_state sv)" using serving_ok [OF step.hyps(1) step.prems(1)] by simp_all
  note paced = serving_paced [OF step.hyps(1)]
  have workers: "length (sv_jobs sv) = workers" using paced_workers [OF paced] ok(1) by (simp add: service_ok_def)
  show ?case
  proof (cases a)
    case (Handle i)
    with step.hyps(3) obtain x calls s' where i: "i < length (sv_jobs sv)" "sv_jobs sv ! i = Handling x"
      and h: "handle_conn i x (sv_state sv) = Returns (Some calls, s')" and sv': "sv_state sv' = s'"
      by (auto simp: step_Handle)
    from all taken_accepted [OF ok(1) paced_ok [OF paced step.prems(3,4)] i] have "accepts x" by blast
    from answers [OF ok(2) peace _ this, of i] i(1) workers h sv' show ?thesis by auto
  qed (use step.hyps(3) peace in \<open>auto simp: step_Access step_Perform split: option.splits\<close>)
qed

lemma worker_goes_on:
  assumes ok: "service_ok calls_of sv" "keeps (sv_state sv)" "delivery_ok c (sv_queue sv) (sv_history sv)"
    and peace: "at_peace (sv_state sv)" and workers: "length (sv_jobs sv) = workers"
    and all: "\<forall>x \<in> set (shared.started (sv_queue sv)). accepts x"
    and i: "i < length (sv_jobs sv)" "0 < rank (sv_jobs sv ! i) (sh_consumers (sv_queue sv) ! i)"
  shows "\<exists>as sv' job pc. service_run c moved handle_conn as sv = Some sv' \<and>
    shared.started (sv_queue sv') = shared.started (sv_queue sv) \<and> popped (sv_history sv') = popped (sv_history sv) \<and>
    sh_producer (sv_queue sv') = sh_producer (sv_queue sv) \<and> sv_jobs sv' = (sv_jobs sv)[i := job] \<and>
    sh_consumers (sv_queue sv') = (sh_consumers (sv_queue sv))[i := pc] \<and>
    rank job pc < rank (sv_jobs sv ! i) (sh_consumers (sv_queue sv) ! i)"
proof (cases "sv_jobs sv ! i")
  case (Calling calls)
  from run_performs [OF i(1) this] obtain as sv' where "service_run c moved handle_conn as sv = Some sv'"
    "sv_queue sv' = sv_queue sv" "sv_history sv' = sv_history sv" "sv_jobs sv' = (sv_jobs sv)[i := Popping]"
    by metis
  moreover have "(sh_consumers (sv_queue sv))[i := CIdle] = sh_consumers (sv_queue sv)"
    using ok(1) i(1) Calling list_update_id [of "sh_consumers (sv_queue sv)" i] by (auto simp: service_ok_def)
  ultimately show ?thesis
    using Calling by (intro exI [of _ as] exI [of _ sv'] exI [of _ Popping] exI [of _ CIdle]) auto
next
  case (Handling x)
  from all taken_accepted [OF ok(1,3) i(1) this] have "accepts x" by blast
  from answers [OF ok(2) peace _ this, of i] i(1) workers obtain calls s' where "handle_conn i x (sv_state sv) = Returns (Some calls, s')" by auto
  with i Handling have "service_step c moved handle_conn (Handle i) sv =
      Some (sv\<lparr>sv_jobs := (sv_jobs sv)[i := Calling calls], sv_state := s'\<rparr>)" by (simp add: service_step.simps)
  from run_one [OF this] Handling show ?thesis
    by (intro exI [of _ "[Handle i]"] exI [of _ "Calling calls"] exI [of _ "sh_consumers (sv_queue sv) ! i"] exI) auto
next
  case Popping
  let ?s = "sv_queue sv"
  from ok(1) i(1) have "i < length (sh_consumers ?s)" by (simp add: service_ok_def)
  moreover from i(2) Popping have "sh_consumers ?s ! i \<noteq> CIdle" by auto
  ultimately obtain a q where q: "access c moved a ?s = Some q" "worker_of a = Some i"
      "shared.started q = shared.started ?s" "popped (record_access a q (sv_history sv)) = popped (sv_history sv)"
      "sh_producer q = sh_producer ?s" "sh_consumers q = (sh_consumers ?s)[i := sh_consumers q ! i]"
    and less: "rank (case returned a ?s of None \<Rightarrow> Popping | Some x \<Rightarrow> (Handling x :: ('c, 'ssl) job)) (sh_consumers q ! i) <
      rank (Popping :: ('c, 'ssl) job) (sh_consumers ?s ! i)"
    using pop_goes_on [OF ok(3), of i moved] by blast
  let ?sv = "sv\<lparr>sv_queue := q, sv_history := record_access a q (sv_history sv)\<rparr>"
  let ?sv' = "case returned a ?s of None \<Rightarrow> ?sv | Some x \<Rightarrow>
    ?sv\<lparr>sv_jobs := (sv_jobs sv)[i := Handling x], sv_taken := (sv_taken sv)[i := sv_taken sv ! i @ [x]]\<rparr>"
  from q(1,2) i(1) Popping have "service_step c moved handle_conn (Access a) sv = Some ?sv'"
    by (auto simp: step_Access free_def split: option.split)
  then have "service_run c moved handle_conn [Access a] sv = Some ?sv'"
    by (rule run_one) (use q(2) in auto)
  moreover have "sv_jobs ?sv' = (sv_jobs sv)[i := case returned a ?s of None \<Rightarrow> Popping | Some x \<Rightarrow> Handling x]"
    using Popping list_update_id [of "sv_jobs sv" i] by (simp split: option.split)
  moreover have "sv_queue ?sv' = q" "sv_history ?sv' = record_access a q (sv_history sv)"
    by (simp_all split: option.split)
  ultimately show ?thesis
    using q less Popping
    by (intro exI [of _ "[Access a]"] exI [of _ ?sv'] exI [of _ "sh_consumers q ! i"] exI conjI) (assumption | simp)+
qed

lemma pool_goes_on:
  assumes run: "serving c moved handle_conn workers d st sv" and st: "keeps st" "at_peace st" and c: "0 < c" "c \<le> 100"
    and w: "0 < workers" and all: "\<forall>x \<in> set (shared.started (sv_queue sv)). accepts x" and busy: "\<not> at_rest sv"
  shows "\<exists>as sv'. service_run c moved handle_conn as sv = Some sv' \<and>
    shared.started (sv_queue sv') = shared.started (sv_queue sv) \<and>
    (sv', sv) \<in> measures [\<lambda>s. length (shared.started (sv_queue s)) - popped (sv_history s), workload]"
proof -
  let ?s = "sv_queue sv"
  have ok: "service_ok calls_of sv" "keeps (sv_state sv)" using serving_ok [OF run st(1)] by simp_all
  have peace: "at_peace (sv_state sv)" by (rule peace_is_kept [OF run st c all])
  have del: "delivery_ok c ?s (sv_history sv)" by (rule paced_ok [OF serving_paced [OF run] c])
  have len: "length (sv_jobs sv) = length (sh_consumers ?s)" using ok(1) by (simp add: service_ok_def)
  then have n: "length (sv_jobs sv) = workers" using paced_workers [OF serving_paced [OF run]] by simp
  consider (producer) "sh_producer ?s \<noteq> PIdle"
    | (worker) i where "i < length (sv_jobs sv)" "0 < rank (sv_jobs sv ! i) (sh_consumers ?s ! i)"
    | (idle) "sh_producer ?s = PIdle" "\<forall>i < length (sv_jobs sv). sv_jobs sv ! i = Popping \<and> sh_consumers ?s ! i = CIdle"
    using rank_0 by blast
  then show ?thesis
  proof cases
    case producer
    from producer_goes_on [OF del this, of moved] obtain a q where
      a: "access c moved a ?s = Some q" "worker_of a = None" "\<forall>x. a \<noteq> LoadTail x"
      and q: "shared.started q = shared.started ?s" "popped (record_access a q (sv_history sv)) = popped (sv_history sv)"
        "sh_consumers q = sh_consumers ?s" "producer_rank (sh_producer q) < producer_rank (sh_producer ?s)" by blast
    have "returned a ?s = None" using returned_worker [of a ?s] a(2) by (cases "returned a ?s") auto
    moreover have "free (sv_jobs sv) (worker_of a)" by (simp add: free_def a(2))
    ultimately have "service_run c moved handle_conn [Access a] sv =
        Some (sv\<lparr>sv_queue := q, sv_history := record_access a q (sv_history sv)\<rparr>)"
      using run_access [of c moved a sv q handle_conn "[]"] a(1,3) by (simp del: service_run.simps(2))
    moreover have "workload (sv\<lparr>sv_queue := q, sv_history := record_access a q (sv_history sv)\<rparr>) < workload sv"
      using q(3,4) by (simp add: workload_def)
    ultimately show ?thesis
      using q(1,2) by (intro exI [of _ "[Access a]"] exI conjI) (assumption | simp)+
  next
    case (worker i)
    from worker_goes_on [OF ok del peace n all worker, of moved] obtain as sv' job pc where
      run': "service_run c moved handle_conn as sv = Some sv'"
      and sv': "shared.started (sv_queue sv') = shared.started ?s" "popped (sv_history sv') = popped (sv_history sv)"
        "sh_producer (sv_queue sv') = sh_producer ?s" "sv_jobs sv' = (sv_jobs sv)[i := job]"
        "sh_consumers (sv_queue sv') = (sh_consumers ?s)[i := pc]"
      and less: "rank job pc < rank (sv_jobs sv ! i) (sh_consumers ?s ! i)" by blast
    have "workload sv' < workload sv"
      using sum_map2_update [OF worker(1) len [symmetric], of rank job pc] less by (simp add: workload_def sv')
    with run' sv' show ?thesis by (intro exI [of _ as] exI [of _ sv']) auto
  next
    case idle
    have "set (sv_jobs sv) \<subseteq> {Popping}" "set (sh_consumers ?s) \<subseteq> {CIdle}"
      using idle(2) len by (auto simp: in_set_conv_nth)
    with busy idle(1) have ne: "\<not> empty (sh_queue ?s)" by (simp add: at_rest_def)
    have "0 < length (sv_jobs sv)" "0 < length (sh_consumers ?s)" using n len w by simp_all
    with next_is_won [OF del ne this(1) _ this(2), of moved handle_conn] idle(2) obtain as sv' where
      sv': "service_run c moved handle_conn as sv = Some sv'" "shared.started (sv_queue sv') = shared.started ?s"
        "popped (sv_history sv') = Suc (popped (sv_history sv))" by blast
    have "serving c moved handle_conn workers d st sv'" by (rule service_run_serving [OF run sv'(1)])
    from paced_accounting [OF serving_paced [OF this] c] sv'
    have "length (shared.started ?s) - popped (sv_history sv') < length (shared.started ?s) - popped (sv_history sv)" by auto
    with sv' show ?thesis by (intro exI [of _ as] exI [of _ sv']) auto
  qed
qed

lemma pool_finishes:
  assumes "serving c moved handle_conn workers d st sv" and "keeps st" "at_peace st" and "0 < c" "c \<le> 100"
    and "0 < workers" and "\<forall>x \<in> set (shared.started (sv_queue sv)). accepts x"
  shows "\<exists>as sv'. service_run c moved handle_conn as sv = Some sv' \<and> at_rest sv' \<and>
    shared.started (sv_queue sv') = shared.started (sv_queue sv)"
  using assms(1,7)
proof (induction sv rule: wf_induct_rule [OF wf_measures [of
    "[\<lambda>s. length (shared.started (sv_queue s)) - popped (sv_history s), workload]"]])
  case (1 sv)
  show ?case
  proof (cases "at_rest sv")
    case True
    then show ?thesis by (intro exI [of _ "[]"] exI [of _ sv]) simp
  next
    case False
    from pool_goes_on [OF 1(2) assms(2-6) 1(3) False] obtain as sv1 where
      sv1: "service_run c moved handle_conn as sv = Some sv1"
        "shared.started (sv_queue sv1) = shared.started (sv_queue sv)"
      and less: "(sv1, sv) \<in> measures [\<lambda>s. length (shared.started (sv_queue s)) - popped (sv_history s), workload]"
      by blast
    have "serving c moved handle_conn workers d st sv1" by (rule service_run_serving [OF 1(2) sv1(1)])
    from 1(1) [OF less this] 1(3) sv1(2) obtain bs sv2 where "service_run c moved handle_conn bs sv1 = Some sv2"
      "at_rest sv2" "shared.started (sv_queue sv2) = shared.started (sv_queue sv)" by auto
    with run_append [OF sv1(1)] show ?thesis by blast
  qed
qed

end

text \<open>
  The workers can answer every request the parser does not fail on, as long as none of them can race: there is
  one worker only, or nobody asks for a file that has a descriptor.
\<close>

definition answerable :: "nat \<Rightarrow> descriptors \<Rightarrow> string \<Rightarrow> bool" where
  "answerable workers fds s \<longleftrightarrow> parses s \<and> (workers = 1 \<or> \<not> finds fds s)"

interpretation tcp_answering: answering_handler "tcp_worker files id" "calls_for files fds" "files_ok files fds"
  "\<lambda>c. answerable workers fds (tcp_request c)" workers "calm workers" for files fds workers
proof unfold_locales
  fix sf i and c :: http_connection
  assume sf: "files_ok files fds sf" and calm: "calm workers sf" and i: "i < workers"
    and c: "answerable workers fds (tcp_request c)"
  from c have "parses (tcp_request c)" by (simp add: answerable_def)
  with handle_connection_calls [of files "sf_manager sf" c] sf obtain calls fm where
    "tcp_handle (handle files) c (sf_manager sf) = Returns (Some calls :: 'a io list option, fm)" by blast
  then obtain r where "handle files (tcp_request c) (sf_manager sf) = Returns (r, fm)"
    by (auto simp: tcp_handle_def handle_connection_def obind_eq_Returns split: option.splits)
  from calm_handle [OF calm i _ _ this] sf c obtain sf' where
    "handle_shared files i (tcp_request c) sf = Returns (r, sf')" "calm workers sf'" by (auto simp: answerable_def)
  then show "\<exists>calls sf'. tcp_worker files id i c sf = Returns (Some calls :: 'a io list option, sf') \<and> calm workers sf'"
    by (auto simp: tcp_handle_def handle_connection_def tcp_send_def split: option.splits)
qed

interpretation tls_answering: answering_handler "tls_worker want_write files id"
  "tls_calls_for want_write files fds" "files_ok files fds"
  "\<lambda>c. answerable workers fds (tls_request c) \<and> (\<exists>n. \<not> want_write (tls_ssl c) n)" workers "calm workers"
  for want_write :: "'ssl \<Rightarrow> nat \<Rightarrow> bool" and files fds workers
proof unfold_locales
  fix sf i and c :: "'ssl https_connection"
  assume sf: "files_ok files fds sf" and calm: "calm workers sf" and i: "i < workers"
    and c: "answerable workers fds (tls_request c) \<and> (\<exists>n. \<not> want_write (tls_ssl c) n)"
  then obtain x where x: "parse_http_request (tls_request c) = Returns x"
    by (auto simp: answerable_def parses_def split: outcome.splits)
  from c obtain n where "\<not> want_write (tls_ssl c) n" by blast
  then have send: "\<exists>calls. TLSSender_SendMsg (want_write (tls_ssl c)) c r = Some calls" for r
    using tls_write_loop_ends [of "want_write (tls_ssl c)" n "tls_ssl c" r] by (auto simp: TLSSender_SendMsg_def)
  have "\<exists>r fm. handle files (tls_request c) (sf_manager sf) = Returns (r, fm)"
  proof (cases x)
    case (Inl e)
    with x show ?thesis by (simp add: handle_def)
  next
    case (Inr r)
    with x have "parse_http_request (tls_request c) = Returns (Inr r)" by simp
    from handle_agrees [OF this conjunct1 [OF sf]] show ?thesis by blast
  qed
  then obtain r fm where "handle files (tls_request c) (sf_manager sf) = Returns (r, fm)" by blast
  from calm_handle [OF calm i _ _ this] sf c obtain sf' where
    "handle_shared files i (tls_request c) sf = Returns (r, sf')" "calm workers sf'" by (auto simp: answerable_def)
  moreover from send obtain calls where "r = Some t \<Longrightarrow> TLSSender_SendMsg (want_write (tls_ssl c)) c t = Some calls" for t
    by (metis option.inject)
  ultimately show "\<exists>calls sf'. tls_worker want_write files id i c sf = Returns (Some calls, sf') \<and> calm workers sf'"
    by (cases r) (auto simp: tls_handle_def handle_connection_def)
qed

text \<open>
  C9. The pool can always finish.  From any state that such a run of the pool and the accepting thread
  reaches (sequentially consistent accesses, no push that laps a consumer), with at least one worker, requests the
  parser neither throws nor is undefined on, and one worker only or no request for a file that has a descriptor, so that
  the file cache cannot race (for TLS: and a library that does not want to write for ever), some
  continuation that adds no connection brings all workers back to
  an empty queue: no connection that was added is lost behind a stuck worker or in the ring.
\<close>

theorem pool_never_stuck:
  assumes "cache_agrees files fm" and "0 < workers" and "0 < c" and "c \<le> 100"
  shows "(serving c moved (tcp_worker files id) workers d (new_shared_files fm) sv \<and>
      (\<forall>x \<in> set (shared.started (sv_queue sv)). answerable workers (fm_descriptors fm) (tcp_request x)) \<longrightarrow>
      (\<exists>as sv'. service_run c moved (tcp_worker files id) as sv = Some sv' \<and> at_rest sv' \<and>
        shared.started (sv_queue sv') = shared.started (sv_queue sv))) \<and>
    (serving c moved_tls (tls_worker want_write files id) workers e (new_shared_files fm) tv \<and>
      (\<forall>x \<in> set (shared.started (sv_queue tv)). answerable workers (fm_descriptors fm) (tls_request x) \<and>
        (\<exists>n. \<not> want_write (tls_ssl x) n)) \<longrightarrow>
      (\<exists>as tv'. service_run c moved_tls (tls_worker want_write files id) as tv = Some tv' \<and>
        at_rest tv' \<and> shared.started (sv_queue tv') = shared.started (sv_queue tv)))"
proof -
  have "files_ok files (fm_descriptors fm) (new_shared_files fm :: nat shared_files)"
    using assms(1) by (simp add: new_shared_files_def)
  with tcp_answering.pool_finishes [of c moved files workers d "new_shared_files fm" sv "fm_descriptors fm"]
    tls_answering.pool_finishes [of c moved_tls want_write files workers e "new_shared_files fm" tv "fm_descriptors fm"]
    calm_new [of workers fm] assms(2-4)
  show ?thesis by blast
qed

lemma answerable_without_descriptors: "answerable workers Map.empty s = parses s"
  by (auto simp: answerable_def finds_def split: outcome.split sum.split)

text \<open>One worker has taken a connection, and another connection is in the queue.\<close>

definition quiet_service :: "http_connection activity list" where
  "quiet_service =
     map Access (push_accesses \<lparr>tcp_fd = 5, tcp_request = ''GET /b.css HTTP/1.1'' @ CRLF @ CRLF\<rparr>) @
     map Access (pop_accesses 0) @ [Handle 0] @
     map Access (push_accesses \<lparr>tcp_fd = 6, tcp_request = ''BREW / HTTP/1.1''\<rparr>)"

theorem pool_never_stuck_witness:
  "\<exists>(sv :: (http_connection, unit, nat shared_files) service) as sv'. serving 3 id (tcp_worker [''../webdir/a.css'' \<mapsto> ''body { }''] id) 2
       \<lparr>tcp_fd = 0, tcp_request = ''''\<rparr> (new_shared_files sample_manager) sv \<and> \<not> at_rest sv \<and>
     service_run 3 id (tcp_worker [''../webdir/a.css'' \<mapsto> ''body { }''] id) as sv = Some sv' \<and> at_rest sv'"
proof -
  let ?run = "service_run 3 id (tcp_worker [''../webdir/a.css'' \<mapsto> ''body { }''] id) quiet_service
    (new_service 3 2 \<lparr>tcp_fd = 0, tcp_request = ''''\<rparr> (new_shared_files sample_manager) :: (http_connection, unit, nat shared_files) service)"
  have "case ?run of None \<Rightarrow> False | Some sv \<Rightarrow>
      \<not> at_rest sv \<and> list_all (\<lambda>x. answerable 2 (fm_descriptors sample_manager) (tcp_request x)) (shared.started (sv_queue sv))"
    by code_simp
  then obtain sv where run: "?run = Some sv" and sv: "\<not> at_rest sv"
    "\<forall>x \<in> set (shared.started (sv_queue sv)). answerable 2 (fm_descriptors sample_manager) (tcp_request x)"
    by (auto simp: list_all_iff split: option.splits)
  note serving = service_run_serving [OF serving.start run]
  have "(0 :: nat) < 2" "(0 :: nat) < 3" "(3 :: nat) \<le> 100" by simp_all
  from pool_never_stuck [OF sample_manager_agrees this, THEN conjunct1, rule_format, OF conjI [OF serving sv(2)]]
  obtain as sv' where "service_run 3 id (tcp_worker [''../webdir/a.css'' \<mapsto> ''body { }''] id) as sv = Some sv'"
    "at_rest sv'" by blast
  with serving sv(1) show ?thesis by blast
qed

section \<open>The cache is shared and not locked\<close>

text \<open>The uses of the manager are never forgotten.\<close>

lemma step_uses:
  fixes sv sv' :: "(http_connection, 'ssl, 'w shared_files) service"
  assumes "service_step c moved (tcp_worker files own) a sv = Some sv'"
  shows "set (sf_uses (sv_state sv)) \<subseteq> set (sf_uses (sv_state sv'))"
proof (cases a)
  case (Handle i)
  with assms obtain x and calls :: "'ssl io list" where "tcp_worker files own i x (sv_state sv) = Returns (Some calls, sv_state sv')"
    by (auto simp: step_Handle)
  then show ?thesis
    by (auto simp: tcp_handle_def handle_connection_def obind_eq_Returns handle_shared_Returns split: option.splits)
qed (use assms in \<open>auto simp: step_Access step_Perform split: option.splits\<close>)

lemma run_uses:
  "service_run c moved (tcp_worker files own) as sv = Some sv' \<Longrightarrow> set (sf_uses (sv_state sv)) \<subseteq> set (sf_uses (sv_state sv'))"
proof (induction as arbitrary: sv)
  case (Cons a as)
  then obtain sv1 where "service_step c moved (tcp_worker files own) a sv = Some sv1"
    "service_run c moved (tcp_worker files own) as sv1 = Some sv'" by (auto split: option.splits if_splits)
  with Cons.IH [of sv1] step_uses show ?case by blast
qed simp

lemma use_of_accepted:
  assumes "parse_http_request s = Returns (Inr r)"
  shows "use_of s fm \<noteq> NoUse" and "finds (fm_descriptors fm) s \<Longrightarrow> use_of s fm = Modifies"
  using assms by (auto simp: use_of_def use_at_def finds_def convert_to_filedirectory_def remove_query_eq)


text \<open>Two workers have taken requests, one for a file that is there and one for a file that is not.\<close>

definition racing_requests :: "http_connection activity list" where
  "racing_requests =
     map Access (push_accesses \<lparr>tcp_fd = 5, tcp_request = ''GET /a.css HTTP/1.1'' @ CRLF @ CRLF\<rparr> @ pop_accesses 0 @
       push_accesses \<lparr>tcp_fd = 6, tcp_request = ''GET /b.css HTTP/1.1'' @ CRLF @ CRLF\<rparr> @ pop_accesses 1)"


end
