(* ===== verification/ErrnoLoops.thy ===== *)
theory ErrnoLoops
  imports AcceptLoop
begin

text \<open>
  The accept loops on a system that behaves as Linux documents it: a call that succeeds leaves \<^verbatim>\<open>errno\<close>
  alone; \<^verbatim>\<open>accept4\<close> on the non-blocking socket with nobody waiting, and \<^verbatim>\<open>recv\<close> with nothing there, fail
  with \<open>EAGAIN\<close>.  The loops take that for a failure of the next accept.
\<close>

section \<open>What the two loops have in common\<close>

text \<open>The rounds up to the first that waits, which is the last one heard.\<close>

definition heard :: "('r \<Rightarrow> bool) \<Rightarrow> 'r list \<Rightarrow> 'r list" where
  "heard waits rounds = takeWhile (\<lambda>r. \<not> waits r) rounds @ take 1 (dropWhile (\<lambda>r. \<not> waits r) rounds)"

lemma heard_Nil: "heard waits [] = []"
  by (simp add: heard_def)

lemma heard_Cons: "heard waits (r # rounds) = r # (if waits r then [] else heard waits rounds)"
  by (simp add: heard_def)

lemma heard_all: "\<forall>r \<in> set rounds. \<not> waits r \<Longrightarrow> heard waits rounds = rounds"
  by (induction rounds) (simp_all add: heard_Nil heard_Cons)

lemma heard_snoc:
  "heard waits (rounds @ [r]) = (if \<exists>x \<in> set rounds. waits x then heard waits rounds else rounds @ [r])"
  by (induction rounds) (simp_all add: heard_Nil heard_Cons)

lemma heard_subset: "set (heard waits rounds) \<subseteq> set rounds"
  by (induction rounds) (auto simp: heard_Nil heard_Cons)

text \<open>
  \<open>ordinary\<close> rounds are those of such a system; in a round that \<open>waits\<close> some call found nothing there.
\<close>

locale errno_loop =
  fixes loop :: "'r list \<Rightarrow> 'c server \<Rightarrow> (loop_status \<times> 'c server) outcome"
    and accept :: "('r, 'c) accepting"
    and task :: "'r \<Rightarrow> 'c list"
    and ordinary :: "'r \<Rightarrow> bool"
    and waits :: "'r \<Rightarrow> bool"
  assumes loop_Nil: "loop [] srv = Returns (Running, srv)"
    and loop_Cons: "loop (r # rounds) srv =
     obind (accept r srv) (\<lambda>(result, srv).
       case result of
         Inl status \<Rightarrow> Returns (status, srv)
       | Inr None \<Rightarrow> loop rounds srv
       | Inr (Some c) \<Rightarrow> obind (pool_task c srv) (loop rounds))"
    and deaf: "ordinary r \<Longrightarrow> srv_errno srv = EAGAIN \<Longrightarrow>
      \<exists>srv'. accept r srv = Returns (Inr None, srv') \<and> srv_errno srv' = EAGAIN \<and> srv_pool srv' = srv_pool srv"
    and hears: "ordinary r \<Longrightarrow> srv_errno srv \<noteq> EAGAIN \<Longrightarrow>
      \<exists>srv'. accept r srv = Returns (Inr (case task r of [] \<Rightarrow> None | x # xs \<Rightarrow> Some x), srv') \<and>
        srv_errno srv' = (if waits r then EAGAIN else srv_errno srv) \<and> srv_pool srv' = srv_pool srv"
    and task_single: "task r = [] \<or> (\<exists>x. task r = [x])"
begin

lemma deaf_rounds:
  "\<forall>r \<in> set rounds. ordinary r \<Longrightarrow> srv_errno srv = EAGAIN \<Longrightarrow>
   \<exists>srv'. loop rounds srv = Returns (Running, srv') \<and> srv_pool srv' = srv_pool srv"
proof (induction rounds arbitrary: srv)
  case (Cons r rounds)
  from Cons.prems deaf [of r srv] obtain srv1 where
    "accept r srv = Returns (Inr None, srv1)" "srv_errno srv1 = EAGAIN" "srv_pool srv1 = srv_pool srv" by auto
  with Cons.IH [of srv1] Cons.prems(1) show ?case by (simp add: loop_Cons)
qed (simp add: loop_Nil)

lemma heard_rounds_ok:
  "\<forall>r \<in> set rounds. ordinary r \<Longrightarrow> srv_errno srv \<noteq> EAGAIN \<Longrightarrow> server_ok srv \<Longrightarrow>
   length (pending srv) + length (concat (map task (heard waits rounds))) \<le> 99 \<Longrightarrow>
   \<exists>srv'. loop rounds srv = Returns (Running, srv') \<and> server_ok srv' \<and>
     pending srv' = pending srv @ concat (map task (heard waits rounds))"
proof (induction rounds arbitrary: srv)
  case Nil
  then show ?case by (simp add: loop_Nil heard_def)
next
  case (Cons r rounds)
  from Cons.prems hears [of r srv] obtain srv1 where
    a: "accept r srv = Returns (Inr (case task r of [] \<Rightarrow> None | x # xs \<Rightarrow> Some x), srv1)"
      "srv_errno srv1 = (if waits r then EAGAIN else srv_errno srv)" "srv_pool srv1 = srv_pool srv" by auto
  from a(3) Cons.prems(3) have ok1: "server_ok srv1" "pending srv1 = pending srv" by (simp_all add: server_ok_def)
  have "\<exists>srv2. loop (r # rounds) srv = loop rounds srv2 \<and> server_ok srv2 \<and> pending srv2 = pending srv @ task r \<and>
      srv_errno srv2 = srv_errno srv1"
  proof (cases "task r")
    case Nil
    with a ok1 show ?thesis by (intro exI [of _ srv1]) (simp add: loop_Cons)
  next
    case (Cons x xs)
    with task_single [of r] have x: "task r = [x]" by auto
    with Cons.prems(4) ok1 have "length (pending srv1) < 99" by (simp add: heard_Cons)
    from pool_task_room [OF ok1(1) this, of x] obtain srv2 where
      "pool_task x srv1 = Returns srv2" "server_ok srv2" "pending srv2 = pending srv1 @ [x]" "srv_errno srv2 = srv_errno srv1" by blast
    with a x ok1 show ?thesis by (intro exI [of _ srv2]) (simp add: loop_Cons)
  qed
  then obtain srv2 where srv2: "loop (r # rounds) srv = loop rounds srv2" "server_ok srv2"
    "pending srv2 = pending srv @ task r" "srv_errno srv2 = srv_errno srv1" by blast
  show ?case
  proof (cases "waits r")
    case True
    with deaf_rounds [of rounds srv2] Cons.prems(1) a(2) srv2 show ?thesis by (auto simp: heard_Cons server_ok_def)
  next
    case False
    with Cons.IH [of srv2] Cons.prems a(2) srv2 show ?thesis by (auto simp: heard_Cons)
  qed
qed

lemma heard_rounds:
  "\<forall>r \<in> set rounds. ordinary r \<Longrightarrow> srv_errno srv \<noteq> EAGAIN \<Longrightarrow> server_ok srv \<Longrightarrow>
   length (pending srv) + length (concat (map task (heard waits rounds))) \<le> 99 \<Longrightarrow>
   \<exists>srv'. loop rounds srv = Returns (Running, srv') \<and> pending srv' = pending srv @ concat (map task (heard waits rounds))"
  using heard_rounds_ok by blast

end

section \<open>Both loops\<close>

definition again :: recv_answer where
  "again = \<lparr>ra_count = -1, ra_errno = Some EAGAIN, ra_bytes = ''''\<rparr>"

definition got :: "int option \<Rightarrow> string \<Rightarrow> recv_answer" where
  "got e bytes = \<lparr>ra_count = int (length bytes), ra_errno = e, ra_bytes = bytes\<rparr>"

text \<open>A connection is read from until something is there.\<close>

definition linux_round :: "tcp_round \<Rightarrow> bool" where
  "linux_round r \<longleftrightarrow> \<not> tr_stop r \<and>
     (if tr_fd r = -1 then tr_errno r = Some EAGAIN
      else tr_errno r = None \<and>
        (\<exists>k bytes. tr_recvs r = replicate k again @ [got None bytes] \<and> length bytes \<le> MAXBUFLEN - 1))"

definition finds_nothing :: "tcp_round \<Rightarrow> bool" where
  "finds_nothing r \<longleftrightarrow> tr_fd r = -1 \<or> again \<in> set (tr_recvs r)"

lemma recv_loop_again:
  "\<exists>srv'. recv_loop (replicate k again @ [got None bytes]) srv = Some (got None bytes, srv') \<and>
     srv_errno srv' = (if k = 0 then srv_errno srv else EAGAIN) \<and> srv_pool srv' = srv_pool srv \<and>
     srv_client_fd srv' = srv_client_fd srv"
proof (induction k arbitrary: srv)
  case 0
  show ?case by (simp add: got_def Let_def)
next
  case (Suc k)
  from Suc [of "set_errno (Some EAGAIN) srv"] show ?case
    by (auto simp: again_def Let_def split: if_splits)
qed

lemma final_answer_again:
  "tr_recvs r = replicate k again @ [got None bytes] \<Longrightarrow> final_answer r = got None bytes"
  by (induction k arbitrary: r) (auto simp: final_answer_def again_def got_def dropWhile_append)

interpretation tcp_errno: errno_loop tcp_AcceptIncoming accept_round task_of linux_round finds_nothing
proof unfold_locales
  fix r :: tcp_round and srv :: "http_connection server"
  assume r: "linux_round r" and e: "srv_errno srv = EAGAIN"
  then show "\<exists>srv'. accept_round r srv = Returns (Inr None, srv') \<and> srv_errno srv' = EAGAIN \<and> srv_pool srv' = srv_pool srv"
    by (auto simp: accept_round_def linux_round_def Let_def split: if_splits)
next
  fix r :: tcp_round and srv :: "http_connection server"
  assume r: "linux_round r" and e: "srv_errno srv \<noteq> EAGAIN"
  show "\<exists>srv'. accept_round r srv = Returns (Inr (case task_of r of [] \<Rightarrow> None | x # xs \<Rightarrow> Some x), srv') \<and>
        srv_errno srv' = (if finds_nothing r then EAGAIN else srv_errno srv) \<and> srv_pool srv' = srv_pool srv"
  proof (cases "tr_fd r = -1")
    case True
    with r show ?thesis by (auto simp: accept_round_def linux_round_def task_of_def finds_nothing_def Let_def)
  next
    case False
    with r obtain k bytes where rr: "tr_recvs r = replicate k again @ [got None bytes]" "length bytes \<le> MAXBUFLEN - 1"
      "tr_errno r = None" "\<not> tr_stop r" by (auto simp: linux_round_def)
    let ?srv = "set_errno (tr_errno r) (srv\<lparr>srv_client_fd := tr_fd r\<rparr>)"
    from recv_loop_again [of k bytes ?srv] obtain srv1 where
      srv1: "recv_loop (tr_recvs r) ?srv = Some (got None bytes, srv1)"
        "srv_errno srv1 = (if k = 0 then srv_errno srv else EAGAIN)" "srv_pool srv1 = srv_pool srv" "srv_client_fd srv1 = tr_fd r"
      using rr by auto
    have "request_in_buffer (got None bytes) = Returns (takeWhile (\<lambda>c. c \<noteq> CHR 0x00) bytes)"
      using request_in_buffer_eq [of "got None bytes"] rr(2) by (simp add: got_def)
    moreover have "finds_nothing r \<longleftrightarrow> k \<noteq> 0"
      using False rr(1) by (auto simp: finds_nothing_def again_def got_def)
    ultimately show ?thesis
      using srv1 rr(3,4) False e final_answer_again [OF rr(1)]
      by (auto simp: accept_round_def task_of_def Let_def got_def)
  qed
qed (rule tcp_AcceptIncoming.simps(1), rule accept_rounds, simp add: task_of_def)

text \<open>
  Over TLS the reads that are repeated, and the last one, may leave \<open>EAGAIN\<close>, as the library reads from the
  non-blocking descriptor.
\<close>

definition linux_tls_round :: "'ssl tls_round \<Rightarrow> bool" where
  "linux_tls_round r \<longleftrightarrow> \<not> lr_stop r \<and>
     (if lr_fd r = -1 then lr_errno r = Some EAGAIN
      else lr_errno r = None \<and> (\<forall>(a, w) \<in> set (lr_reads r). ra_errno a \<in> {None, Some EAGAIN}) \<and>
        (\<exists>before e bytes. lr_reads r = before @ [(got e bytes, False)] \<and> list_all snd before \<and> length bytes \<le> MAXBUFLEN - 1))"

definition tls_finds_nothing :: "'ssl tls_round \<Rightarrow> bool" where
  "tls_finds_nothing r \<longleftrightarrow> lr_fd r = -1 \<or> (\<exists>(a, w) \<in> set (lr_reads r). ra_errno a = Some EAGAIN)"

lemma tls_read_loop_again:
  "list_all snd before \<Longrightarrow> \<forall>(a, w) \<in> set (before @ [(b, False)]). ra_errno a \<in> {None, Some EAGAIN} \<Longrightarrow>
   \<exists>srv'. tls_read_loop (before @ [(b, False)]) srv = Some (b, srv') \<and>
     srv_errno srv' = (if \<exists>(a, w) \<in> set (before @ [(b, False)]). ra_errno a = Some EAGAIN then EAGAIN else srv_errno srv) \<and>
     srv_pool srv' = srv_pool srv \<and> srv_client_fd srv' = srv_client_fd srv"
proof (induction before arbitrary: srv)
  case Nil
  then show ?case by (auto simp: Let_def)
next
  case (Cons aw before)
  obtain a where aw: "aw = (a, True)" using Cons.prems(1) by (cases aw) auto
  from Cons.IH [of "set_errno (ra_errno a) srv"] Cons.prems aw show ?case
    by (auto simp: Let_def split: if_splits)
qed

lemma tls_final_answer_again:
  "lr_reads r = before @ [(b, False)] \<Longrightarrow> list_all snd before \<Longrightarrow> tls_final_answer r = b"
proof -
  assume r: "lr_reads r = before @ [(b, False)]" and w: "list_all snd before"
  from w have "dropWhile snd (before @ [(b, False)]) = [(b, False)]" by (induction before) auto
  with r show ?thesis by (simp add: tls_final_answer_def)
qed

interpretation tls_errno: errno_loop tls_AcceptIncoming tls_accept_round tls_task_of linux_tls_round tls_finds_nothing
proof unfold_locales
  fix r :: "'ssl tls_round" and srv :: "'ssl https_connection server"
  assume r: "linux_tls_round r" and e: "srv_errno srv = EAGAIN"
  then show "\<exists>srv'. tls_accept_round r srv = Returns (Inr None, srv') \<and> srv_errno srv' = EAGAIN \<and> srv_pool srv' = srv_pool srv"
    by (auto simp: tls_accept_round_def linux_tls_round_def Let_def split: if_splits)
next
  fix r :: "'ssl tls_round" and srv :: "'ssl https_connection server"
  assume r: "linux_tls_round r" and e: "srv_errno srv \<noteq> EAGAIN"
  show "\<exists>srv'. tls_accept_round r srv = Returns (Inr (case tls_task_of r of [] \<Rightarrow> None | x # xs \<Rightarrow> Some x), srv') \<and>
        srv_errno srv' = (if tls_finds_nothing r then EAGAIN else srv_errno srv) \<and> srv_pool srv' = srv_pool srv"
  proof (cases "lr_fd r = -1")
    case True
    with r show ?thesis
      by (auto simp: tls_accept_round_def linux_tls_round_def tls_task_of_def tls_finds_nothing_def Let_def)
  next
    case False
    with r obtain before e' bytes where rr: "lr_reads r = before @ [(got e' bytes, False)]" "list_all snd before"
      "length bytes \<le> MAXBUFLEN - 1" "lr_errno r = None" "\<not> lr_stop r"
      and all: "\<forall>(a, w) \<in> set (lr_reads r). ra_errno a \<in> {None, Some EAGAIN}" by (auto simp: linux_tls_round_def)
    let ?srv = "set_errno (lr_errno r) (srv\<lparr>srv_client_fd := lr_fd r\<rparr>)"
    from tls_read_loop_again [OF rr(2) all [unfolded rr(1)], of ?srv] obtain srv1 where
      srv1: "tls_read_loop (lr_reads r) ?srv = Some (got e' bytes, srv1)"
        "srv_errno srv1 = (if tls_finds_nothing r then EAGAIN else srv_errno srv)" "srv_pool srv1 = srv_pool srv"
        "srv_client_fd srv1 = lr_fd r"
      using rr False by (auto simp: tls_finds_nothing_def)
    have "request_in_buffer (got e' bytes) = Returns (takeWhile (\<lambda>c. c \<noteq> CHR 0x00) bytes)"
      using request_in_buffer_eq [of "got e' bytes"] rr(3) by (simp add: got_def)
    with srv1 rr(4,5) False e tls_final_answer_again [OF rr(1,2)] show ?thesis
      by (auto simp: tls_accept_round_def tls_task_of_def Let_def got_def)
  qed
qed (rule tls_AcceptIncoming.simps(1), rule tls_accept_rounds, simp add: tls_task_of_def)

text \<open>
  C32. What is heard.  On a system that leaves \<^verbatim>\<open>errno\<close> alone when a call succeeds, from a server
  whose thread has not met \<open>EAGAIN\<close> yet, and while the pool has room (at most 99 connections with those
  pending), both loops go on for ever, and what they hand to the workers are exactly the connections up to the
  first round that had to wait, whether for somebody to connect or for the bytes of a request; every
  connection that arrives after it is dropped.
\<close>

theorem heard_until_first_wait:
  assumes "\<forall>r \<in> set rounds. linux_round r" and "\<forall>r \<in> set tls_rounds. linux_tls_round r"
    and "srv_errno srv \<noteq> EAGAIN" "server_ok srv" "length (pending srv) + length (concat (map task_of (heard finds_nothing rounds))) \<le> 99"
    and "srv_errno tls \<noteq> EAGAIN" "server_ok tls"
      "length (pending tls) + length (concat (map tls_task_of (heard tls_finds_nothing tls_rounds))) \<le> 99"
  shows "(\<exists>srv'. tcp_AcceptIncoming rounds srv = Returns (Running, srv') \<and>
      pending srv' = pending srv @ concat (map task_of (heard finds_nothing rounds))) \<and>
    (\<exists>tls'. tls_AcceptIncoming tls_rounds tls = Returns (Running, tls') \<and>
      pending tls' = pending tls @ concat (map tls_task_of (heard tls_finds_nothing tls_rounds)))"
  using tcp_errno.heard_rounds [OF assms(1,3-5)] tls_errno.heard_rounds [OF assms(2,6-8)] by blast

text \<open>
  Two connections are there before the server first looks; the second sends its request late, and the
  third comes after that.
\<close>

definition linux_sample :: "tcp_round list" where
  "linux_sample =
     [\<lparr>tr_stop = False, tr_fd = 5, tr_errno = None, tr_recvs = [got None ''GET /a HTTP/1.1'']\<rparr>,
      \<lparr>tr_stop = False, tr_fd = 6, tr_errno = None, tr_recvs = [again, again, got None ''GET /b HTTP/1.1'']\<rparr>,
      \<lparr>tr_stop = False, tr_fd = 7, tr_errno = None, tr_recvs = [got None ''GET /c HTTP/1.1'']\<rparr>]"

theorem heard_until_first_wait_witness:
  "\<exists>srv. tcp_AcceptIncoming linux_sample (TCPServer HTTP_PORT) = Returns (Running, srv) \<and>
     pending srv = [\<lparr>tcp_fd = 5, tcp_request = ''GET /a HTTP/1.1''\<rparr>, \<lparr>tcp_fd = 6, tcp_request = ''GET /b HTTP/1.1''\<rparr>]"
proof -
  have "linux_round \<lparr>tr_stop = False, tr_fd = fd, tr_errno = None, tr_recvs = replicate k again @ [got None bytes]\<rparr>"
    if "fd \<noteq> -1" "length bytes \<le> 4095" for fd k bytes
    using that by (auto simp: linux_round_def MAXBUFLEN_def)
  from this [of 5 "''GET /a HTTP/1.1''" 0] this [of 6 "''GET /b HTTP/1.1''" 2] this [of 7 "''GET /c HTTP/1.1''" 0]
  have all: "\<forall>r \<in> set linux_sample. linux_round r" by (simp add: linux_sample_def numeral_2_eq_2)
  have tasks: "concat (map task_of (heard finds_nothing linux_sample)) =
      [\<lparr>tcp_fd = 5, tcp_request = ''GET /a HTTP/1.1''\<rparr>, \<lparr>tcp_fd = 6, tcp_request = ''GET /b HTTP/1.1''\<rparr>]"
    by code_simp
  have "srv_errno (TCPServer HTTP_PORT) \<noteq> EAGAIN" "srv_errno (TLSServer 0 0 (0 :: nat) HTTPS_PORT) \<noteq> EAGAIN"
    "server_ok (TLSServer 0 0 (0 :: nat) HTTPS_PORT)" "pending (TLSServer 0 0 (0 :: nat) HTTPS_PORT) = []"
    by (simp_all add: TCPServer_def TLSServer_def EAGAIN_def server_ok_def new_threadpool_def new_queue_sized contents_new)
  with heard_until_first_wait [OF all, of "[]" "TCPServer HTTP_PORT" "TLSServer 0 0 (0 :: nat) HTTPS_PORT"] tasks
  show ?thesis by (simp add: server_ok_new heard_Nil)
qed

section \<open>A silent client\<close>

text \<open>A round whose client connects and sends nothing.\<close>

definition silent :: "tcp_round \<Rightarrow> bool" where
  "silent r \<longleftrightarrow> \<not> tr_stop r \<and> tr_fd r \<noteq> -1 \<and> tr_errno r = None \<and> set (tr_recvs r) \<subseteq> {again}"

definition tls_silent :: "'ssl tls_round \<Rightarrow> bool" where
  "tls_silent r \<longleftrightarrow> \<not> lr_stop r \<and> lr_fd r \<noteq> -1 \<and> lr_errno r = None \<and> list_all snd (lr_reads r)"

text \<open>
  C33. One client that connects and sends nothing holds the whole server, if it comes before any call of the
  accepting thread has left \<open>EAGAIN\<close> in \<^verbatim>\<open>errno\<close> (one that comes later is dropped, as C35 says).  As long
  as the system answers that nothing is there, or the library that it wants to read, the accept loop then stays in
  that connection's read, however often it has asked: it hands nothing more to the workers, looks at no
  other connection, and does not see that it is asked to stop.
\<close>

theorem silent_client_blocks:
  assumes "tcp_AcceptIncoming before srv = Returns (Running, srv1)" "srv_errno srv1 \<noteq> EAGAIN" "silent r"
    and "tls_AcceptIncoming tls_before tls = Returns (Running, tls1)" "srv_errno tls1 \<noteq> EAGAIN" "tls_silent lr"
  shows "(\<exists>srv2. tcp_AcceptIncoming (before @ r # after) srv = Returns (Waiting, srv2) \<and> srv_pool srv2 = srv_pool srv1) \<and>
    (\<exists>tls2. tls_AcceptIncoming (tls_before @ lr # tls_after) tls = Returns (Waiting, tls2) \<and> srv_pool tls2 = srv_pool tls1)"
proof
  have "recv_loop as s = None" if "set as \<subseteq> {again}" for as and s :: "http_connection server"
    using that by (induction as arbitrary: s) (auto simp: again_def Let_def)
  with assms(2,3) show "\<exists>srv2. tcp_AcceptIncoming (before @ r # after) srv = Returns (Waiting, srv2) \<and> srv_pool srv2 = srv_pool srv1"
    by (simp add: tcp_accept_append assms(1) silent_def Let_def)
  have "tls_read_loop as s = None" if "list_all snd as" for as and s :: "'a https_connection server"
    using that by (induction as arbitrary: s) (auto simp: Let_def)
  with assms(5,6) show "\<exists>tls2. tls_AcceptIncoming (tls_before @ lr # tls_after) tls = Returns (Waiting, tls2) \<and> srv_pool tls2 = srv_pool tls1"
    by (simp add: tls_accept_append assms(4) tls_silent_def Let_def)
qed

theorem silent_client_blocks_witness:
  "\<exists>srv. tcp_AcceptIncoming
       [\<lparr>tr_stop = False, tr_fd = 5, tr_errno = None, tr_recvs = replicate 1000 again\<rparr>,
        \<lparr>tr_stop = True, tr_fd = 6, tr_errno = None, tr_recvs = []\<rparr>] (TCPServer HTTP_PORT) = Returns (Waiting, srv) \<and>
     pending srv = []"
proof -
  let ?r = "\<lparr>tr_stop = False, tr_fd = 5, tr_errno = None, tr_recvs = replicate 1000 again\<rparr>"
  let ?lr = "\<lparr>lr_stop = False, lr_fd = 5, lr_errno = None, lr_ssl = 0 :: nat, lr_reads = []\<rparr>"
  have "srv_errno (TCPServer HTTP_PORT) \<noteq> EAGAIN" "srv_errno (TLSServer 0 0 (0 :: nat) HTTPS_PORT) \<noteq> EAGAIN"
    by (simp_all add: TCPServer_def TLSServer_def EAGAIN_def)
  moreover have "silent ?r" "tls_silent ?lr" by (auto simp: silent_def tls_silent_def)
  ultimately obtain srv where "tcp_AcceptIncoming ([] @ ?r # [\<lparr>tr_stop = True, tr_fd = 6, tr_errno = None, tr_recvs = []\<rparr>])
      (TCPServer HTTP_PORT) = Returns (Waiting, srv)" "srv_pool srv = srv_pool (TCPServer HTTP_PORT)"
    using silent_client_blocks [OF tcp_AcceptIncoming.simps(1) _ _ tls_AcceptIncoming.simps(1)] by blast
  then show ?thesis by (intro exI [of _ srv]) (simp only: append.simps server_ok_new simp_thms)
qed

section \<open>A read that fails\<close>

definition tcp_read_fails :: "tcp_round \<Rightarrow> bool" where
  "tcp_read_fails r \<longleftrightarrow> \<not> tr_stop r \<and> tr_fd r \<noteq> -1 \<and> tr_errno r = None \<and>
     (\<exists>a answers e. tr_recvs r = a # answers \<and> ra_count a = -1 \<and> ra_errno a = Some e \<and> e \<noteq> EAGAIN)"

definition tls_read_fails :: "'ssl tls_round \<Rightarrow> bool" where
  "tls_read_fails r \<longleftrightarrow> \<not> lr_stop r \<and> lr_fd r \<noteq> -1 \<and> lr_errno r = None \<and>
     (\<exists>a reads. lr_reads r = (a, False) # reads \<and> ra_count a < 0)"



end
