(* ===== verification/LiveServer.thy ===== *)
theory LiveServer
  imports Service ErrnoLoops
begin

text \<open>
  The accept loops (\<^verbatim>\<open>tcp_server.hpp\<close>, \<^verbatim>\<open>tls_server.hpp\<close>) and the pool at the same time: the accepting thread makes the
  rounds of its loop, one push for each connection it has read a request from, while the workers pop
  and serve.  A round up to its push is one step; the accesses of the push are steps of their own.
\<close>

section \<open>The loop and the pool together\<close>

text \<open>
  \<open>lv_rounds\<close> are the rounds to come, \<open>lv_seen\<close> those made.  The pool's queue is the one of
  \<open>lv_service\<close>; of \<open>lv_server\<close> the accepting thread uses the other members.
\<close>

record ('r, 'c, 'ssl, 's) live =
  lv_rounds :: "'r list"
  lv_seen :: "'r list"
  lv_server :: "'c server"
  lv_status :: loop_status
  lv_service :: "('c, 'ssl, 's) service"

definition new_live :: "nat \<Rightarrow> nat \<Rightarrow> 'c \<Rightarrow> 's \<Rightarrow> 'r list \<Rightarrow> 'c server \<Rightarrow> ('r, 'c, 'ssl, 's) live" where
  "new_live c workers d st rounds srv =
     \<lparr>lv_rounds = rounds, lv_seen = [], lv_server = srv, lv_status = Running, lv_service = new_service c workers d st\<rparr>"

datatype 'c live_activity =
    Round
  | Thread "'c activity"

fun starts_push :: "'c activity \<Rightarrow> bool" where
  "starts_push (Access (LoadTail x)) = True"
| "starts_push _ = False"

text \<open>The accepting thread makes its next round when it is not in the middle of a push.\<close>

fun live_step ::
  "('r, 'c) accepting \<Rightarrow> nat \<Rightarrow> ('c \<Rightarrow> 'c) \<Rightarrow> (nat \<Rightarrow> 'c \<Rightarrow> 's \<Rightarrow> ('ssl io list option \<times> 's) outcome) \<Rightarrow>
   'c live_activity \<Rightarrow> ('r, 'c, 'ssl, 's) live \<Rightarrow> ('r, 'c, 'ssl, 's) live option" where
  "live_step accept c moved hc Round lv =
     (if lv_status lv = Running \<and> sh_producer (sv_queue (lv_service lv)) = PIdle then
        case lv_rounds lv of
          [] \<Rightarrow> None
        | r # rounds \<Rightarrow>
            (case accept r (lv_server lv) of
               Returns (result, srv) \<Rightarrow>
                 (let lv' = lv\<lparr>lv_rounds := rounds, lv_seen := lv_seen lv @ [r], lv_server := srv\<rparr> in
                  case result of
                    Inl status \<Rightarrow> Some (lv'\<lparr>lv_status := status\<rparr>)
                  | Inr None \<Rightarrow> Some lv'
                  | Inr (Some x) \<Rightarrow>
                      map_option (\<lambda>sv. lv'\<lparr>lv_service := sv\<rparr>)
                        (service_step c moved hc (Access (LoadTail x)) (lv_service lv)))
             | _ \<Rightarrow> None)
      else None)"
| "live_step accept c moved hc (Thread a) lv =
     (if starts_push a then None
      else map_option (\<lambda>sv. lv\<lparr>lv_service := sv\<rparr>) (service_step c moved hc a (lv_service lv)))"

definition paced_at :: "nat \<Rightarrow> 'c live_activity \<Rightarrow> ('r, 'c, 'ssl, 's) live \<Rightarrow> bool" where
  "paced_at c a lv \<longleftrightarrow>
     (case a of Round \<Rightarrow> unlapped c (sv_queue (lv_service lv)) (sv_history (lv_service lv)) | _ \<Rightarrow> True)"

inductive live_run ::
  "('r, 'c) accepting \<Rightarrow> nat \<Rightarrow> ('c \<Rightarrow> 'c) \<Rightarrow> (nat \<Rightarrow> 'c \<Rightarrow> 's \<Rightarrow> ('ssl io list option \<times> 's) outcome) \<Rightarrow> nat \<Rightarrow> 'c \<Rightarrow> 's \<Rightarrow>
   'r list \<Rightarrow> 'c server \<Rightarrow> ('r, 'c, 'ssl, 's) live \<Rightarrow> bool"
  for accept c moved hc workers d st rounds srv where
  start: "live_run accept c moved hc workers d st rounds srv (new_live c workers d st rounds srv)"
| step: "live_run accept c moved hc workers d st rounds srv lv \<Longrightarrow> paced_at c a lv \<Longrightarrow>
    live_step accept c moved hc a lv = Some lv' \<Longrightarrow> live_run accept c moved hc workers d st rounds srv lv'"

fun live_steps ::
  "('r, 'c) accepting \<Rightarrow> nat \<Rightarrow> ('c \<Rightarrow> 'c) \<Rightarrow> (nat \<Rightarrow> 'c \<Rightarrow> 's \<Rightarrow> ('ssl io list option \<times> 's) outcome) \<Rightarrow>
   'c live_activity list \<Rightarrow> ('r, 'c, 'ssl, 's) live \<Rightarrow> ('r, 'c, 'ssl, 's) live option" where
  "live_steps accept c moved hc [] lv = Some lv"
| "live_steps accept c moved hc (a # as) lv =
     (if paced_at c a lv
      then (case live_step accept c moved hc a lv of
              None \<Rightarrow> None | Some lv' \<Rightarrow> live_steps accept c moved hc as lv') else None)"

lemma live_steps_run:
  "live_run accept c moved hc workers d st rounds srv lv \<Longrightarrow> live_steps accept c moved hc as lv = Some lv' \<Longrightarrow>
   live_run accept c moved hc workers d st rounds srv lv'"
  by (induction as arbitrary: lv) (auto split: option.splits if_splits intro: live_run.step)

section \<open>What a step adds\<close>

lemma load_tail_started:
  "service_step c moved hc (Access (LoadTail x)) sv = Some sv' \<Longrightarrow>
   shared.started (sv_queue sv') = shared.started (sv_queue sv) @ [x]"
  using step_started by fastforce

lemma other_started:
  "service_step c moved hc a sv = Some sv' \<Longrightarrow> \<not> starts_push a \<Longrightarrow>
   shared.started (sv_queue sv') = shared.started (sv_queue sv)"
  by (drule step_started, cases a rule: starts_push.cases) (auto split: mem_access.splits)

lemma live_Round:
  assumes "live_step accept c moved hc Round lv = Some lv'"
  obtains r rs result srv where "lv_rounds lv = r # rs" "accept r (lv_server lv) = Returns (result, srv)"
    "lv_seen lv' = lv_seen lv @ [r]" "lv_rounds lv' = rs" "lv_server lv' = srv"
    "case result of
       Inl status \<Rightarrow> lv_status lv' = status \<and> lv_service lv' = lv_service lv
     | Inr None \<Rightarrow> lv_status lv' = lv_status lv \<and> lv_service lv' = lv_service lv
     | Inr (Some x) \<Rightarrow> lv_status lv' = lv_status lv \<and>
         service_step c moved hc (Access (LoadTail x)) (lv_service lv) = Some (lv_service lv')"
proof -
  from assms obtain r rs where r: "lv_rounds lv = r # rs" by (auto split: if_splits list.splits)
  with assms obtain result srv where "accept r (lv_server lv) = Returns (result, srv)"
    by (auto split: if_splits outcome.splits)
  moreover from this r assms have "lv_seen lv' = lv_seen lv @ [r] \<and> lv_rounds lv' = rs \<and> lv_server lv' = srv \<and>
    (case result of
       Inl status \<Rightarrow> lv_status lv' = status \<and> lv_service lv' = lv_service lv
     | Inr None \<Rightarrow> lv_status lv' = lv_status lv \<and> lv_service lv' = lv_service lv
     | Inr (Some x) \<Rightarrow> lv_status lv' = lv_status lv \<and>
         service_step c moved hc (Access (LoadTail x)) (lv_service lv) = Some (lv_service lv'))"
    by (auto simp: Let_def split: if_splits sum.splits option.splits)
  ultimately show ?thesis using that r by blast
qed

lemma live_run_serving:
  "live_run accept c moved hc workers d st rounds srv lv \<Longrightarrow> serving c moved hc workers d st (lv_service lv)"
proof (induction rule: live_run.induct)
  case start
  show ?case by (simp add: new_live_def serving.start)
next
  case (step lv a lv')
  show ?case
  proof (cases a)
    case Round
    with step.hyps(2) have room: "unlapped c (sv_queue (lv_service lv)) (sv_history (lv_service lv))"
      by (simp add: paced_at_def)
    from step.hyps(3) [unfolded Round] obtain r rs result srv' where
      "case result of
         Inl status \<Rightarrow> lv_status lv' = status \<and> lv_service lv' = lv_service lv
       | Inr None \<Rightarrow> lv_status lv' = lv_status lv \<and> lv_service lv' = lv_service lv
       | Inr (Some x) \<Rightarrow> lv_status lv' = lv_status lv \<and>
           service_step c moved hc (Access (LoadTail x)) (lv_service lv) = Some (lv_service lv')"
      by (rule live_Round)
    then have "lv_service lv' = lv_service lv \<or>
        (\<exists>x. service_step c moved hc (Access (LoadTail x)) (lv_service lv) = Some (lv_service lv'))"
      by (auto split: sum.splits option.splits)
    with step.IH serving.step [OF step.IH room] show ?thesis by metis
  next
    case (Thread b)
    with step.hyps(3) have b: "service_step c moved hc b (lv_service lv) = Some (lv_service lv')" "\<not> starts_push b"
      by (auto split: if_splits)
    then have "b \<noteq> Access (LoadTail x)" for x by auto
    with serving.step [OF step.IH _ b(1)] show ?thesis by blast
  qed
qed

section \<open>What is heard\<close>

text \<open>
  The rounds of a loop whose \<^verbatim>\<open>errno\<close> behaves (\<open>ErrnoLoops\<close>), while the pool works: the connections added
  are those of the rounds heard.
\<close>

context errno_loop
begin

definition live_ok :: "'r list \<Rightarrow> ('r, 'c, 'ssl, 's) live \<Rightarrow> bool" where
  "live_ok rounds lv \<longleftrightarrow>
     lv_seen lv @ lv_rounds lv = rounds \<and> lv_status lv = Running \<and>
     (srv_errno (lv_server lv) = EAGAIN \<longleftrightarrow> (\<exists>r \<in> set (lv_seen lv). waits r)) \<and>
     shared.started (sv_queue (lv_service lv)) = concat (map task (heard waits (lv_seen lv)))"

lemma live_step_ok:
  assumes all: "\<forall>r \<in> set rounds. ordinary r" and ok: "live_ok rounds lv"
    and step: "live_step accept c moved hc a lv = Some lv'"
  shows "live_ok rounds lv'"
proof (cases a)
  case (Thread b)
  with step ok show ?thesis by (auto simp: live_ok_def other_started split: if_splits)
next
  case Round
  from step [unfolded Round] obtain r rs result srv where r: "lv_rounds lv = r # rs"
    and round: "accept r (lv_server lv) = Returns (result, srv)"
    and lv': "lv_seen lv' = lv_seen lv @ [r]" "lv_rounds lv' = rs" "lv_server lv' = srv"
    and result: "case result of
       Inl status \<Rightarrow> lv_status lv' = status \<and> lv_service lv' = lv_service lv
     | Inr None \<Rightarrow> lv_status lv' = lv_status lv \<and> lv_service lv' = lv_service lv
     | Inr (Some x) \<Rightarrow> lv_status lv' = lv_status lv \<and>
         service_step c moved hc (Access (LoadTail x)) (lv_service lv) = Some (lv_service lv')"
    by (rule live_Round)
  from r ok all have r_ok: "ordinary r" by (auto simp: live_ok_def)
  show ?thesis
  proof (cases "srv_errno (lv_server lv) = EAGAIN")
    case True
    from deaf [OF r_ok True] round have "result = Inr None" "srv_errno srv = EAGAIN" by auto
    with True ok r lv' result show ?thesis by (auto simp: live_ok_def heard_snoc)
  next
    case False
    from hears [OF r_ok False] round have "result = Inr (case task r of [] \<Rightarrow> None | c # cs \<Rightarrow> Some c)"
      "srv_errno srv = (if waits r then EAGAIN else srv_errno (lv_server lv))" by auto
    moreover from False ok have silent: "\<forall>r \<in> set (lv_seen lv). \<not> waits r" by (simp add: live_ok_def)
    with ok have "shared.started (sv_queue (lv_service lv)) = concat (map task (lv_seen lv))"
      by (simp add: live_ok_def heard_all)
    ultimately show ?thesis
      using task_single [of r] False silent ok r lv' result by (auto simp: live_ok_def load_tail_started heard_snoc)
  qed
qed

lemma live_run_ok:
  "live_run accept c moved hc workers d st rounds srv lv \<Longrightarrow> \<forall>r \<in> set rounds. ordinary r \<Longrightarrow> srv_errno srv \<noteq> EAGAIN \<Longrightarrow>
   live_ok rounds lv"
proof (induction rule: live_run.induct)
  case start
  then show ?case by (simp add: live_ok_def new_live_def new_service_def new_shared_def heard_Nil)
next
  case (step lv a lv')
  show ?case by (rule live_step_ok [OF step.prems(1) step.IH [OF step.prems] step.hyps(3)])
qed

lemma rounds_made:
  "live_run accept c moved hc workers d st rounds srv lv \<Longrightarrow> \<forall>r \<in> set rounds. ordinary r \<Longrightarrow> srv_errno srv \<noteq> EAGAIN \<Longrightarrow>
   lv_status lv = Running \<and> lv_seen lv @ lv_rounds lv = rounds \<and>
   shared.started (sv_queue (lv_service lv)) = concat (map task (heard waits (lv_seen lv)))"
  by (drule (2) live_run_ok) (simp add: live_ok_def)

end

section \<open>From the accepted connection to the closed one\<close>

text \<open>
  C5.  The server end to end, all its threads interleaved.  On a system that leaves \<^verbatim>\<open>errno\<close> alone when a call
  succeeds, a server whose thread has not met \<open>EAGAIN\<close> yet makes its rounds of accepting while the workers
  serve, in any order of sequentially consistent steps in which no push laps a consumer, no two calls of the
  handler race on the file cache and no handler throws.  Then the loop
  goes on, and the connections added are those of the rounds heard, which are the rounds made up to the first
  that found nothing there, in their order, each with the
  bytes read; whenever the workers are back at the empty queue, every one of these connections has been
  taken by one worker, every worker has sent and closed exactly what its connections are owed, one
  after the other, and the descriptors closed are those of the connections heard, each once.
\<close>

theorem server_end_to_end:
  assumes "cache_agrees files fm" and "0 < c" and "c \<le> 100"
    and "\<forall>r \<in> set rounds. linux_round r" and "srv_errno srv \<noteq> EAGAIN"
    and "\<forall>r \<in> set tls_rounds. linux_tls_round r" and "srv_errno tls_srv \<noteq> EAGAIN"
  shows "(live_run accept_round c moved (tcp_worker files id) workers d (new_shared_files fm) rounds srv lv \<longrightarrow>
      lv_status lv = Running \<and> lv_seen lv @ lv_rounds lv = rounds \<and>
      shared.started (sv_queue (lv_service lv)) = concat (map task_of (heard finds_nothing (lv_seen lv))) \<and>
      in_turn (calls_for files (fm_descriptors fm)) (lv_service lv) \<and>
      (at_rest (lv_service lv) \<longrightarrow> all_served (calls_for files (fm_descriptors fm)) tcp_fd (lv_service lv))) \<and>
    (live_run tls_accept_round c moved_tls (tls_worker want_write files id) workers e (new_shared_files fm)
        tls_rounds tls_srv tv \<longrightarrow>
      lv_status tv = Running \<and> lv_seen tv @ lv_rounds tv = tls_rounds \<and>
      shared.started (sv_queue (lv_service tv)) = concat (map tls_task_of (heard tls_finds_nothing (lv_seen tv))) \<and>
      in_turn (tls_calls_for want_write files (fm_descriptors fm)) (lv_service tv) \<and>
      (at_rest (lv_service tv) \<longrightarrow> all_served (tls_calls_for want_write files (fm_descriptors fm)) tls_fd (lv_service tv)))"
proof (intro conjI impI)
  have fm: "files_ok files (fm_descriptors fm) (new_shared_files fm :: nat shared_files)"
    using assms(1) by (simp add: new_shared_files_def)
  {
    assume run: "live_run accept_round c moved (tcp_worker files id) workers d (new_shared_files fm) rounds srv lv"
    note made = tcp_errno.rounds_made [OF run assms(4,5)]
      and served = tcp_closing.served [OF live_run_serving [OF run] fm assms(2,3)]
    show "lv_status lv = Running" "lv_seen lv @ lv_rounds lv = rounds"
      "shared.started (sv_queue (lv_service lv)) = concat (map task_of (heard finds_nothing (lv_seen lv)))"
      "in_turn (calls_for files (fm_descriptors fm)) (lv_service lv)"
      using made served(1) by simp_all
    show "all_served (calls_for files (fm_descriptors fm)) tcp_fd (lv_service lv)" if "at_rest (lv_service lv)"
      by (rule served(2) [OF that])
  }
  {
    assume run: "live_run tls_accept_round c moved_tls (tls_worker want_write files id)
      workers e (new_shared_files fm) tls_rounds tls_srv tv"
    note made = tls_errno.rounds_made [OF run assms(6,7)]
      and served = tls_closing.served [OF live_run_serving [OF run] fm assms(2,3)]
    show "lv_status tv = Running" "lv_seen tv @ lv_rounds tv = tls_rounds"
      "shared.started (sv_queue (lv_service tv)) = concat (map tls_task_of (heard tls_finds_nothing (lv_seen tv)))"
      "in_turn (tls_calls_for want_write files (fm_descriptors fm)) (lv_service tv)"
      using made served(1) by simp_all
    show "all_served (tls_calls_for want_write files (fm_descriptors fm)) tls_fd (lv_service tv)" if "at_rest (lv_service tv)"
      by (rule served(2) [OF that])
  }
qed

text \<open>Two clients are there at once; after them nobody is, and the client that comes then is not heard.\<close>

definition live_rounds :: "tcp_round list" where
  "live_rounds =
     [\<lparr>tr_stop = False, tr_fd = 5, tr_errno = None, tr_recvs = [got None (''GET /a.css HTTP/1.1'' @ CRLF @ CRLF)]\<rparr>,
      \<lparr>tr_stop = False, tr_fd = 6, tr_errno = None, tr_recvs = [got None ''BREW / HTTP/1.1'']\<rparr>,
      \<lparr>tr_stop = False, tr_fd = -1, tr_errno = Some EAGAIN, tr_recvs = []\<rparr>,
      \<lparr>tr_stop = False, tr_fd = 7, tr_errno = None, tr_recvs = [got None ''GET / HTTP/1.1'']\<rparr>]"

lemma live_rounds_linux: "\<forall>r \<in> set live_rounds. linux_round r"
proof -
  have "linux_round \<lparr>tr_stop = False, tr_fd = fd, tr_errno = None, tr_recvs = [got None bytes]\<rparr>"
    if "fd \<noteq> -1" "length bytes \<le> 4095" for fd bytes
    using that by (auto simp: linux_round_def MAXBUFLEN_def intro!: exI [of _ 0])
  then show ?thesis by (simp add: live_rounds_def) (simp add: linux_round_def)
qed

definition live_sample :: "http_connection live_activity list" where
  "live_sample =
     Round # map (Thread \<circ> Access) (tl (push_accesses \<lparr>tcp_fd = 0, tcp_request = ''''\<rparr>)) @
     map (Thread \<circ> Access) (pop_accesses 1) @ [Round, Thread (Handle 1)] @
     map (Thread \<circ> Access) (tl (push_accesses \<lparr>tcp_fd = 0, tcp_request = ''''\<rparr>)) @
     [Thread (Perform 1), Round] @ map Thread (serve_accesses 0 1) @ [Round, Thread (Perform 1), Thread (Perform 1)]"

theorem server_end_to_end_witness:
  "\<exists>lv :: (tcp_round, http_connection, unit, nat shared_files) live. live_run accept_round 3 id (tcp_worker [''../webdir/a.css'' \<mapsto> ''body { }''] id) 2 \<lparr>tcp_fd = 0, tcp_request = ''''\<rparr>
       (new_shared_files sample_manager) live_rounds (TCPServer HTTP_PORT) lv \<and> lv_rounds lv = [] \<and>
     sv_log (lv_service lv) =
       [(1, Send 5 (''HTTP/1.1 200 OK'' @ CRLF @ ''Content-Type: text/css'' @ CRLF @ CRLF @ ''body { }'')),
        (0, Close 6), (1, Close 5)] \<and>
     mset (closed_fds (map snd (sv_log (lv_service lv)))) = {#5, 6#}"
proof -
  let ?run = "live_steps accept_round 3 id (tcp_worker [''../webdir/a.css'' \<mapsto> ''body { }''] id) live_sample
    (new_live 3 2 \<lparr>tcp_fd = 0, tcp_request = ''''\<rparr> (new_shared_files sample_manager) live_rounds (TCPServer HTTP_PORT)
      :: (tcp_round, http_connection, unit, nat shared_files) live)"
  have "case ?run of None \<Rightarrow> False | Some lv \<Rightarrow>
      at_rest (lv_service lv) \<and> lv_rounds lv = [] \<and>
      sv_log (lv_service lv) =
       [(1, Send 5 (''HTTP/1.1 200 OK'' @ CRLF @ ''Content-Type: text/css'' @ CRLF @ CRLF @ ''body { }'')),
        (0, Close 6), (1, Close 5)]"
    by code_simp
  then obtain lv where run: "?run = Some lv" and lv: "at_rest (lv_service lv)" "lv_rounds lv = []"
    and log: "sv_log (lv_service lv) =
       [(1, Send 5 (''HTTP/1.1 200 OK'' @ CRLF @ ''Content-Type: text/css'' @ CRLF @ CRLF @ ''body { }'')),
        (0, Close 6), (1, Close 5)]"
    by (auto split: option.splits)
  note live = live_steps_run [OF live_run.start run]
  have errno: "srv_errno (TCPServer HTTP_PORT) \<noteq> EAGAIN" by (simp add: TCPServer_def EAGAIN_def)
  have "(0 :: nat) < 3" "(3 :: nat) \<le> 100" "\<forall>r \<in> set ([] :: unit tls_round list). linux_tls_round r" by simp_all
  from server_end_to_end [OF sample_manager_agrees this(1,2) live_rounds_linux errno this(3),
      of "TLSServer 0 0 () HTTPS_PORT", THEN _, THEN conjunct1, rule_format, OF _ live]
  have end_to_end: "lv_seen lv @ lv_rounds lv = live_rounds"
    "shared.started (sv_queue (lv_service lv)) = concat (map task_of (heard finds_nothing (lv_seen lv)))"
    "at_rest (lv_service lv) \<longrightarrow> all_served (calls_for [''../webdir/a.css'' \<mapsto> ''body { }''] (fm_descriptors sample_manager))
      tcp_fd (lv_service lv)" by (simp_all add: TLSServer_def EAGAIN_def)
  have "map tcp_fd (concat (map task_of (heard finds_nothing live_rounds))) = [5, 6]" by code_simp
  with end_to_end lv have "mset (closed_fds (map snd (sv_log (lv_service lv)))) = mset [5, 6]"
    unfolding all_served_def by (metis append_Nil2)
  with live log lv show ?thesis by (intro exI [of _ lv] conjI) simp_all
qed

end
