(* ===== verification/Network.thy ===== *)
theory Network
  imports LiveServer
begin

text \<open>
  A server and its peers: the steps of \<open>LiveServer\<close> with the tables of open descriptors and handles beside them.
  Of the system and the library it is assumed that \<^verbatim>\<open>accept4\<close> hands out a descriptor that is not open,
  \<^verbatim>\<open>wolfSSL_new\<close> a handle that is not in use, and that a descriptor stands for the connection it was handed out
  for until it is closed.  What is recorded are the calls the program makes, each with the
  peer on whose connection it is made.  What the system then delivers, which for a non-blocking descriptor may
  be a part of it or nothing, and what the library has sent when it wants to write again, is not modelled.
\<close>

section \<open>Descriptors, handles and peers\<close>

text \<open>
  Peers are numbered as they connect; \<open>wr_peers\<close> has for each the descriptor it was given and the
  connection object made for it, if one was.  \<open>wr_calls\<close> are the sends, writes and notifications made on the open
  connection of a peer; those that meet a closed descriptor or a handle without one are in \<open>wr_stray\<close>.
\<close>

record ('c, 'ssl) wire =
  wr_peers :: "(int \<times> 'c option) list"
  wr_owner :: "int \<rightharpoonup> nat"
  wr_bound :: "'ssl \<rightharpoonup> int"
  wr_calls :: "(nat \<times> 'ssl io) list"
  wr_stray :: "'ssl io list"

definition new_wire :: "('c, 'ssl) wire" where
  "new_wire = \<lparr>wr_peers = [], wr_owner = Map.empty, wr_bound = Map.empty, wr_calls = [], wr_stray = []\<rparr>"

definition open_connection ::
  "('c \<Rightarrow> 'ssl option) \<Rightarrow> int option \<Rightarrow> 'c option \<Rightarrow> ('c, 'ssl) wire \<Rightarrow> ('c, 'ssl) wire option" where
  "open_connection handle_of fd made w =
     (case fd of
        None \<Rightarrow> Some w
      | Some fd \<Rightarrow>
          if wr_owner w fd \<noteq> None then None
          else
            let w' = w\<lparr>wr_peers := wr_peers w @ [(fd, made)], wr_owner := (wr_owner w)(fd \<mapsto> length (wr_peers w))\<rparr> in
            case Option.bind made handle_of of
              None \<Rightarrow> Some w'
            | Some h \<Rightarrow> if wr_bound w h \<noteq> None then None else Some (w'\<lparr>wr_bound := (wr_bound w)(h \<mapsto> fd)\<rparr>))"

definition on_connection :: "'ssl io \<Rightarrow> int option \<Rightarrow> ('c, 'ssl) wire \<Rightarrow> ('c, 'ssl) wire" where
  "on_connection call fd w =
     (case Option.bind fd (wr_owner w) of
        None \<Rightarrow> w\<lparr>wr_stray := wr_stray w @ [call]\<rparr>
      | Some p \<Rightarrow> w\<lparr>wr_calls := wr_calls w @ [(p, call)]\<rparr>)"

fun perform :: "'ssl io \<Rightarrow> ('c, 'ssl) wire \<Rightarrow> ('c, 'ssl) wire" where
  "perform (Send fd r) w = on_connection (Send fd r) (Some fd) w"
| "perform (SslWrite h r n) w = on_connection (SslWrite h r n) (wr_bound w h) w"
| "perform (SslShutdown h) w = on_connection (SslShutdown h) (wr_bound w h) w"
| "perform (Close fd) w =
     (if wr_owner w fd = None then w\<lparr>wr_stray := wr_stray w @ [Close fd]\<rparr>
      else w\<lparr>wr_owner := (wr_owner w)(fd := None)\<rparr>)"
| "perform (SslFree h) w =
     (if wr_bound w h = None then w\<lparr>wr_stray := wr_stray w @ [SslFree h]\<rparr>
      else w\<lparr>wr_bound := (wr_bound w)(h := None)\<rparr>)"

section \<open>What is written for a peer\<close>

text \<open>The text a call hands over: of a response that is given with its length, the bytes that are counted.\<close>

fun text_of :: "'ssl io \<Rightarrow> string list" where
  "text_of (Send fd r) = [r]"
| "text_of (SslWrite h r n) = [take (nat n) r]"
| "text_of _ = []"

definition texts :: "'ssl io list \<Rightarrow> string list" where
  "texts calls = concat (map text_of calls)"

lemma texts_simps [simp]:
  "texts [] = []" "texts (call # calls) = text_of call @ texts calls" "texts (xs @ ys) = texts xs @ texts ys"
  by (simp_all add: texts_def)

text \<open>The texts written on the connection of a peer.\<close>

definition written_to :: "nat \<Rightarrow> ('c, 'ssl) wire \<Rightarrow> string list" where
  "written_to p w = texts (map snd (filter (\<lambda>(q, call). q = p) (wr_calls w)))"

text \<open>
  The calls for one connection are its own: writes go to its descriptor, or through its handle, before
  the descriptor is closed; the descriptor is closed once and the handle freed once.
\<close>

fun addressed :: "int \<Rightarrow> 'ssl option \<Rightarrow> 'ssl io \<Rightarrow> 'ssl io list \<Rightarrow> bool" where
  "addressed fd h (Send f r) after \<longleftrightarrow> f = fd \<and> Close fd \<in> set after"
| "addressed fd h (SslWrite s r n) after \<longleftrightarrow> h = Some s \<and> Close fd \<in> set after \<and> SslFree s \<in> set after"
| "addressed fd h (SslShutdown s) after \<longleftrightarrow> h = Some s"
| "addressed fd h (Close f) after \<longleftrightarrow> f = fd \<and> Close fd \<notin> set after"
| "addressed fd h (SslFree s) after \<longleftrightarrow> h = Some s \<and> SslFree s \<notin> set after"

fun well_addressed :: "int \<Rightarrow> 'ssl option \<Rightarrow> 'ssl io list \<Rightarrow> bool" where
  "well_addressed fd h [] = True"
| "well_addressed fd h (call # after) = (addressed fd h call after \<and> well_addressed fd h after)"

text \<open>Only the notification that a connection ends may come when its descriptor is closed.\<close>

definition late :: "('c \<Rightarrow> 'ssl option) \<Rightarrow> 'ssl io \<Rightarrow> bool" where
  "late handle_of call \<longleftrightarrow> (\<exists>x h. handle_of x = Some h \<and> call = SslShutdown h)"

section \<open>The invariant of the wire\<close>

text \<open>
  \<open>rest p\<close> are the calls still to be made for peer \<open>p\<close>.  Its descriptor is open, and belongs to it, as
  long as the closing is among them; its handle is bound to the descriptor as long as the freeing is.
\<close>

definition peer_ok ::
  "('c \<Rightarrow> int) \<Rightarrow> ('c \<Rightarrow> 'ssl option) \<Rightarrow> ('c \<Rightarrow> 'ssl io list) \<Rightarrow> ('c, 'ssl) wire \<Rightarrow> nat \<Rightarrow> int \<times> 'c option \<Rightarrow>
   'ssl io list \<Rightarrow> bool" where
  "peer_ok fd_of handle_of calls_of w p peer calls \<longleftrightarrow>
     (case peer of
        (fd, None) \<Rightarrow> written_to p w = [] \<and> wr_owner w fd = Some p
      | (fd, Some x) \<Rightarrow>
          fd = fd_of x \<and> written_to p w @ texts calls = texts (calls_of x) \<and> well_addressed fd (handle_of x) calls \<and>
          (Close fd \<in> set calls \<longrightarrow> wr_owner w fd = Some p) \<and>
          (\<forall>h. handle_of x = Some h \<longrightarrow> SslFree h \<in> set calls \<longrightarrow> wr_bound w h = Some fd))"

definition holds_handle :: "('c \<Rightarrow> 'ssl option) \<Rightarrow> (int \<times> 'c option) \<Rightarrow> 'ssl io list \<Rightarrow> 'ssl \<Rightarrow> bool" where
  "holds_handle handle_of peer calls h \<longleftrightarrow> Option.bind (snd peer) handle_of = Some h \<and> SslFree h \<in> set calls"

definition wire_ok ::
  "('c \<Rightarrow> int) \<Rightarrow> ('c \<Rightarrow> 'ssl option) \<Rightarrow> ('c \<Rightarrow> 'ssl io list) \<Rightarrow> (nat \<Rightarrow> 'ssl io list) \<Rightarrow> ('c, 'ssl) wire \<Rightarrow> bool" where
  "wire_ok fd_of handle_of calls_of rest w \<longleftrightarrow>
     (\<forall>p < length (wr_peers w). peer_ok fd_of handle_of calls_of w p (wr_peers w ! p) (rest p)) \<and>
     (\<forall>p < length (wr_peers w). \<forall>q < length (wr_peers w). \<forall>h.
        holds_handle handle_of (wr_peers w ! p) (rest p) h \<longrightarrow> holds_handle handle_of (wr_peers w ! q) (rest q) h \<longrightarrow> p = q) \<and>
     (\<forall>fd p. wr_owner w fd = Some p \<longrightarrow> p < length (wr_peers w) \<and> fst (wr_peers w ! p) = fd \<and>
        (snd (wr_peers w ! p) \<noteq> None \<longrightarrow> Close fd \<in> set (rest p))) \<and>
     fst ` set (wr_calls w) \<subseteq> {..<length (wr_peers w)} \<and>
     list_all (late handle_of) (wr_stray w)"

lemma perform_peers [simp]: "wr_peers (perform call w) = wr_peers w"
  by (cases call) (auto simp: on_connection_def split: option.split)

text \<open>What the call of one peer does to the texts of another.\<close>

lemma perform_texts_other:
  assumes "wire_ok fd_of handle_of calls_of rest w" and "p < length (wr_peers w)" "wr_peers w ! p = (fd, Some x)"
    and "rest p = call # calls" and "q \<noteq> p"
  shows "written_to q (perform call w) = written_to q w"
    and "written_to p (perform call w) = written_to p w @ text_of call"
proof -
  from assms(1-4) have ok: "peer_ok fd_of handle_of calls_of w p (fd, Some x) (call # calls)"
    by (auto simp: wire_ok_def)
  show "written_to q (perform call w) = written_to q w"
    using ok assms(5) by (cases call) (auto simp: peer_ok_def on_connection_def written_to_def split: option.split)
  show "written_to p (perform call w) = written_to p w @ text_of call"
    using ok by (cases call) (auto simp: peer_ok_def on_connection_def written_to_def split: option.split)
qed

lemma perform_owner:
  assumes "peer_ok fd_of handle_of calls_of w p (fd, Some x) (call # calls)"
  shows "wr_owner (perform call w) = (if call = Close fd then (wr_owner w)(fd := None) else wr_owner w)"
    and "wr_bound (perform call w) =
      (case call of SslFree h \<Rightarrow> (wr_bound w)(h := None) | _ \<Rightarrow> wr_bound w)"
  using assms by (cases call; auto simp: peer_ok_def on_connection_def split: option.split)+

lemma perform_stray:
  assumes "peer_ok fd_of handle_of calls_of w p (fd, Some x) (call # calls)" and "list_all (late handle_of) (wr_stray w)"
  shows "list_all (late handle_of) (wr_stray (perform call w))"
  using assms by (cases call) (auto simp: peer_ok_def on_connection_def late_def split: option.split)

lemma perform_calls:
  assumes "\<forall>fd p. wr_owner w fd = Some p \<longrightarrow> p < n" and "fst ` set (wr_calls w) \<subseteq> {..<n}"
  shows "fst ` set (wr_calls (perform call w)) \<subseteq> {..<n}"
  using assms by (cases call) (auto simp: on_connection_def split: option.split bind_splits)

text \<open>The next call of one peer, made: the other peers are as they were.\<close>

lemma perform_wire_ok:
  assumes ok: "wire_ok fd_of handle_of calls_of rest w" and p: "p < length (wr_peers w)" "wr_peers w ! p = (fd, Some x)"
    and rest: "rest p = call # calls"
  shows "wire_ok fd_of handle_of calls_of (rest(p := calls)) (perform call w)"
proof -
  note bts = perform_texts_other [OF ok p rest]
  from ok p rest have mine: "peer_ok fd_of handle_of calls_of w p (fd, Some x) (call # calls)"
    and owners: "\<forall>fd p. wr_owner w fd = Some p \<longrightarrow> p < length (wr_peers w) \<and> fst (wr_peers w ! p) = fd \<and>
        (snd (wr_peers w ! p) \<noteq> None \<longrightarrow> Close fd \<in> set (rest p))"
    and handles: "\<forall>p < length (wr_peers w). \<forall>q < length (wr_peers w). \<forall>h.
        holds_handle handle_of (wr_peers w ! p) (rest p) h \<longrightarrow> holds_handle handle_of (wr_peers w ! q) (rest q) h \<longrightarrow> p = q"
    by (auto simp: wire_ok_def)
  note tables = perform_owner [OF mine]
  have "peer_ok fd_of handle_of calls_of (perform call w) q (wr_peers w ! q) ((rest(p := calls)) q)"
    if q: "q < length (wr_peers w)" for q
  proof (cases "q = p")
    case True
    from mine p(2) True bts(2) [of "Suc p"] show ?thesis
      by (simp add: peer_ok_def tables del: perform.simps) (cases call; auto)
  next
    case False
    from ok q have yours: "peer_ok fd_of handle_of calls_of w q (wr_peers w ! q) (rest q)" by (simp add: wire_ok_def)
    have open_fd: "wr_owner (perform call w) (fst (wr_peers w ! q)) = Some q"
      if "wr_owner w (fst (wr_peers w ! q)) = Some q"
      using that mine tables(1) False by (auto simp: peer_ok_def)
    have bound: "wr_bound (perform call w) h = wr_bound w h" if "holds_handle handle_of (wr_peers w ! q) (rest q) h" for h
    proof (cases "call = SslFree h")
      case True
      with mine p rest have "holds_handle handle_of (wr_peers w ! p) (rest p) h" by (auto simp: holds_handle_def peer_ok_def)
      with handles p(1) q that False show ?thesis by blast
    qed (use tables(2) in \<open>auto split: io.split\<close>)
    show ?thesis
      using yours bts(1) [OF False] open_fd bound False
      by (cases "wr_peers w ! q") (auto simp: peer_ok_def holds_handle_def split: option.splits)
  qed
  moreover have "\<forall>a < length (wr_peers w). \<forall>b < length (wr_peers w). \<forall>h.
        holds_handle handle_of (wr_peers w ! a) ((rest(p := calls)) a) h \<longrightarrow>
        holds_handle handle_of (wr_peers w ! b) ((rest(p := calls)) b) h \<longrightarrow> a = b"
    using handles rest by (auto simp: holds_handle_def)
  moreover have "\<forall>f q. wr_owner (perform call w) f = Some q \<longrightarrow> q < length (wr_peers w) \<and> fst (wr_peers w ! q) = f \<and>
        (snd (wr_peers w ! q) \<noteq> None \<longrightarrow> Close f \<in> set ((rest(p := calls)) q))"
  proof (intro allI impI)
    fix f q assume "wr_owner (perform call w) f = Some q"
    then have "wr_owner w f = Some q" "call \<noteq> Close f" using mine tables(1) by (auto simp: peer_ok_def split: if_splits)
    with owners rest show "q < length (wr_peers w) \<and> fst (wr_peers w ! q) = f \<and>
        (snd (wr_peers w ! q) \<noteq> None \<longrightarrow> Close f \<in> set ((rest(p := calls)) q))" by fastforce
  qed
  moreover have "list_all (late handle_of) (wr_stray (perform call w))"
    using perform_stray [OF mine] ok by (simp add: wire_ok_def)
  moreover have "fst ` set (wr_calls (perform call w)) \<subseteq> {..<length (wr_peers w)}"
    using perform_calls [of w "length (wr_peers w)" call] owners ok by (auto simp: wire_ok_def)
  ultimately show ?thesis by (simp add: wire_ok_def)
qed

text \<open>A connection is accepted.\<close>

lemma open_connection_eq:
  assumes "open_connection handle_of fd made w = Some w'"
  shows "fd = None \<and> w' = w \<or>
    (\<exists>f. fd = Some f \<and> wr_owner w f = None \<and> wr_peers w' = wr_peers w @ [(f, made)] \<and>
       wr_owner w' = (wr_owner w)(f \<mapsto> length (wr_peers w)) \<and> wr_calls w' = wr_calls w \<and> wr_stray w' = wr_stray w \<and>
       (case Option.bind made handle_of of
          None \<Rightarrow> wr_bound w' = wr_bound w
        | Some h \<Rightarrow> wr_bound w h = None \<and> wr_bound w' = (wr_bound w)(h \<mapsto> f)))"
  using assms by (auto simp: open_connection_def Let_def split: option.splits if_splits)

lemma written_to_none: "fst ` set (wr_calls w) \<subseteq> {..<p} \<Longrightarrow> written_to p w = []"
proof -
  assume "fst ` set (wr_calls w) \<subseteq> {..<p}"
  then have "filter (\<lambda>(q, call). q = p) (wr_calls w) = []" by (force simp: filter_empty_conv)
  then show ?thesis by (simp add: written_to_def)
qed

lemma open_wire_ok:
  assumes ok: "wire_ok fd_of handle_of calls_of rest w" and opened: "open_connection handle_of (Some f) made w = Some w'"
    and made: "\<And>x. made = Some x \<Longrightarrow> fd_of x = f \<and> Close f \<in> set (calls_of x) \<and> well_addressed f (handle_of x) (calls_of x)"
    and calls: "\<And>x. made = Some x \<Longrightarrow> calls = calls_of x"
  shows "wire_ok fd_of handle_of calls_of (rest(length (wr_peers w) := calls)) w'"
proof -
  let ?n = "length (wr_peers w)"
  from open_connection_eq [OF opened] have w': "wr_owner w f = None" "wr_peers w' = wr_peers w @ [(f, made)]"
    "wr_owner w' = (wr_owner w)(f \<mapsto> ?n)" "wr_calls w' = wr_calls w" "wr_stray w' = wr_stray w"
    and handle: "case Option.bind made handle_of of
          None \<Rightarrow> wr_bound w' = wr_bound w
        | Some h \<Rightarrow> wr_bound w h = None \<and> wr_bound w' = (wr_bound w)(h \<mapsto> f)" by auto
  have bts: "written_to q w' = written_to q w" for q by (simp add: written_to_def w')
  from ok have old: "\<forall>p < ?n. peer_ok fd_of handle_of calls_of w p (wr_peers w ! p) (rest p)"
    and handles: "\<forall>p < ?n. \<forall>q < ?n. \<forall>h.
        holds_handle handle_of (wr_peers w ! p) (rest p) h \<longrightarrow> holds_handle handle_of (wr_peers w ! q) (rest q) h \<longrightarrow> p = q"
    and owners: "\<forall>fd p. wr_owner w fd = Some p \<longrightarrow> p < ?n \<and> fst (wr_peers w ! p) = fd \<and>
        (snd (wr_peers w ! p) \<noteq> None \<longrightarrow> Close fd \<in> set (rest p))"
    and rec: "fst ` set (wr_calls w) \<subseteq> {..<?n}" and stray: "list_all (late handle_of) (wr_stray w)"
    by (simp_all add: wire_ok_def)
  have bound: "wr_bound w h = Some (fst (wr_peers w ! q))" if "q < ?n" "holds_handle handle_of (wr_peers w ! q) (rest q) h" for q h
    using that old [rule_format, OF that(1)]
    by (cases "wr_peers w ! q") (auto simp: peer_ok_def holds_handle_def split: option.splits bind_splits)
  have keep: "wr_bound w' h = wr_bound w h" and other: "\<not> holds_handle handle_of (f, made) calls h"
    if "q < ?n" "holds_handle handle_of (wr_peers w ! q) (rest q) h" for q h
    using bound [OF that] handle by (auto simp: holds_handle_def split: option.splits)
  have "peer_ok fd_of handle_of calls_of w' q (wr_peers w ! q) (rest q)" if q: "q < ?n" for q
  proof -
    have "wr_owner w' fd = Some q" if "wr_owner w fd = Some q" for fd using that w' by auto
    with old q keep show ?thesis
      by (cases "wr_peers w ! q") (auto simp: peer_ok_def holds_handle_def bts split: option.splits)
  qed
  moreover have "peer_ok fd_of handle_of calls_of w' ?n (f, made) calls"
    using made calls handle written_to_none [OF rec]
    by (auto simp: peer_ok_def bts w' split: option.splits)
  ultimately have "\<forall>p < length (wr_peers w @ [(f, made)]).
      peer_ok fd_of handle_of calls_of w' p ((wr_peers w @ [(f, made)]) ! p) ((rest(?n := calls)) p)"
    by (simp add: nth_append less_Suc_eq)
  moreover have "\<forall>p < length (wr_peers w @ [(f, made)]). \<forall>q < length (wr_peers w @ [(f, made)]). \<forall>h.
      holds_handle handle_of ((wr_peers w @ [(f, made)]) ! p) ((rest(?n := calls)) p) h \<longrightarrow>
      holds_handle handle_of ((wr_peers w @ [(f, made)]) ! q) ((rest(?n := calls)) q) h \<longrightarrow> p = q"
  proof (intro allI impI)
    fix p q h
    assume "p < length (wr_peers w @ [(f, made)])" "q < length (wr_peers w @ [(f, made)])"
      and "holds_handle handle_of ((wr_peers w @ [(f, made)]) ! p) ((rest(?n := calls)) p) h"
      and "holds_handle handle_of ((wr_peers w @ [(f, made)]) ! q) ((rest(?n := calls)) q) h"
    with handles other show "p = q" by (cases "p = ?n"; cases "q = ?n") (simp_all add: nth_append less_Suc_eq)
  qed
  moreover have "\<forall>fd p. wr_owner w' fd = Some p \<longrightarrow> p < length (wr_peers w @ [(f, made)]) \<and>
      fst ((wr_peers w @ [(f, made)]) ! p) = fd \<and>
      (snd ((wr_peers w @ [(f, made)]) ! p) \<noteq> None \<longrightarrow> Close fd \<in> set ((rest(?n := calls)) p))"
    using owners made calls unfolding w'(3) by (auto simp: nth_append intro: less_SucI split: if_splits)
  moreover have "fst ` set (wr_calls w) \<subseteq> {..<length (wr_peers w @ [(f, made)])}" using rec by fastforce
  ultimately show ?thesis
    using stray unfolding wire_ok_def w'(2,4,5) by blast
qed

section \<open>A server in a process\<close>

text \<open>
  The connections of all servers of a process are on the same wire; \<open>into\<close> takes those of one server among
  them, \<open>proj\<close> finds them there.  A round in which \<^verbatim>\<open>accept4\<close> hands out a descriptor (\<open>opened\<close>) opens it;
  the calls of a worker are recorded as they are made.  A step in which a descriptor or a handle in use
  were handed out again is not one.
\<close>

definition made_by :: "('r, 'c) accepting \<Rightarrow> 'r \<Rightarrow> 'c server \<Rightarrow> 'c option" where
  "made_by accept r srv = (case accept r srv of Returns (Inr made, _) \<Rightarrow> made | _ \<Rightarrow> None)"

fun on_wire ::
  "('c \<Rightarrow> 'd) \<Rightarrow> ('r, 'c) accepting \<Rightarrow> ('r \<Rightarrow> int option) \<Rightarrow> ('d \<Rightarrow> 'ssl option) \<Rightarrow> 'c live_activity \<Rightarrow>
   ('r, 'c, 'ssl, 's) live \<Rightarrow> ('d, 'ssl) wire \<Rightarrow> ('d, 'ssl) wire option" where
  "on_wire into accept opened handle_of Round lv w =
     (case lv_rounds lv of
        [] \<Rightarrow> Some w
      | r # rs \<Rightarrow> open_connection handle_of (opened r) (map_option into (made_by accept r (lv_server lv))) w)"
| "on_wire into accept opened handle_of (Thread (Perform i)) lv w =
     (case sv_jobs (lv_service lv) ! i of
        Calling (call # calls) \<Rightarrow> Some (perform call w)
      | _ \<Rightarrow> Some w)"
| "on_wire into accept opened handle_of (Thread a) lv w = Some w"

text \<open>The handlers' state is that of the process: a step starts from it.\<close>

definition resume :: "'s \<Rightarrow> ('r, 'c, 'ssl, 's) live \<Rightarrow> ('r, 'c, 'ssl, 's) live" where
  "resume st lv = lv\<lparr>lv_service := (lv_service lv)\<lparr>sv_state := st\<rparr>\<rparr>"

lemma resume_select [simp]:
  "lv_rounds (resume st lv) = lv_rounds lv" "lv_seen (resume st lv) = lv_seen lv" "lv_server (resume st lv) = lv_server lv"
  "lv_status (resume st lv) = lv_status lv" "sv_queue (lv_service (resume st lv)) = sv_queue (lv_service lv)"
  "sv_history (lv_service (resume st lv)) = sv_history (lv_service lv)"
  "sv_jobs (lv_service (resume st lv)) = sv_jobs (lv_service lv)" "sv_state (lv_service (resume st lv)) = st"
  by (simp_all add: resume_def)

definition side_step ::
  "('c \<Rightarrow> 'd) \<Rightarrow> ('r, 'c) accepting \<Rightarrow> ('r \<Rightarrow> int option) \<Rightarrow> ('d \<Rightarrow> 'ssl option) \<Rightarrow> nat \<Rightarrow> ('c \<Rightarrow> 'c) \<Rightarrow>
   (nat \<Rightarrow> 'c \<Rightarrow> 's \<Rightarrow> ('ssl io list option \<times> 's) outcome) \<Rightarrow> 'c live_activity \<Rightarrow> 's \<Rightarrow>
   ('r, 'c, 'ssl, 's) live \<Rightarrow> ('d, 'ssl) wire \<Rightarrow> (('r, 'c, 'ssl, 's) live \<times> ('d, 'ssl) wire) option" where
  "side_step into accept opened handle_of c moved hc a st lv w =
     Option.bind (live_step accept c moved hc a (resume st lv)) (\<lambda>lv'.
     Option.bind (on_wire into accept opened handle_of a lv w) (\<lambda>w'. Some (lv', w')))"

lemma side_step_cases:
  assumes "side_step into accept opened handle_of c moved hc a st lv w = Some (lv', w')"
  shows "live_step accept c moved hc a (resume st lv) = Some lv'"
    and "on_wire into accept opened handle_of a lv w = Some w'"
  using assms by (auto simp: side_step_def bind_eq_Some_conv)

lemma live_Thread:
  "live_step accept c moved hc (Thread b) lv = Some lv' \<Longrightarrow>
   \<not> starts_push b \<and> (\<exists>sv. service_step c moved hc b (lv_service lv) = Some sv \<and> lv' = lv\<lparr>lv_service := sv\<rparr>)"
  by (auto split: if_splits)

section \<open>Where a peer's connection is\<close>

datatype whereabouts = Queued | With nat | Gone

definition queued :: "(nat \<Rightarrow> whereabouts) \<Rightarrow> (int \<times> 'c option) list \<Rightarrow> nat set" where
  "queued pos peers = {p. p < length peers \<and> snd (peers ! p) \<noteq> None \<and> pos p = Queued}"

fun located ::
  "('c \<Rightarrow> 'ssl io list) \<Rightarrow> ('c, 'ssl) job list \<Rightarrow> whereabouts \<Rightarrow> 'c \<Rightarrow> 'ssl io list \<Rightarrow> bool" where
  "located calls_of jobs Queued x calls \<longleftrightarrow> calls = calls_of x"
| "located calls_of jobs (With i) x calls \<longleftrightarrow>
     i < length jobs \<and> (jobs ! i = Handling x \<and> calls = calls_of x \<or> jobs ! i = Calling calls)"
| "located calls_of jobs Gone x calls \<longleftrightarrow> calls = []"

lemma located_other:
  "located calls_of jobs loc x calls \<Longrightarrow> loc \<noteq> With i \<Longrightarrow> located calls_of (jobs[i := job]) loc x calls"
  by (cases loc) auto

text \<open>
  The connections between the push and the end of the pop are those of the peers that are queued; a
  worker that is not popping has the connection of exactly one peer.
\<close>

definition tracked ::
  "('c \<Rightarrow> 'ssl io list) \<Rightarrow> (nat \<Rightarrow> whereabouts) \<Rightarrow> (nat \<Rightarrow> 'ssl io list) \<Rightarrow> (int \<times> 'c option) list \<Rightarrow>
   ('c, 'ssl, 's) service \<Rightarrow> bool" where
  "tracked calls_of pos rest peers sv \<longleftrightarrow>
     mset (shared.started (sv_queue sv)) =
       mset (delivered (sv_queue sv)) + image_mset (\<lambda>p. the (snd (peers ! p))) (mset_set (queued pos peers)) \<and>
     (\<forall>i < length (sv_jobs sv). sv_jobs sv ! i \<noteq> Popping \<longrightarrow>
        (\<exists>p < length peers. snd (peers ! p) \<noteq> None \<and> pos p = With i)) \<and>
     (\<forall>p < length peers. \<forall>x. snd (peers ! p) = Some x \<longrightarrow>
        located calls_of (sv_jobs sv) (pos p) x (rest p)) \<and>
     (\<forall>p < length peers. \<forall>q < length peers. \<forall>i. snd (peers ! p) \<noteq> None \<longrightarrow> snd (peers ! q) \<noteq> None \<longrightarrow>
        pos p = With i \<longrightarrow> pos q = With i \<longrightarrow> p = q)"

lemma tracked_cong:
  assumes "tracked calls_of pos rest peers sv" and "sv_jobs sv' = sv_jobs sv"
    and "shared.started (sv_queue sv') = shared.started (sv_queue sv)" and "delivered (sv_queue sv') = delivered (sv_queue sv)"
  shows "tracked calls_of pos rest peers sv'"
  using assms(1) unfolding tracked_def assms(2-4) .

lemma finite_queued: "finite (queued pos peers)"
  by (simp add: queued_def)

text \<open>A pop that has found a connection: one of the queued peers is now with the worker.\<close>

lemma tracked_pop:
  assumes ok: "tracked calls_of pos rest peers sv" and i: "i < length (sv_jobs sv)" "sv_jobs sv ! i = Popping"
    and sv': "sv_jobs sv' = (sv_jobs sv)[i := Handling x]"
      "shared.started (sv_queue sv') = shared.started (sv_queue sv)"
      "delivered (sv_queue sv') = delivered (sv_queue sv) @ [x]"
    and sub: "mset (delivered (sv_queue sv')) \<subseteq># mset (shared.started (sv_queue sv'))"
  shows "\<exists>pos'. tracked calls_of pos' rest peers sv'"
proof -
  let ?f = "\<lambda>p. the (snd (peers ! p))" and ?s = "sv_queue sv"
  from ok have bag: "mset (shared.started ?s) = mset (delivered ?s) + image_mset ?f (mset_set (queued pos peers))"
    and busy: "\<forall>i < length (sv_jobs sv). sv_jobs sv ! i \<noteq> Popping \<longrightarrow>
        (\<exists>p < length peers. snd (peers ! p) \<noteq> None \<and> pos p = With i)"
    and each: "\<forall>p < length peers. \<forall>x. snd (peers ! p) = Some x \<longrightarrow>
        located calls_of (sv_jobs sv) (pos p) x (rest p)"
    and one: "\<forall>p < length peers. \<forall>q < length peers. \<forall>i. snd (peers ! p) \<noteq> None \<longrightarrow> snd (peers ! q) \<noteq> None \<longrightarrow>
        pos p = With i \<longrightarrow> pos q = With i \<longrightarrow> p = q"
    by (simp_all add: tracked_def)
  from sub bag sv' have "add_mset x (mset (delivered ?s)) \<subseteq># mset (delivered ?s) + image_mset ?f (mset_set (queued pos peers))"
    by simp
  then have "x \<in># image_mset ?f (mset_set (queued pos peers))"
    by (metis add_mset_add_single subset_mset.add_le_cancel_left single_subset_iff)
  then obtain p where p: "p \<in> queued pos peers" "?f p = x" by (auto simp: finite_queued)
  then have px: "p < length peers" "snd (peers ! p) = Some x" "pos p = Queued" by (auto simp: queued_def)
  let ?pos = "pos(p := With i)"
  have "queued ?pos peers = queued pos peers - {p}" by (auto simp: queued_def)
  then have "mset_set (queued pos peers) = add_mset p (mset_set (queued ?pos peers))"
    using mset_set.remove [OF finite_queued p(1)] by simp
  with bag p(2) have "mset (shared.started ?s) = mset (delivered ?s @ [x]) + image_mset ?f (mset_set (queued ?pos peers))"
    by simp
  moreover have nobody: "pos q \<noteq> With i" if "q < length peers" "snd (peers ! q) \<noteq> None" for q
    using each that i by fastforce
  moreover have "\<exists>q < length peers. snd (peers ! q) \<noteq> None \<and> ?pos q = With j"
    if "j < length (sv_jobs sv)" "(sv_jobs sv)[i := Handling x] ! j \<noteq> Popping" for j
  proof (cases "j = i")
    case False
    with busy that obtain q where "q < length peers" "snd (peers ! q) \<noteq> None" "pos q = With j" by auto
    with px(3) show ?thesis by (intro exI [of _ q]) auto
  qed (use px in auto)
  moreover have "located calls_of ((sv_jobs sv)[i := Handling x]) (?pos q) y (rest q)"
    if q: "q < length peers" "snd (peers ! q) = Some y" for q y
  proof (cases "q = p")
    case True
    with each px i q show ?thesis by fastforce
  next
    case False
    moreover have "located calls_of (sv_jobs sv) (pos q) y (rest q)" using each q by blast
    ultimately show ?thesis using located_other nobody q by fastforce
  qed
  moreover have "\<forall>q < length peers. \<forall>r < length peers. \<forall>k. snd (peers ! q) \<noteq> None \<longrightarrow> snd (peers ! r) \<noteq> None \<longrightarrow>
        ?pos q = With k \<longrightarrow> ?pos r = With k \<longrightarrow> q = r"
    using one nobody by (auto split: if_splits)
  ultimately have "tracked calls_of ?pos rest peers sv'"
    unfolding tracked_def sv' by auto
  then show ?thesis by blast
qed

text \<open>The job of the peer with a worker goes on.\<close>

lemma tracked_job:
  assumes ok: "tracked calls_of pos rest peers sv" and p: "p < length peers" "snd (peers ! p) = Some x" "pos p = With i"
    and job: "located calls_of ((sv_jobs sv)[i := job]) loc x calls" "loc = With i \<and> job \<noteq> Popping \<or> loc = Gone \<and> job = Popping"
    and sv': "sv_jobs sv' = (sv_jobs sv)[i := job]" "sv_queue sv' = sv_queue sv"
  shows "tracked calls_of (pos(p := loc)) (rest(p := calls)) peers sv'"
proof -
  from ok have bag: "mset (shared.started (sv_queue sv)) =
      mset (delivered (sv_queue sv)) + image_mset (\<lambda>p. the (snd (peers ! p))) (mset_set (queued pos peers))"
    and busy: "\<forall>i < length (sv_jobs sv). sv_jobs sv ! i \<noteq> Popping \<longrightarrow>
        (\<exists>p < length peers. snd (peers ! p) \<noteq> None \<and> pos p = With i)"
    and each: "\<forall>p < length peers. \<forall>x. snd (peers ! p) = Some x \<longrightarrow>
        located calls_of (sv_jobs sv) (pos p) x (rest p)"
    and one: "\<forall>p < length peers. \<forall>q < length peers. \<forall>i. snd (peers ! p) \<noteq> None \<longrightarrow> snd (peers ! q) \<noteq> None \<longrightarrow>
        pos p = With i \<longrightarrow> pos q = With i \<longrightarrow> p = q"
    by (simp_all add: tracked_def)
  have "queued (pos(p := loc)) peers = queued pos peers" using p job(2) by (auto simp: queued_def)
  moreover have "\<exists>q < length peers. snd (peers ! q) \<noteq> None \<and> (pos(p := loc)) q = With j"
    if j: "j < length (sv_jobs sv)" "(sv_jobs sv)[i := job] ! j \<noteq> Popping" for j
  proof (cases "j = i")
    case True
    with j job(2) p show ?thesis by (intro exI [of _ p]) auto
  next
    case False
    with busy j obtain q where "q < length peers" "snd (peers ! q) \<noteq> None" "pos q = With j" by auto
    with False p show ?thesis by (intro exI [of _ q]) auto
  qed
  moreover have "located calls_of ((sv_jobs sv)[i := job]) ((pos(p := loc)) q) y ((rest(p := calls)) q)"
    if q: "q < length peers" "snd (peers ! q) = Some y" for q y
  proof (cases "q = p")
    case True
    with q p job(1) show ?thesis by simp
  next
    case False
    with one p q have "pos q \<noteq> With i" by (metis option.distinct(1))
    moreover have "located calls_of (sv_jobs sv) (pos q) y (rest q)" using each q by blast
    ultimately show ?thesis using located_other False by fastforce
  qed
  moreover have "\<forall>q < length peers. \<forall>r < length peers. \<forall>k. snd (peers ! q) \<noteq> None \<longrightarrow> snd (peers ! r) \<noteq> None \<longrightarrow>
        (pos(p := loc)) q = With k \<longrightarrow> (pos(p := loc)) r = With k \<longrightarrow> q = r"
    using one p job(2) by (auto split: if_splits)
  ultimately show ?thesis using bag unfolding tracked_def sv' by auto
qed

text \<open>A new peer: its connection is queued, if one was made.\<close>

lemma tracked_new:
  assumes ok: "tracked calls_of pos rest peers sv" and jobs: "sv_jobs sv' = sv_jobs sv"
    and queue: "delivered (sv_queue sv') = delivered (sv_queue sv)"
      "shared.started (sv_queue sv') = shared.started (sv_queue sv) @ (case made of None \<Rightarrow> [] | Some x \<Rightarrow> [x])"
    and calls: "\<And>x. made = Some x \<Longrightarrow> calls = calls_of x"
  shows "tracked calls_of (pos(length peers := Queued)) (rest(length peers := calls)) (peers @ [(fd, made)]) sv'"
proof -
  let ?n = "length peers" and ?pos = "pos(length peers := Queued)" and ?peers = "peers @ [(fd, made)]"
  from ok have bag: "mset (shared.started (sv_queue sv)) =
      mset (delivered (sv_queue sv)) + image_mset (\<lambda>p. the (snd (peers ! p))) (mset_set (queued pos peers))"
    and busy: "\<forall>i < length (sv_jobs sv). sv_jobs sv ! i \<noteq> Popping \<longrightarrow>
        (\<exists>p < length peers. snd (peers ! p) \<noteq> None \<and> pos p = With i)"
    and each: "\<forall>p < length peers. \<forall>x. snd (peers ! p) = Some x \<longrightarrow>
        located calls_of (sv_jobs sv) (pos p) x (rest p)"
    and one: "\<forall>p < length peers. \<forall>q < length peers. \<forall>i. snd (peers ! p) \<noteq> None \<longrightarrow> snd (peers ! q) \<noteq> None \<longrightarrow>
        pos p = With i \<longrightarrow> pos q = With i \<longrightarrow> p = q"
    by (simp_all add: tracked_def)
  have q: "queued ?pos ?peers = queued pos peers \<union> (if made = None then {} else {?n})"
    by (auto simp: queued_def nth_append less_Suc_eq split: if_splits)
  have old: "image_mset (\<lambda>p. the (snd (?peers ! p))) (mset_set (queued pos peers)) =
      image_mset (\<lambda>p. the (snd (peers ! p))) (mset_set (queued pos peers))"
    by (intro image_mset_cong) (auto simp: queued_def nth_append finite_queued)
  have "?n \<notin> queued pos peers" by (simp add: queued_def)
  with q old have "image_mset (\<lambda>p. the (snd (?peers ! p))) (mset_set (queued ?pos ?peers)) =
      image_mset (\<lambda>p. the (snd (peers ! p))) (mset_set (queued pos peers)) +
      mset (case made of None \<Rightarrow> [] | Some x \<Rightarrow> [x])"
    by (cases made) (simp_all add: finite_queued)
  with bag queue have "mset (shared.started (sv_queue sv')) =
      mset (delivered (sv_queue sv')) + image_mset (\<lambda>p. the (snd (?peers ! p))) (mset_set (queued ?pos ?peers))"
    by simp
  moreover have "\<exists>p < length ?peers. snd (?peers ! p) \<noteq> None \<and> ?pos p = With i"
    if i: "i < length (sv_jobs sv)" "sv_jobs sv ! i \<noteq> Popping" for i
  proof -
    from busy i obtain p where "p < length peers" "snd (peers ! p) \<noteq> None" "pos p = With i" by blast
    then show ?thesis by (intro exI [of _ p]) (simp add: nth_append)
  qed
  moreover have "located calls_of (sv_jobs sv) (?pos p) x ((rest(?n := calls)) p)"
    if p: "p < length ?peers" "snd (?peers ! p) = Some x" for p x
    using p each calls by (cases "p = ?n") (simp_all add: nth_append)
  moreover have "p = q" if "p < length ?peers" "q < length ?peers" "snd (?peers ! p) \<noteq> None" "snd (?peers ! q) \<noteq> None"
      "?pos p = With i" "?pos q = With i" for p q i
    using that one by (cases "p = ?n"; cases "q = ?n") (auto simp: nth_append)
  ultimately show ?thesis unfolding tracked_def jobs by blast
qed

section \<open>The peers of one server\<close>

definition own :: "('d \<Rightarrow> 'c option) \<Rightarrow> (int \<times> 'd option) list \<Rightarrow> (int \<times> 'c option) list" where
  "own proj peers = map (\<lambda>(fd, made). (fd, Option.bind made proj)) peers"

definition accepted :: "('d \<Rightarrow> 'c option) \<Rightarrow> (int \<times> 'd option) list \<Rightarrow> 'c list" where
  "accepted proj peers = concat (map (\<lambda>(fd, made). case Option.bind made proj of None \<Rightarrow> [] | Some x \<Rightarrow> [x]) peers)"

lemma own_simps [simp]:
  "length (own proj peers) = length peers" "own proj [] = []"
  "own proj (peers @ [(fd, made)]) = own proj peers @ [(fd, Option.bind made proj)]"
  "p < length peers \<Longrightarrow> own proj peers ! p = (fst (peers ! p), Option.bind (snd (peers ! p)) proj)"
  by (simp_all add: own_def case_prod_beta)

lemma accepted_simps [simp]:
  "accepted proj [] = []"
  "accepted proj (peers @ [(fd, made)]) =
     accepted proj peers @ (case Option.bind made proj of None \<Rightarrow> [] | Some x \<Rightarrow> [x])"
  by (simp_all add: accepted_def)

text \<open>Nothing that is done for other peers concerns them.\<close>

lemma tracked_rest:
  assumes "tracked calls_of pos rest peers sv" and "\<forall>p < length peers. snd (peers ! p) \<noteq> None \<longrightarrow> rest' p = rest p"
  shows "tracked calls_of pos rest' peers sv"
proof -
  have "located calls_of (sv_jobs sv) (pos p) x (rest' p)" if "p < length peers" "snd (peers ! p) = Some x" for p x
    using assms that by (simp add: tracked_def)
  with assms(1) show ?thesis unfolding tracked_def by blast
qed

text \<open>
  \<open>busy_with proj\<close>: from one state of the wire to the next, only peers found by \<open>proj\<close> were served, and
  at most one was added, which is one of them or none at all.
\<close>

definition busy_with ::
  "('d \<Rightarrow> 'c option) \<Rightarrow> (nat \<Rightarrow> 'ssl io list) \<Rightarrow> (int \<times> 'd option) list \<Rightarrow> (nat \<Rightarrow> 'ssl io list) \<Rightarrow>
   (int \<times> 'd option) list \<Rightarrow> bool" where
  "busy_with proj rest peers rest' peers' \<longleftrightarrow>
     (\<forall>p < length peers. Option.bind (snd (peers ! p)) proj = None \<longrightarrow> rest' p = rest p) \<and>
     (peers' = peers \<or> (\<exists>f made. peers' = peers @ [(f, made)] \<and> (\<forall>d. made = Some d \<longrightarrow> proj d \<noteq> None)))"

definition side_ok ::
  "('c \<Rightarrow> 'ssl io list) \<Rightarrow> ('d \<Rightarrow> 'c option) \<Rightarrow> nat \<Rightarrow> ('c \<Rightarrow> 'c) \<Rightarrow> nat \<Rightarrow> 'c \<Rightarrow> (nat \<Rightarrow> whereabouts) \<Rightarrow>
   (nat \<Rightarrow> 'ssl io list) \<Rightarrow> (int \<times> 'd option) list \<Rightarrow> ('r, 'c, 'ssl, 's) live \<Rightarrow> bool" where
  "side_ok calls_of proj c moved workers d pos rest peers lv \<longleftrightarrow>
     tracked calls_of pos rest (own proj peers) (lv_service lv) \<and>
     paced c moved workers d (sv_queue (lv_service lv)) (sv_history (lv_service lv)) \<and>
     shared.started (sv_queue (lv_service lv)) = accepted proj peers"

lemma other_side_ok:
  assumes ok: "side_ok calls_of proj c moved workers d pos rest peers lv"
    and busy: "busy_with proj' rest peers rest' peers'"
    and apart: "\<And>y. proj' y \<noteq> None \<Longrightarrow> proj y = None"
  shows "\<exists>pos'. side_ok calls_of proj c moved workers d pos' rest' peers' lv"
proof -
  let ?sv = "lv_service lv"
  have "\<forall>p < length peers. Option.bind (snd (peers ! p)) proj \<noteq> None \<longrightarrow> rest' p = rest p"
    using busy apart unfolding busy_with_def by (metis bind.bind_lunit bind_eq_None_conv option.collapse)
  with ok tracked_rest [of calls_of pos rest "own proj peers" ?sv rest']
  have track: "tracked calls_of pos rest' (own proj peers) ?sv" by (simp add: side_ok_def)
  from busy consider "peers' = peers" | f made where "peers' = peers @ [(f, made)]" "Option.bind made proj = None"
    unfolding busy_with_def using apart by (metis bind.bind_lunit bind.bind_lzero option.collapse)
  then show ?thesis
  proof cases
    case 1
    with ok track show ?thesis by (auto simp: side_ok_def)
  next
    case 2
    from tracked_new [OF track, of ?sv None "rest' (length peers)" f]
    have "tracked calls_of (pos(length peers := Queued)) rest' (own proj peers') ?sv" by (simp add: 2)
    with ok show ?thesis by (auto simp: side_ok_def 2)
  qed
qed

section \<open>A step of one server\<close>

lemma untracked_load_step:
  assumes "service_step c moved hc (Access (LoadTail x)) sv = Some sv'"
  shows "sv_jobs sv' = sv_jobs sv" "sv_state sv' = sv_state sv" "delivered (sv_queue sv') = delivered (sv_queue sv)"
    "shared.started (sv_queue sv') = shared.started (sv_queue sv) @ [x]"
proof -
  from assms obtain q where "sv' = sv\<lparr>sv_queue := q\<rparr>" by (auto simp: step_Access)
  then show "sv_jobs sv' = sv_jobs sv" "sv_state sv' = sv_state sv" by simp_all
  show "delivered (sv_queue sv') = delivered (sv_queue sv)"
    using access_delivered [OF access_step_queue [OF assms, THEN conjunct1]] by simp
qed (rule load_tail_started [OF assms])

lemma service_step_paced:
  assumes "paced c moved workers d (sv_queue sv) (sv_history sv)"
    and "\<And>x. a = Access (LoadTail x) \<Longrightarrow> unlapped c (sv_queue sv) (sv_history sv)"
    and "service_step c moved hc a sv = Some sv'"
  shows "paced c moved workers d (sv_queue sv') (sv_history sv')"
proof (cases a)
  case (Access m)
  with assms(3) have q: "access c moved m (sv_queue sv) = Some (sv_queue sv')"
    "sv_history sv' = record_access m (sv_queue sv') (sv_history sv)"
    using access_step_queue by blast+
  from assms(2) Access have "unlapped c (sv_queue sv) (sv_history sv)" if "m = LoadTail x" for x using that by simp
  from paced.step [OF assms(1) this q(1)] q show ?thesis by simp
qed (use assms in \<open>auto simp: step_Handle step_Perform\<close>)

text \<open>
  A handler whose calls for a connection are the connection's own, behind an accept loop whose
  connections carry the descriptor that was opened for them; \<open>fd_all\<close>, \<open>handle_all\<close> and \<open>calls_all\<close> are for
  the connections of all servers.
\<close>

locale addressed_handler = handler_contract handle_conn calls_of keeps
  for handle_conn :: "nat \<Rightarrow> 'c \<Rightarrow> 's \<Rightarrow> ('ssl io list option \<times> 's) outcome" and calls_of keeps +
  fixes into :: "'c \<Rightarrow> 'd"
    and proj :: "'d \<Rightarrow> 'c option"
    and fd_all :: "'d \<Rightarrow> int"
    and handle_all :: "'d \<Rightarrow> 'ssl option"
    and calls_all :: "'d \<Rightarrow> 'ssl io list"
    and accept :: "('r, 'c) accepting"
    and opened :: "'r \<Rightarrow> int option"
  assumes proj_into: "proj y = Some x \<longleftrightarrow> y = into x"
    and calls_into: "calls_all (into x) = calls_of x"
    and closes_own: "Close (fd_all (into x)) \<in> set (calls_of x)"
    and own_calls: "well_addressed (fd_all (into x)) (handle_all (into x)) (calls_of x)"
    and made_opened: "accept r srv = Returns (Inr (Some x), srv') \<Longrightarrow> opened r = Some (fd_all (into x))"
begin

lemma thread_tracked:
  assumes track: "tracked calls_of pos rest (own proj (wr_peers w)) sv"
    and wire: "wire_ok fd_all handle_all calls_all rest w" and st: "keeps (sv_state sv)"
    and step: "service_step c moved handle_conn a sv = Some sv'" and a: "\<not> starts_push a"
    and jobs: "sv_jobs (lv_service lv) = sv_jobs sv" and w': "on_wire into accept opened handle_all (Thread a) lv w = Some w'"
    and sub: "mset (delivered (sv_queue sv')) \<subseteq># mset (shared.started (sv_queue sv'))"
  shows "\<exists>pos' rest'. tracked calls_of pos' rest' (own proj (wr_peers w')) sv' \<and>
    wire_ok fd_all handle_all calls_all rest' w' \<and> busy_with proj rest (wr_peers w) rest' (wr_peers w')"
proof -
  let ?peers = "own proj (wr_peers w)"
  have idle: "busy_with proj rest (wr_peers w) rest (wr_peers w)" by (simp add: busy_with_def)
  have worker: "\<exists>p x. p < length ?peers \<and> snd (?peers ! p) = Some x \<and> pos p = With i \<and>
      located calls_of (sv_jobs sv) (With i) x (rest p)" if "i < length (sv_jobs sv)" "sv_jobs sv ! i \<noteq> Popping" for i
    using track that unfolding tracked_def by (metis not_Some_eq)
  show ?thesis
  proof (cases a)
    case (Access m)
    with w' have w: "w' = w" by simp
    from step Access access_step_queue have q: "access c moved m (sv_queue sv) = Some (sv_queue sv')" by blast
    from other_started [OF step a] have pushed: "shared.started (sv_queue sv') = shared.started (sv_queue sv)" .
    show ?thesis
    proof (cases "returned m (sv_queue sv)")
      case None
      with step Access have "sv_jobs sv' = sv_jobs sv" by (auto simp: step_Access split: option.splits)
      with tracked_cong [OF track this pushed] access_delivered [OF q] None wire idle show ?thesis unfolding w by auto
    next
      case (Some x)
      from returned_worker [OF this] obtain i where i: "worker_of m = Some i" by blast
      with step Access Some have "i < length (sv_jobs sv)" "sv_jobs sv ! i = Popping"
        "sv_jobs sv' = (sv_jobs sv)[i := Handling x]" by (auto simp: step_Access free_def)
      from tracked_pop [OF track this pushed _ sub] access_delivered [OF q] Some wire idle show ?thesis unfolding w by auto
    qed
  next
    case (Handle i)
    with w' have w: "w' = w" by simp
    from step Handle obtain x calls s' where i: "i < length (sv_jobs sv)" "sv_jobs sv ! i = Handling x"
      and h: "handle_conn i x (sv_state sv) = Returns (Some calls, s')"
      and sv': "sv_jobs sv' = (sv_jobs sv)[i := Calling calls]" "sv_queue sv' = sv_queue sv"
      by (auto simp: step_Handle)
    from worker [of i] i obtain p where p: "p < length ?peers" "snd (?peers ! p) = Some x" "pos p = With i"
      "rest p = calls_of x" by auto
    from handled [OF st h] have "located calls_of ((sv_jobs sv)[i := Calling calls]) (With i) x (rest p)"
      using i p(4) by simp
    from tracked_job [OF track p(1-3) this _ sv'] wire idle show ?thesis unfolding w fun_upd_triv by auto
  next
    case (Perform i)
    with step have i: "i < length (sv_jobs sv)" and
      alts: "sv_jobs sv ! i = Calling [] \<and> sv_jobs sv' = (sv_jobs sv)[i := Popping] \<and> sv_queue sv' = sv_queue sv \<or>
        (\<exists>call calls. sv_jobs sv ! i = Calling (call # calls) \<and> sv_jobs sv' = (sv_jobs sv)[i := Calling calls] \<and>
          sv_queue sv' = sv_queue sv)"
      by (auto simp: step_Perform)
    from alts have "sv_jobs sv ! i \<noteq> Popping" by auto
    with worker [OF i] obtain p x where p: "p < length ?peers" "snd (?peers ! p) = Some x" "pos p = With i"
      and loc: "located calls_of (sv_jobs sv) (With i) x (rest p)" by blast
    from p have px: "p < length (wr_peers w)" "wr_peers w ! p = (fst (wr_peers w ! p), Some (into x))"
      by (auto simp: proj_into prod_eq_iff bind_eq_Some_conv)
    from alts show ?thesis
    proof (elim disjE exE conjE)
      assume job: "sv_jobs sv ! i = Calling []" and sv': "sv_jobs sv' = (sv_jobs sv)[i := Popping]" "sv_queue sv' = sv_queue sv"
      from job loc have rest: "rest p = []" by simp
      then have "located calls_of ((sv_jobs sv)[i := Popping]) Gone x (rest p)" by simp
      from tracked_job [OF track p this _ sv'] wire job jobs w' Perform idle show ?thesis unfolding fun_upd_triv by auto
    next
      fix call calls
      assume job: "sv_jobs sv ! i = Calling (call # calls)"
        and sv': "sv_jobs sv' = (sv_jobs sv)[i := Calling calls]" "sv_queue sv' = sv_queue sv"
      from job loc have rest: "rest p = call # calls" by simp
      have w: "w' = perform call w" using w' Perform job jobs by simp
      have "located calls_of ((sv_jobs sv)[i := Calling calls]) (With i) x calls" using i by simp
      from tracked_job [OF track p this _ sv']
      have "tracked calls_of (pos(p := With i)) (rest(p := calls)) (own proj (wr_peers w')) sv'" by (simp add: w)
      moreover from perform_wire_ok [OF wire px rest]
      have "wire_ok fd_all handle_all calls_all (rest(p := calls)) w'" by (simp add: w)
      moreover have "busy_with proj rest (wr_peers w) (rest(p := calls)) (wr_peers w')"
        using p by (auto simp: busy_with_def w)
      ultimately show ?thesis by blast
    qed
  qed
qed

lemma round_tracked:
  assumes track: "tracked calls_of pos rest (own proj (wr_peers w)) (lv_service lv)"
    and wire: "wire_ok fd_all handle_all calls_all rest w"
    and all: "shared.started (sv_queue (lv_service lv)) = accepted proj (wr_peers w)"
    and step: "live_step accept c moved handle_conn Round lv = Some lv'"
    and w': "on_wire into accept opened handle_all Round lv w = Some w'"
  shows "\<exists>pos' rest'. tracked calls_of pos' rest' (own proj (wr_peers w')) (lv_service lv') \<and>
    wire_ok fd_all handle_all calls_all rest' w' \<and> busy_with proj rest (wr_peers w) rest' (wr_peers w') \<and>
    shared.started (sv_queue (lv_service lv')) = accepted proj (wr_peers w')"
proof -
  let ?sv = "lv_service lv" and ?n = "length (wr_peers w)"
  from step obtain r rs result srv where r: "lv_rounds lv = r # rs"
    and round: "accept r (lv_server lv) = Returns (result, srv)"
    and result: "case result of
       Inl status \<Rightarrow> lv_status lv' = status \<and> lv_service lv' = ?sv
     | Inr None \<Rightarrow> lv_status lv' = lv_status lv \<and> lv_service lv' = ?sv
     | Inr (Some x) \<Rightarrow> lv_status lv' = lv_status lv \<and>
         service_step c moved handle_conn (Access (LoadTail x)) ?sv = Some (lv_service lv')"
    by (rule live_Round)
  define made where "made = made_by accept r (lv_server lv)"
  have made: "made = (case result of Inl _ \<Rightarrow> None | Inr m \<Rightarrow> m)" using round by (simp add: made_def made_by_def split: sum.split)
  from w' r have opens: "open_connection handle_all (opened r) (map_option into made) w = Some w'" by (simp add: made_def)
  have found: "Option.bind (map_option into made) proj = made" using proj_into by (cases made) auto
  have "sv_jobs (lv_service lv') = sv_jobs ?sv \<and> delivered (sv_queue (lv_service lv')) = delivered (sv_queue ?sv) \<and>
      shared.started (sv_queue (lv_service lv')) =
        shared.started (sv_queue ?sv) @ (case made of None \<Rightarrow> [] | Some x \<Rightarrow> [x])"
    using result untracked_load_step unfolding made by (auto split: sum.splits option.splits)
  then have sv': "sv_jobs (lv_service lv') = sv_jobs ?sv" "delivered (sv_queue (lv_service lv')) = delivered (sv_queue ?sv)"
      "shared.started (sv_queue (lv_service lv')) =
        shared.started (sv_queue ?sv) @ (case made of None \<Rightarrow> [] | Some x \<Rightarrow> [x])" by blast+
  have fd: "opened r = Some (fd_all (into x))" if "made = Some x" for x
    using made_opened [of r "lv_server lv" x srv] round made that by (auto split: sum.splits)
  show ?thesis
  proof (cases "opened r")
    case None
    with fd have "made = None" by (cases made) auto
    with sv' have "tracked calls_of pos rest (own proj (wr_peers w)) (lv_service lv')"
      "shared.started (sv_queue (lv_service lv')) = accepted proj (wr_peers w)"
      using tracked_cong [OF track] all by simp_all
    moreover have "w' = w" using open_connection_eq [OF opens] None by simp
    ultimately show ?thesis using wire by (auto simp: busy_with_def)
  next
    case (Some f)
    let ?calls = "case made of None \<Rightarrow> [] | Some x \<Rightarrow> calls_of x"
    have peers: "wr_peers w' = wr_peers w @ [(f, map_option into made)]" using open_connection_eq [OF opens] Some by auto
    have "fd_all y = f \<and> Close f \<in> set (calls_all y) \<and> well_addressed f (handle_all y) (calls_all y)"
      if "map_option into made = Some y" for y
      using that fd Some closes_own own_calls by (auto simp: calls_into)
    moreover have "?calls = calls_all y" if "map_option into made = Some y" for y
      using that by (auto simp: calls_into)
    ultimately have "wire_ok fd_all handle_all calls_all (rest(?n := ?calls)) w'"
      by (rule open_wire_ok [OF wire opens [unfolded Some]])
    moreover have "tracked calls_of (pos(?n := Queued)) (rest(?n := ?calls)) (own proj (wr_peers w')) (lv_service lv')"
      using tracked_new [OF track sv', of ?calls f] by (simp add: peers found)
    moreover have "busy_with proj rest (wr_peers w) (rest(?n := ?calls)) (wr_peers w')"
      using proj_into by (auto simp: busy_with_def peers)
    moreover have "shared.started (sv_queue (lv_service lv')) = accepted proj (wr_peers w')"
      by (simp add: peers found sv' all)
    ultimately show ?thesis by blast
  qed
qed

text \<open>A step of this server, whatever the others have done since its last one.\<close>

lemma side_moves:
  assumes ok: "side_ok calls_of proj c moved workers d pos rest (wr_peers w) lv"
    and wire: "wire_ok fd_all handle_all calls_all rest w" and st: "keeps st" and c: "0 < c" "c \<le> 100"
    and room: "paced_at c a lv"
    and step: "side_step into accept opened handle_all c moved handle_conn a st lv w = Some (lv', w')"
  shows "keeps (sv_state (lv_service lv')) \<and> (\<exists>pos' rest'. side_ok calls_of proj c moved workers d pos' rest' (wr_peers w') lv' \<and>
    wire_ok fd_all handle_all calls_all rest' w' \<and> busy_with proj rest (wr_peers w) rest' (wr_peers w'))"
proof -
  let ?lv = "resume st lv"
  let ?sv = "lv_service ?lv"
  from ok have track: "tracked calls_of pos rest (own proj (wr_peers w)) ?sv"
    and paced: "paced c moved workers d (sv_queue ?sv) (sv_history ?sv)"
    and all: "shared.started (sv_queue (lv_service ?lv)) = accepted proj (wr_peers w)"
    unfolding side_ok_def by (auto intro: tracked_cong)
  note to = side_step_cases [OF step]
  show ?thesis
  proof (cases a)
    case Round
    from to(2) have w': "on_wire into accept opened handle_all Round ?lv w = Some w'" by (simp add: Round split: list.splits)
    from to(1) [unfolded Round] have same: "lv_service lv' = ?sv \<or>
        (\<exists>x. service_step c moved handle_conn (Access (LoadTail x)) ?sv = Some (lv_service lv'))"
      by (rule live_Round) (auto split: sum.splits option.splits)
    have "unlapped c (sv_queue ?sv) (sv_history ?sv)" using room Round by (simp add: paced_at_def)
    with same service_step_paced [OF paced] have "paced c moved workers d (sv_queue (lv_service lv')) (sv_history (lv_service lv'))"
      using paced by metis
    moreover have "keeps (sv_state (lv_service lv'))" using same untracked_load_step(2) st by (metis resume_select(8))
    moreover note round_tracked [OF track wire all to(1) [unfolded Round] w']
    ultimately show ?thesis by (auto simp: side_ok_def)
  next
    case (Thread b)
    with to(1) live_Thread obtain sv where b: "\<not> starts_push b"
      and sv: "service_step c moved handle_conn b ?sv = Some sv" and lv': "lv' = ?lv\<lparr>lv_service := sv\<rparr>" by blast
    have "b \<noteq> Access (LoadTail x)" for x using b by auto
    with service_step_paced [OF paced _ sv] have paced': "paced c moved workers d (sv_queue sv) (sv_history sv)" by blast
    note sub = paced_delivered_started [OF this c]
    have "keeps (sv_state sv)"
    proof (cases b)
      case (Handle i)
      with sv st handled show ?thesis by (fastforce simp: step_Handle)
    qed (use sv st in \<open>auto simp: step_Perform step_Access split: option.splits\<close>)
    moreover have "sv_jobs (lv_service lv) = sv_jobs ?sv" "keeps (sv_state ?sv)" using st by simp_all
    then have "\<exists>pos' rest'. tracked calls_of pos' rest' (own proj (wr_peers w')) sv \<and>
        wire_ok fd_all handle_all calls_all rest' w' \<and> busy_with proj rest (wr_peers w) rest' (wr_peers w')"
      using thread_tracked [OF track wire _ sv b _ to(2) [unfolded Thread] sub] by blast
    moreover have "wr_peers w' = wr_peers w"
      using to(2) [unfolded Thread] by (cases b) (auto split: job.splits list.splits)
    moreover have "shared.started (sv_queue sv) = accepted proj (wr_peers w)" using other_started [OF sv b] all by simp
    ultimately show ?thesis using paced' by (auto simp: side_ok_def lv')
  qed
qed

lemma side_served:
  assumes ok: "side_ok calls_of proj c moved workers d pos rest (wr_peers w) lv"
    and wire: "wire_ok fd_all handle_all calls_all rest w" and c: "0 < c" "c \<le> 100"
    and p: "p < length (wr_peers w)" "wr_peers w ! p = (fd, Some (into x))"
  shows "prefix (written_to p w) (texts (calls_of x))"
    and "at_rest (lv_service lv) \<Longrightarrow> written_to p w = texts (calls_of x) \<and> wr_owner w fd \<noteq> Some p"
proof -
  let ?sv = "lv_service lv" and ?peers = "own proj (wr_peers w)"
  from ok have track: "tracked calls_of pos rest ?peers ?sv"
    and paced: "paced c moved workers d (sv_queue ?sv) (sv_history ?sv)" by (simp_all add: side_ok_def)
  from wire p have mine: "peer_ok fd_all handle_all calls_all w p (fd, Some (into x)) (rest p)"
    unfolding wire_ok_def by metis
  then show "prefix (written_to p w) (texts (calls_of x))"
    by (auto simp: peer_ok_def calls_into intro: prefixI [OF sym])
  assume rest_state: "at_rest ?sv"
  from p have px: "p < length ?peers" "snd (?peers ! p) = Some x" using proj_into by auto
  have "mset (delivered (sv_queue ?sv)) = mset (shared.started (sv_queue ?sv))"
    using paced_accounting [OF paced c] rest_state by (simp add: at_rest_def)
  with track have "image_mset (\<lambda>p. the (snd (?peers ! p))) (mset_set (queued pos ?peers)) = {#}"
    by (simp add: tracked_def)
  then have "queued pos ?peers = {}" using mset_set_empty_iff finite_queued by (metis image_mset_is_empty_iff)
  with px have "pos p \<noteq> Queued" by (auto simp: queued_def)
  moreover have "located calls_of (sv_jobs ?sv) (pos p) x (rest p)" using track px unfolding tracked_def by blast
  moreover have "sv_jobs ?sv ! i = Popping" if "i < length (sv_jobs ?sv)" for i
    using rest_state that nth_mem unfolding at_rest_def by blast
  ultimately have "rest p = []" by (cases "pos p") auto
  with mine wire p show "written_to p w = texts (calls_of x) \<and> wr_owner w fd \<noteq> Some p"
    unfolding wire_ok_def peer_ok_def by (fastforce simp: calls_into)
qed

end

end
