(* ===== verification/Process.thy ===== *)
theory Process
  imports Network
begin

text \<open>
  The process: the plain and the TLS server with their accepting threads and workers, all steps of all
  threads interleaved.  They share the table of descriptors, and the file manager of
  \<^verbatim>\<open>http_handler.cpp\<close> with its cache, whose users are the workers of both (\<open>SharedFiles\<close>).
\<close>

section \<open>What the two servers bring\<close>

definition tcp_opened :: "tcp_round \<Rightarrow> int option" where
  "tcp_opened r = (if tr_stop r \<or> tr_fd r = -1 then None else Some (tr_fd r))"

definition tls_opened :: "'ssl tls_round \<Rightarrow> int option" where
  "tls_opened r = (if lr_stop r \<or> lr_fd r = -1 then None else Some (lr_fd r))"

lemma recv_loop_fd: "recv_loop as srv = Some (a, srv') \<Longrightarrow> srv_client_fd srv' = srv_client_fd srv"
  by (induction as srv rule: recv_loop.induct) (auto simp: Let_def split: if_splits)

lemma tls_read_loop_fd: "tls_read_loop as srv = Some (a, srv') \<Longrightarrow> srv_client_fd srv' = srv_client_fd srv"
  by (induction as srv rule: tls_read_loop.induct) (auto simp: Let_def split: if_splits)

text \<open>A connection is one of the plain or one of the TLS server.\<close>

type_synonym 'ssl connection = "http_connection + 'ssl https_connection"

fun fd_of :: "'ssl connection \<Rightarrow> int" where
  "fd_of (Inl x) = tcp_fd x"
| "fd_of (Inr x) = tls_fd x"

fun handle_of :: "'ssl connection \<Rightarrow> 'ssl option" where
  "handle_of (Inl x) = None"
| "handle_of (Inr x) = Some (tls_ssl x)"

fun plain_of :: "'ssl connection \<Rightarrow> http_connection option" where
  "plain_of (Inl x) = Some x"
| "plain_of (Inr x) = None"

fun secure_of :: "'ssl connection \<Rightarrow> 'ssl https_connection option" where
  "secure_of (Inl x) = None"
| "secure_of (Inr x) = Some x"

fun calls_due :: "('ssl \<Rightarrow> nat \<Rightarrow> bool) \<Rightarrow> disk \<Rightarrow> descriptors \<Rightarrow> 'ssl connection \<Rightarrow> 'ssl io list" where
  "calls_due want_write files fds (Inl x) = calls_for files fds x"
| "calls_due want_write files fds (Inr x) = tls_calls_for want_write files fds x"

lemma of_Some [simp]: "plain_of y = Some x \<longleftrightarrow> y = Inl x" "secure_of y = Some z \<longleftrightarrow> y = Inr z"
  by (cases y; auto)+

text \<open>The workers of the plain server use the manager as \<open>Inl i\<close>, those of the TLS server as \<open>Inr i\<close>.\<close>

type_synonym users = "nat + nat"

interpretation plain: addressed_handler "tcp_worker files (Inl :: nat \<Rightarrow> users)" "calls_for files fds"
  "files_ok files fds" Inl plain_of fd_of handle_of "calls_due want_write files fds"
  accept_round tcp_opened
  for files fds and want_write :: "'ssl \<Rightarrow> nat \<Rightarrow> bool"
proof unfold_locales
  fix x :: http_connection
  show "Close (fd_of (Inl x)) \<in> set (calls_for files fds x)"
    "well_addressed (fd_of (Inl x)) (handle_of (Inl x)) (calls_for files fds x)"
    by (simp_all add: calls_for_def split: option.split)
next
  fix r srv x srv'
  assume "accept_round r srv = Returns (Inr (Some x), srv')"
  then show "tcp_opened r = Some (fd_of (Inl x))"
    by (auto simp: accept_round_def tcp_opened_def Let_def obind_eq_Returns dest!: recv_loop_fd split: if_splits option.splits)
qed simp_all

lemma tls_writes: "well_addressed fd (Some h) after \<Longrightarrow> Close fd \<in> set after \<Longrightarrow> SslFree h \<in> set after \<Longrightarrow>
  well_addressed fd (Some h) (replicate n (SslWrite h r k) @ after)"
  by (induction n) auto

lemma tls_calls_shape:
  "(\<exists>n. tls_calls_for want_write files fds x =
      (case answer_to files fds (tls_request x) of
         None \<Rightarrow> [] | Some r \<Rightarrow> replicate n (SslWrite (tls_ssl x) r (length_as_int r))) @ TLSCloser_CloseConnection x)"
proof (cases "answer_to files fds (tls_request x)")
  case (Some r)
  show ?thesis
  proof (cases "TLSSender_SendMsg (want_write (tls_ssl x)) x r")
    case None
    with Some show ?thesis by (intro exI [of _ 0]) (simp add: tls_calls_for_def)
  next
    case (Some writes)
    with tls_write_loop_Some [of "want_write (tls_ssl x)" "tls_ssl x" r 0 writes]
    obtain n where "writes = replicate (Suc n) (SslWrite (tls_ssl x) r (length_as_int r))" by (auto simp: TLSSender_SendMsg_def)
    with Some \<open>answer_to _ _ _ = _\<close> show ?thesis by (intro exI [of _ "Suc n"]) (simp add: tls_calls_for_def)
  qed
qed (simp add: tls_calls_for_def)

interpretation secure: addressed_handler "tls_worker want_write files (Inr :: nat \<Rightarrow> users)"
  "tls_calls_for want_write files fds" "files_ok files fds"
  Inr secure_of fd_of handle_of "calls_due want_write files fds" tls_accept_round tls_opened
  for want_write :: "'ssl \<Rightarrow> nat \<Rightarrow> bool" and files fds
proof unfold_locales
  fix x :: "'ssl https_connection"
  have "well_addressed (tls_fd x) (Some (tls_ssl x)) (TLSCloser_CloseConnection x)"
    by (simp add: TLSCloser_CloseConnection_def)
  with tls_calls_shape [of want_write files fds x] tls_writes [of "tls_fd x" "tls_ssl x" "TLSCloser_CloseConnection x"]
  show "Close (fd_of (Inr x)) \<in> set (tls_calls_for want_write files fds x)"
    "well_addressed (fd_of (Inr x)) (handle_of (Inr x)) (tls_calls_for want_write files fds x)"
    by (auto simp: TLSCloser_CloseConnection_def split: option.splits)
next
  fix r srv and x :: "'ssl https_connection" and srv'
  assume "tls_accept_round r srv = Returns (Inr (Some x), srv')"
  then show "tls_opened r = Some (fd_of (Inr x))"
    by (auto simp: tls_accept_round_def tls_opened_def HTTPSConnectionObject_def Let_def obind_eq_Returns
        dest!: tls_read_loop_fd split: if_splits option.splits)
qed simp_all

section \<open>The process\<close>

record 'ssl process =
  ps_plain :: "(tcp_round, http_connection, 'ssl, users shared_files) live"
  ps_secure :: "('ssl tls_round, 'ssl https_connection, 'ssl, users shared_files) live"
  ps_wire :: "('ssl connection, 'ssl) wire"
  ps_files :: "users shared_files"

datatype 'ssl process_activity =
    Plain "http_connection live_activity"
  | Secure "'ssl https_connection live_activity"

text \<open>
  What is given: the disk, what the TLS library answers (\<open>want_write\<close>), what a moved-from connection
  holds, the number of workers and the capacity of the queues.
\<close>

record 'ssl surroundings =
  sr_files :: disk
  sr_want_write :: "'ssl \<Rightarrow> nat \<Rightarrow> bool"
  sr_moved :: "http_connection \<Rightarrow> http_connection"
  sr_moved_tls :: "'ssl https_connection \<Rightarrow> 'ssl https_connection"
  sr_filler :: http_connection
  sr_filler_tls :: "'ssl https_connection"
  sr_workers :: nat
  sr_capacity :: nat

fun process_step :: "'ssl surroundings \<Rightarrow> 'ssl process_activity \<Rightarrow> 'ssl process \<Rightarrow> 'ssl process option" where
  "process_step sr (Plain a) ps =
     map_option (\<lambda>(lv, w). ps\<lparr>ps_plain := lv, ps_wire := w, ps_files := sv_state (lv_service lv)\<rparr>)
       (side_step Inl accept_round tcp_opened handle_of (sr_capacity sr) (sr_moved sr) (tcp_worker (sr_files sr) Inl)
          a (ps_files ps) (ps_plain ps) (ps_wire ps))"
| "process_step sr (Secure a) ps =
     map_option (\<lambda>(lv, w). ps\<lparr>ps_secure := lv, ps_wire := w, ps_files := sv_state (lv_service lv)\<rparr>)
       (side_step Inr tls_accept_round tls_opened handle_of (sr_capacity sr) (sr_moved_tls sr)
          (tls_worker (sr_want_write sr) (sr_files sr) Inr)
          a (ps_files ps) (ps_secure ps) (ps_wire ps))"

fun process_paced :: "'ssl surroundings \<Rightarrow> 'ssl process_activity \<Rightarrow> 'ssl process \<Rightarrow> bool" where
  "process_paced sr (Plain a) ps = paced_at (sr_capacity sr) a (ps_plain ps)"
| "process_paced sr (Secure a) ps = paced_at (sr_capacity sr) a (ps_secure ps)"

definition new_process ::
  "'ssl surroundings \<Rightarrow> file_manager \<Rightarrow> tcp_round list \<Rightarrow> http_connection server \<Rightarrow> 'ssl tls_round list \<Rightarrow>
   'ssl https_connection server \<Rightarrow> 'ssl process" where
  "new_process sr fm rounds srv tls_rounds tls_srv =
     \<lparr>ps_plain = new_live (sr_capacity sr) (sr_workers sr) (sr_filler sr) (new_shared_files fm) rounds srv,
      ps_secure = new_live (sr_capacity sr) (sr_workers sr) (sr_filler_tls sr) (new_shared_files fm) tls_rounds tls_srv,
      ps_wire = new_wire, ps_files = new_shared_files fm\<rparr>"

inductive process_run ::
  "'ssl surroundings \<Rightarrow> file_manager \<Rightarrow> tcp_round list \<Rightarrow> http_connection server \<Rightarrow> 'ssl tls_round list \<Rightarrow>
   'ssl https_connection server \<Rightarrow> 'ssl process \<Rightarrow> bool"
  for sr fm rounds srv tls_rounds tls_srv where
  start: "process_run sr fm rounds srv tls_rounds tls_srv (new_process sr fm rounds srv tls_rounds tls_srv)"
| step: "process_run sr fm rounds srv tls_rounds tls_srv ps \<Longrightarrow> process_paced sr a ps \<Longrightarrow>
    process_step sr a ps = Some ps' \<Longrightarrow> process_run sr fm rounds srv tls_rounds tls_srv ps'"

fun process_steps :: "'ssl surroundings \<Rightarrow> 'ssl process_activity list \<Rightarrow> 'ssl process \<Rightarrow> 'ssl process option" where
  "process_steps sr [] ps = Some ps"
| "process_steps sr (a # as) ps =
     (if process_paced sr a ps
      then (case process_step sr a ps of None \<Rightarrow> None | Some ps' \<Rightarrow> process_steps sr as ps') else None)"

lemma process_steps_run:
  "process_run sr fm rounds srv tls_rounds tls_srv ps \<Longrightarrow> process_steps sr as ps = Some ps' \<Longrightarrow>
   process_run sr fm rounds srv tls_rounds tls_srv ps'"
  by (induction as arbitrary: ps) (auto split: option.splits if_splits intro: process_run.step)

section \<open>The invariant of the process\<close>

definition process_ok :: "'ssl surroundings \<Rightarrow> file_manager \<Rightarrow> 'ssl process \<Rightarrow> bool" where
  "process_ok sr fm ps \<longleftrightarrow>
     files_ok (sr_files sr) (fm_descriptors fm) (ps_files ps) \<and>
     (\<exists>pos tls_pos rest.
        wire_ok fd_of handle_of (calls_due (sr_want_write sr) (sr_files sr) (fm_descriptors fm)) rest (ps_wire ps) \<and>
        side_ok (calls_for (sr_files sr) (fm_descriptors fm)) plain_of (sr_capacity sr) (sr_moved sr) (sr_workers sr)
          (sr_filler sr) pos rest (wr_peers (ps_wire ps)) (ps_plain ps) \<and>
        side_ok (tls_calls_for (sr_want_write sr) (sr_files sr) (fm_descriptors fm)) secure_of (sr_capacity sr)
          (sr_moved_tls sr) (sr_workers sr) (sr_filler_tls sr) tls_pos rest (wr_peers (ps_wire ps)) (ps_secure ps))"

lemma new_side_ok:
  "side_ok calls_of proj c moved workers d (\<lambda>_. Gone) (\<lambda>_. []) [] (new_live c workers d st rounds srv)"
  by (simp add: side_ok_def tracked_def new_live_def new_service_def new_shared_def [of c] queued_def
      paced.start [unfolded new_shared_def])

lemma process_step_ok:
  assumes ok: "process_ok sr fm ps" and c: "0 < sr_capacity sr" "sr_capacity sr \<le> 100"
    and room: "process_paced sr a ps" and step: "process_step sr a ps = Some ps'"
  shows "process_ok sr fm ps'"
proof -
  let ?files = "sr_files sr" and ?fds = "fm_descriptors fm" and ?ww = "sr_want_write sr"
  from ok obtain pos tls_pos rest where
    files: "files_ok ?files ?fds (ps_files ps)"
    and wire: "wire_ok fd_of handle_of (calls_due ?ww ?files ?fds) rest (ps_wire ps)"
    and p: "side_ok (calls_for ?files ?fds) plain_of (sr_capacity sr) (sr_moved sr) (sr_workers sr) (sr_filler sr) pos rest
        (wr_peers (ps_wire ps)) (ps_plain ps)"
    and t: "side_ok (tls_calls_for ?ww ?files ?fds) secure_of (sr_capacity sr) (sr_moved_tls sr) (sr_workers sr)
        (sr_filler_tls sr) tls_pos rest (wr_peers (ps_wire ps)) (ps_secure ps)"
    by (auto simp: process_ok_def)
  have apart: "secure_of y = None" if "plain_of y \<noteq> None" for y :: "'a connection" using that by (cases y) simp_all
  have apart': "plain_of y = None" if "secure_of y \<noteq> None" for y :: "'a connection" using that by (cases y) simp_all
  show ?thesis
  proof (cases a)
    case (Plain b)
    from step Plain obtain lv w where
      s: "side_step Inl accept_round tcp_opened handle_of (sr_capacity sr) (sr_moved sr) (tcp_worker ?files Inl)
          b (ps_files ps) (ps_plain ps) (ps_wire ps) = Some (lv, w)"
      and ps': "ps' = ps\<lparr>ps_plain := lv, ps_wire := w, ps_files := sv_state (lv_service lv)\<rparr>" by auto
    from room Plain have b: "paced_at (sr_capacity sr) b (ps_plain ps)" by simp
    from plain.side_moves [OF p wire files c b s] obtain pos' rest' where
      "side_ok (calls_for ?files ?fds) plain_of (sr_capacity sr) (sr_moved sr) (sr_workers sr) (sr_filler sr) pos' rest'
        (wr_peers w) lv" "wire_ok fd_of handle_of (calls_due ?ww ?files ?fds) rest' w"
      and busy: "busy_with plain_of rest (wr_peers (ps_wire ps)) rest' (wr_peers w)"
      and "files_ok ?files ?fds (sv_state (lv_service lv))" by blast
    with other_side_ok [OF t busy apart] show ?thesis by (auto simp: process_ok_def ps')
  next
    case (Secure b)
    from step Secure obtain lv w where
      s: "side_step Inr tls_accept_round tls_opened handle_of (sr_capacity sr) (sr_moved_tls sr)
          (tls_worker ?ww ?files Inr) b (ps_files ps) (ps_secure ps) (ps_wire ps) = Some (lv, w)"
      and ps': "ps' = ps\<lparr>ps_secure := lv, ps_wire := w, ps_files := sv_state (lv_service lv)\<rparr>" by auto
    from room Secure have b: "paced_at (sr_capacity sr) b (ps_secure ps)" by simp
    from secure.side_moves [OF t wire files c b s] obtain pos' rest' where
      "side_ok (tls_calls_for ?ww ?files ?fds) secure_of (sr_capacity sr) (sr_moved_tls sr) (sr_workers sr)
        (sr_filler_tls sr) pos' rest' (wr_peers w) lv" "wire_ok fd_of handle_of (calls_due ?ww ?files ?fds) rest' w"
      and busy: "busy_with secure_of rest (wr_peers (ps_wire ps)) rest' (wr_peers w)"
      and "files_ok ?files ?fds (sv_state (lv_service lv))" by blast
    with other_side_ok [OF p busy apart'] show ?thesis by (auto simp: process_ok_def ps')
  qed
qed

lemma process_run_ok:
  assumes "process_run sr fm rounds srv tls_rounds tls_srv ps" and "cache_agrees (sr_files sr) fm"
    and "0 < sr_capacity sr" "sr_capacity sr \<le> 100"
  shows "process_ok sr fm ps"
  using assms(1)
proof (induction rule: process_run.induct)
  case start
  have "wire_ok fd_of handle_of (calls_due (sr_want_write sr) (sr_files sr) (fm_descriptors fm)) (\<lambda>_. []) new_wire"
    by (simp add: wire_ok_def new_wire_def)
  moreover have "files_ok (sr_files sr) (fm_descriptors fm) (new_shared_files fm :: users shared_files)"
    using assms(2) by (simp add: new_shared_files_def)
  ultimately show ?case
    unfolding process_ok_def new_process_def
    by (intro conjI exI [of _ "\<lambda>_. Gone"] exI [of _ "\<lambda>_. []"]) (simp_all add: new_side_ok, simp_all add: new_wire_def new_side_ok)
next
  case (step ps a ps')
  show ?case by (rule process_step_ok [OF step.IH assms(3,4) step.hyps(2,3)])
qed

section \<open>Every peer is written its own answer\<close>

definition option_list :: "'a option \<Rightarrow> 'a list" where
  "option_list x = (case x of None \<Rightarrow> [] | Some y \<Rightarrow> [y])"

text \<open>What is written of a response over TLS: as many bytes as the \<^verbatim>\<open>int\<close> counts that its length is cast to.\<close>

definition cut_to_int :: "string \<Rightarrow> string" where
  "cut_to_int r = take (nat (length_as_int r)) r"

lemma cut_to_int_small: "length r < 2 ^ 31 \<Longrightarrow> cut_to_int r = r"
  by (simp add: cut_to_int_def length_as_int_small)

lemma texts_calls_for: "texts (calls_for files fds x) = option_list (answer_to files fds (tcp_request x))"
  by (simp add: calls_for_def option_list_def split: option.split)

lemma texts_tls_calls_for:
  "set (texts (tls_calls_for want_write files fds x)) \<subseteq> cut_to_int ` set_option (answer_to files fds (tls_request x))"
proof -
  have "texts (replicate n (SslWrite h r (length_as_int r))) = replicate n (cut_to_int r)" for n and h :: 'a and r
    by (induction n) (simp_all add: cut_to_int_def)
  moreover have "texts (TLSCloser_CloseConnection x) = []" by (simp add: TLSCloser_CloseConnection_def)
  ultimately show ?thesis using tls_calls_shape [of want_write files fds x] by (auto split: option.splits)
qed

fun due :: "'ssl surroundings \<Rightarrow> file_manager \<Rightarrow> 'ssl connection \<Rightarrow> string list" where
  "due sr fm (Inl x) = option_list (answer_to (sr_files sr) (fm_descriptors fm) (tcp_request x))"
| "due sr fm (Inr x) = texts (tls_calls_for (sr_want_write sr) (sr_files sr) (fm_descriptors fm) x)"

lemma due_calls: "texts (calls_due (sr_want_write sr) (sr_files sr) (fm_descriptors fm) y) = due sr fm y"
  by (cases y) (simp_all add: texts_calls_for)

text \<open>The server of a connection is at rest.\<close>

fun server_rests :: "'ssl process \<Rightarrow> 'ssl connection \<Rightarrow> bool" where
  "server_rests ps (Inl x) = at_rest (lv_service (ps_plain ps))"
| "server_rests ps (Inr x) = at_rest (lv_service (ps_secure ps))"

text \<open>
  For a peer for whom no connection was made nothing is written, and its descriptor stays open.
\<close>

definition peer_served :: "'ssl surroundings \<Rightarrow> file_manager \<Rightarrow> 'ssl process \<Rightarrow> nat \<Rightarrow> bool" where
  "peer_served sr fm ps p =
     (case wr_peers (ps_wire ps) ! p of
        (fd, None) \<Rightarrow> written_to p (ps_wire ps) = [] \<and> wr_owner (ps_wire ps) fd = Some p
      | (fd, Some y) \<Rightarrow>
          prefix (written_to p (ps_wire ps)) (due sr fm y) \<and>
          (server_rests ps y \<longrightarrow> written_to p (ps_wire ps) = due sr fm y \<and> wr_owner (ps_wire ps) fd \<noteq> Some p))"

lemma process_ok_served:
  assumes ok: "process_ok sr fm ps" and c: "0 < sr_capacity sr" "sr_capacity sr \<le> 100"
    and p: "p < length (wr_peers (ps_wire ps))"
  shows "peer_served sr fm ps p"
proof -
  let ?calls = "calls_due (sr_want_write sr) (sr_files sr) (fm_descriptors fm)"
  from ok obtain pos tls_pos rest where
    wire: "wire_ok fd_of handle_of ?calls rest (ps_wire ps)"
    and plain: "side_ok (calls_for (sr_files sr) (fm_descriptors fm)) plain_of (sr_capacity sr) (sr_moved sr) (sr_workers sr)
        (sr_filler sr) pos rest (wr_peers (ps_wire ps)) (ps_plain ps)"
    and secure: "side_ok (tls_calls_for (sr_want_write sr) (sr_files sr) (fm_descriptors fm)) secure_of (sr_capacity sr)
        (sr_moved_tls sr) (sr_workers sr) (sr_filler_tls sr) tls_pos rest (wr_peers (ps_wire ps)) (ps_secure ps)"
    by (auto simp: process_ok_def)
  obtain fd made where peer: "wr_peers (ps_wire ps) ! p = (fd, made)" by (cases "wr_peers (ps_wire ps) ! p")
  show ?thesis
  proof (cases made)
    case None
    with wire p peer have "peer_ok fd_of handle_of ?calls (ps_wire ps) p (fd, None) (rest p)" unfolding wire_ok_def by metis
    with peer None show ?thesis by (simp add: peer_served_def peer_ok_def)
  next
    case (Some y)
    show ?thesis
    proof (cases y)
      case (Inl x)
      from plain.side_served [OF plain wire c p peer [unfolded Some Inl]] show ?thesis
        by (simp add: peer_served_def peer Some Inl texts_calls_for)
    next
      case (Inr x)
      from secure.side_served [OF secure wire c p peer [unfolded Some Inr]] show ?thesis
        by (simp add: peer_served_def peer Some Inr)
    qed
  qed
qed

text \<open>The rounds of each server, in a process.\<close>

definition plain_heard :: "tcp_round list \<Rightarrow> http_connection server \<Rightarrow> bool" where
  "plain_heard rounds srv \<longleftrightarrow> (\<forall>r \<in> set rounds. linux_round r) \<and> srv_errno srv \<noteq> EAGAIN"

definition secure_heard :: "'ssl tls_round list \<Rightarrow> 'ssl https_connection server \<Rightarrow> bool" where
  "secure_heard rounds srv \<longleftrightarrow> (\<forall>r \<in> set rounds. linux_tls_round r) \<and> srv_errno srv \<noteq> EAGAIN"

lemma process_rounds:
  "process_run sr fm rounds srv tls_rounds tls_srv ps \<Longrightarrow>
   (plain_heard rounds srv \<longrightarrow> tcp_errno.live_ok rounds (ps_plain ps)) \<and>
   (secure_heard tls_rounds tls_srv \<longrightarrow> tls_errno.live_ok tls_rounds (ps_secure ps))"
proof (induction rule: process_run.induct)
  case start
  show ?case
    by (simp add: new_process_def tcp_errno.live_ok_def tls_errno.live_ok_def new_live_def new_service_def new_shared_def
        heard_Nil plain_heard_def secure_heard_def)
next
  case (step ps a ps')
  show ?case
  proof (cases a)
    case (Plain b)
    with step.hyps(3) obtain lv w where ps': "ps_plain ps' = lv" "ps_secure ps' = ps_secure ps"
      and "live_step accept_round (sr_capacity sr) (sr_moved sr) (tcp_worker (sr_files sr) Inl) b
        (resume (ps_files ps) (ps_plain ps)) = Some lv"
      by (auto dest: side_step_cases)
    moreover have "tcp_errno.live_ok rounds (resume (ps_files ps) (ps_plain ps))" if "plain_heard rounds srv"
      using step.IH that by (simp add: tcp_errno.live_ok_def)
    ultimately have "tcp_errno.live_ok rounds (ps_plain ps')" if "plain_heard rounds srv"
      using tcp_errno.live_step_ok that unfolding plain_heard_def by blast
    with step.IH ps'(2) show ?thesis by simp
  next
    case (Secure b)
    with step.hyps(3) obtain lv w where ps': "ps_secure ps' = lv" "ps_plain ps' = ps_plain ps"
      and "live_step tls_accept_round (sr_capacity sr) (sr_moved_tls sr)
        (tls_worker (sr_want_write sr) (sr_files sr) Inr) b
        (resume (ps_files ps) (ps_secure ps)) = Some lv"
      by (auto dest: side_step_cases)
    moreover have "tls_errno.live_ok tls_rounds (resume (ps_files ps) (ps_secure ps))" if "secure_heard tls_rounds tls_srv"
      using step.IH that by (simp add: tls_errno.live_ok_def)
    ultimately have "tls_errno.live_ok tls_rounds (ps_secure ps')" if "secure_heard tls_rounds tls_srv"
      using tls_errno.live_step_ok that unfolding secure_heard_def by blast
    with step.IH ps'(2) show ?thesis by simp
  qed
qed


section \<open>A run of both servers\<close>

declare tls_write_loop.simps [code]

text \<open>
  A TLS client and a plain one.  The TLS server has closed the descriptor of the first and not yet
  called \<^verbatim>\<open>wolfSSL_shutdown\<close> when the second connects and is given the same number.
\<close>

definition sample_surroundings :: "nat surroundings" where
  "sample_surroundings =
     \<lparr>sr_files = [''../webdir/a.css'' \<mapsto> ''body { }''], sr_want_write = (\<lambda>_ _. False), sr_moved = id, sr_moved_tls = id,
      sr_filler = \<lparr>tcp_fd = 0, tcp_request = ''''\<rparr>, sr_filler_tls = HTTPSConnectionObject 0 0 '''', sr_workers = 1,
      sr_capacity = 3\<rparr>"

definition sample_rounds :: "tcp_round list" where
  "sample_rounds = [\<lparr>tr_stop = False, tr_fd = 5, tr_errno = None, tr_recvs = [got None ''BREW / HTTP/1.1'']\<rparr>]"

definition sample_tls_rounds :: "nat tls_round list" where
  "sample_tls_rounds =
     [\<lparr>lr_stop = False, lr_fd = 5, lr_errno = None, lr_ssl = 1,
       lr_reads = [(got None (''GET /a.css HTTP/1.1'' @ CRLF @ CRLF), False)]\<rparr>]"

definition sample_accesses :: "'c \<Rightarrow> 'c live_activity list" where
  "sample_accesses x = Round # map (Thread \<circ> Access) (tl (push_accesses x) @ pop_accesses 0) @ [Thread (Handle 0)]"

definition sample_process :: "nat process_activity list" where
  "sample_process =
     map Secure (sample_accesses (HTTPSConnectionObject 0 0 '''')) @
     [Secure (Thread (Perform 0)), Secure (Thread (Perform 0)), Plain Round,
      Secure (Thread (Perform 0)), Secure (Thread (Perform 0)), Secure (Thread (Perform 0))] @
     map Plain (tl (sample_accesses \<lparr>tcp_fd = 0, tcp_request = ''''\<rparr>)) @ replicate 2 (Plain (Thread (Perform 0)))"

definition sample_peers :: "(int \<times> nat connection option) list" where
  "sample_peers =
     [(5, Some (Inr (HTTPSConnectionObject 5 1 (''GET /a.css HTTP/1.1'' @ CRLF @ CRLF)))),
      (5, Some (Inl \<lparr>tcp_fd = 5, tcp_request = ''BREW / HTTP/1.1''\<rparr>))]"


end
