(* ===== verification/ServerManager.thy ===== *)
theory ServerManager
  imports AcceptLoop
begin

text \<open>
  \<^verbatim>\<open>include/simpleserv/server/server_manager.hpp\<close>, \<^verbatim>\<open>server.hpp\<close> and \<^verbatim>\<open>src/serverexec/main.cpp\<close>: the
  servers as a group and their start, and the program; \<open>Shutdown\<close> has the end.
\<close>

section \<open>The group of servers\<close>

datatype server_type = HTTP | HTTPS

record server_config =
  cfg_name :: string
  cfg_type :: server_type
  cfg_port :: u32

datatype 'ssl any_server =
    Tcp "http_connection server"
  | Tls "'ssl https_connection server"

record 'ssl server_unit =
  unit_name :: string
  unit_server :: "'ssl any_server"

text \<open>A thread is known by the index of the unit whose \<^verbatim>\<open>Open\<close> it runs.\<close>

record 'ssl server_manager =
  sm_threads :: "nat list"
  sm_servers :: "'ssl server_unit list"

text \<open>\<open>junk\<close> are the values the uninitialised members happen to have.\<close>

definition configure_server :: "int \<times> int \<Rightarrow> 'ssl \<Rightarrow> server_config \<Rightarrow> 'ssl any_server" where
  "configure_server junk null config =
     (case cfg_type config of
        HTTP \<Rightarrow> Tcp (TCPServer (cfg_port config))
      | HTTPS \<Rightarrow> Tls (TLSServer (fst junk) (snd junk) null (cfg_port config)))"

definition start_server :: "tls_start_calls \<Rightarrow> 'ssl any_server \<Rightarrow> int + 'ssl any_server" where
  "start_server calls srv =
     (case srv of
        Tcp s \<Rightarrow> map_sum id Tcp (tcp_Start (start_calls.truncate calls) s)
      | Tls s \<Rightarrow> map_sum id Tls (tls_Start calls s))"

text \<open>\<^verbatim>\<open>ServerManager::Start\<close>: the first server that cannot start ends the process.\<close>

fun manager_Start :: "tls_start_calls list \<Rightarrow> 'ssl server_unit list \<Rightarrow> int + 'ssl server_unit list" where
  "manager_Start calls [] = Inr []"
| "manager_Start calls (u # us) =
     (case start_server (hd calls) (unit_server u) of
        Inl code \<Rightarrow> Inl code
      | Inr srv \<Rightarrow> map_sum id ((#) (u\<lparr>unit_server := srv\<rparr>)) (manager_Start (tl calls) us))"

definition manager_Open :: "'ssl server_manager \<Rightarrow> 'ssl server_manager" where
  "manager_Open m = m\<lparr>sm_threads := sm_threads m @ [0..<length (sm_servers m)]\<rparr>"

definition ServerManager ::
  "int \<times> int \<Rightarrow> 'ssl \<Rightarrow> tls_start_calls list \<Rightarrow> server_config list \<Rightarrow> int + 'ssl server_manager" where
  "ServerManager junk null calls configs =
     map_sum id (\<lambda>us. manager_Open \<lparr>sm_threads = [], sm_servers = us\<rparr>)
       (manager_Start calls
         (map (\<lambda>config. \<lparr>unit_name = cfg_name config, unit_server = configure_server junk null config\<rparr>) configs))"

section \<open>The program\<close>

text \<open>
  \<^verbatim>\<open>http_handler.hpp\<close> defines \<^verbatim>\<open>file_manager\<close> as \<^verbatim>\<open>static\<close> in a namespace: every file that includes it has
  a file manager of its own.  \<^verbatim>\<open>main.cpp\<close> prepares one; the functions of \<^verbatim>\<open>http_handler.cpp\<close> use theirs.
\<close>

record program =
  main_file_manager :: file_manager
  handler_file_manager :: file_manager

definition program_start :: program where
  "program_start = \<lparr>main_file_manager = new_file_manager, handler_file_manager = new_file_manager\<rparr>"

definition prepare_files ::
  "compressor \<Rightarrow> (string \<Rightarrow> bool) \<Rightarrow> string list \<Rightarrow> fs_node list option \<Rightarrow> disk \<Rightarrow> program \<Rightarrow> (disk \<times> program) outcome" where
  "prepare_files compress writable order tree files prog =
     obind (fm_construct_file_descriptors ''../webdir'' tree (main_file_manager prog)) (\<lambda>fm.
     obind (fm_generate_encoded_files compress writable order files fm) (\<lambda>(files', fm').
       Returns (files', prog\<lparr>main_file_manager := fm'\<rparr>)))"

definition main_configs :: "server_config list" where
  "main_configs =
     [\<lparr>cfg_name = ''HTTP'', cfg_type = HTTP, cfg_port = HTTP_PORT\<rparr>,
      \<lparr>cfg_name = ''HTTPS'', cfg_type = HTTPS, cfg_port = HTTPS_PORT\<rparr>]"

text \<open>A request to the program: the handler with the handler's file manager.\<close>

definition serve_request :: "disk \<Rightarrow> string \<Rightarrow> program \<Rightarrow> (string option \<times> program) outcome" where
  "serve_request files s prog =
     obind (handle files s (handler_file_manager prog)) (\<lambda>(response, fm).
       Returns (response, prog\<lparr>handler_file_manager := fm\<rparr>))"

section \<open>Facts\<close>

text \<open>
  C19. The program answers every request with 404.  Whatever is below the web directory, however the
  files were prepared, and whatever is on the disk when the request comes: an accepted request is
  answered with the bare 404 response, and the program is as it was.  The descriptors \<^verbatim>\<open>main\<close> made are
  in the file manager of \<^verbatim>\<open>main.cpp\<close>, which no handler looks at.
\<close>

theorem program_answers_404:
  assumes "prepare_files compress writable order tree files0 program_start = Returns (files1, prog)"
    and "parse_http_request s = Returns (Inr r)"
  shows "serve_request files s prog = Returns (Some not_found_text, prog)"
proof -
  from assms(1) have h: "handler_file_manager prog = new_file_manager"
    by (auto simp: prepare_files_def program_start_def obind_eq_Returns)
  have "handle files s new_file_manager = Returns (Some not_found_text, new_file_manager)"
    by (rule handle_missing [OF assms(2)]) (simp_all add: new_file_manager_def cache_agrees_def)
  then show ?thesis by (simp add: serve_request_def h)
qed

theorem program_answers_404_witness:
  "\<exists>files prog. prepare_files dedup_compressor (\<lambda>_. True) [] (Some sample_tree) Map.empty program_start =
       Returns (files, prog) \<and>
     fm_descriptors (main_file_manager prog) ''../webdir/index.html'' \<noteq> None \<and>
     serve_request [''../webdir/index.html'' \<mapsto> ''<html></html>''] (''GET /index.html HTTP/1.1'' @ CRLF @ CRLF) prog =
       Returns (Some not_found_text, prog)"
proof -
  have root: "dir_ok ''../webdir''" and tree: "\<forall>e \<in> set sample_tree. node_ok e"
    using sample_tree_ok by blast+
  obtain fds where fds: "construct_file_descriptors ''../webdir'' (Some sample_tree) Map.empty = Returns fds"
    using construct_descriptors_eq [OF root tree sample_tree_readable] by blast
  have "''../webdir/index.html'' \<in> paths_below ''../webdir'' sample_tree"
    by (simp add: paths_below_def sample_tree_def path_append_def)
  with construct_descriptors_ok [OF root tree fds] have idx: "fds ''../webdir/index.html'' \<noteq> None" by blast
  let ?prog = "program_start\<lparr>main_file_manager := \<lparr>fm_descriptors = fds, fm_cache = Map.empty\<rparr>\<rparr>"
  have prep: "prepare_files dedup_compressor (\<lambda>_. True) [] (Some sample_tree) Map.empty program_start =
      Returns (Map.empty, ?prog)"
    using fds by (simp add: prepare_files_def fm_construct_file_descriptors_def fm_generate_encoded_files_def
        program_start_def new_file_manager_def)
  have parse: "parse_http_request (''GET /index.html HTTP/1.1'' @ CRLF @ CRLF) =
      Returns (Inr (HTTPRequest GET ''/index.html'' HTTP_1_1))" by code_simp
  have "fm_descriptors (main_file_manager ?prog) ''../webdir/index.html'' \<noteq> None" using idx by simp
  with prep program_answers_404 [OF prep parse, of "[''../webdir/index.html'' \<mapsto> ''<html></html>'']"]
  show ?thesis by blast
qed

text \<open>What a successful start needs, and what it leaves.\<close>

definition tcp_calls_ok :: "'a start_calls_scheme \<Rightarrow> bool" where
  "tcp_calls_ok calls \<longleftrightarrow>
     gai_result calls = 0 \<and> socket_result calls \<noteq> -1 \<and> bind_result calls \<noteq> -1 \<and> listen_result calls \<noteq> -1"

definition calls_ok :: "server_type \<Rightarrow> tls_start_calls \<Rightarrow> bool" where
  "calls_ok t calls \<longleftrightarrow> tcp_calls_ok calls \<and>
     (t = HTTPS \<longrightarrow> ctx_result calls \<and> certificate_result calls = 1 \<and> key_result calls = 1)"

fun sockfd_of :: "'ssl any_server \<Rightarrow> int" where
  "sockfd_of (Tcp s) = srv_sockfd s"
| "sockfd_of (Tls s) = srv_sockfd s"

lemma start_configured:
  "start_server calls (configure_server junk null config) =
     (if calls_ok (cfg_type config) calls
      then Inr (case configure_server junk null config of
                  Tcp s \<Rightarrow> Tcp (s\<lparr>srv_sockfd := socket_result calls\<rparr>)
                | Tls s \<Rightarrow> Tls (s\<lparr>srv_sockfd := socket_result calls\<rparr>))
      else Inl 1)"
  by (cases "cfg_type config")
     (auto simp: start_server_def configure_server_def tcp_Start_def tls_Start_def calls_ok_def tcp_calls_ok_def
       EXIT_FAILURE_def start_calls.truncate_def Let_def)

definition configured_unit :: "int \<times> int \<Rightarrow> 'ssl \<Rightarrow> tls_start_calls \<Rightarrow> server_config \<Rightarrow> 'ssl server_unit" where
  "configured_unit junk null calls config =
     \<lparr>unit_name = cfg_name config,
      unit_server = (case configure_server junk null config of
          Tcp s \<Rightarrow> Tcp (s\<lparr>srv_sockfd := socket_result calls\<rparr>)
        | Tls s \<Rightarrow> Tls (s\<lparr>srv_sockfd := socket_result calls\<rparr>))\<rparr>"

lemma manager_Start_configured:
  "length calls = length configs \<Longrightarrow>
   manager_Start calls
     (map (\<lambda>config. \<lparr>unit_name = cfg_name config, unit_server = configure_server junk null config\<rparr>) configs) =
   (if list_all2 (\<lambda>config c. calls_ok (cfg_type config) c) configs calls
    then Inr (map2 (configured_unit junk null) calls configs) else Inl 1)"
  by (induction calls configs rule: list_induct2)
     (auto simp: start_configured configured_unit_def)

text \<open>
  Starting the servers.  The manager comes up exactly when every system call of every server
  succeeds (and, for TLS, the context, the certificate and the key load); then each configured server
  has its configured port, the socket the system gave it, four idle workers and no pending connection,
  and one accepting thread runs for each, in order.  Otherwise the process exits with code 1.
\<close>

theorem servers_start:
  assumes "length calls = length configs"
  shows "if \<forall>i < length configs. calls_ok (cfg_type (configs ! i)) (calls ! i)
    then \<exists>m. ServerManager junk null calls configs = Inr m \<and> sm_threads m = [0..<length configs] \<and>
      length (sm_servers m) = length configs \<and>
      (\<forall>i < length configs.
         unit_name (sm_servers m ! i) = cfg_name (configs ! i) \<and>
         (case unit_server (sm_servers m ! i) of
            Tcp s \<Rightarrow> cfg_type (configs ! i) = HTTP \<and> srv_port s = cfg_port (configs ! i) \<and>
              srv_sockfd s = socket_result (calls ! i) \<and> length (tp_handlers (srv_pool s)) = 4 \<and> pending s = []
          | Tls s \<Rightarrow> cfg_type (configs ! i) = HTTPS \<and> srv_port s = cfg_port (configs ! i) \<and>
              srv_sockfd s = socket_result (calls ! i) \<and> length (tp_handlers (srv_pool s)) = 4 \<and> pending s = []))
    else ServerManager junk null calls configs = Inl 1"
proof (cases "\<forall>i < length configs. calls_ok (cfg_type (configs ! i)) (calls ! i)")
  case True
  then have "list_all2 (\<lambda>config c. calls_ok (cfg_type config) c) configs calls"
    using assms by (simp add: list_all2_conv_all_nth)
  with manager_Start_configured [OF assms, of junk null] have m: "ServerManager junk null calls configs =
      Inr (manager_Open \<lparr>sm_threads = [], sm_servers = map2 (configured_unit junk null) calls configs\<rparr>)"
    by (simp add: ServerManager_def)
  let ?m = "manager_Open \<lparr>sm_threads = [], sm_servers = map2 (configured_unit junk null) calls configs\<rparr>"
  have unit: "sm_servers ?m ! i = configured_unit junk null (calls ! i) (configs ! i)" if "i < length configs" for i
    using that assms by (simp add: manager_Open_def)
  have "unit_name (configured_unit junk null c config) = cfg_name config \<and>
         (case unit_server (configured_unit junk null c config) of
            Tcp s \<Rightarrow> cfg_type config = HTTP \<and> srv_port s = cfg_port config \<and>
              srv_sockfd s = socket_result c \<and> length (tp_handlers (srv_pool s)) = 4 \<and> pending s = []
          | Tls s \<Rightarrow> cfg_type config = HTTPS \<and> srv_port s = cfg_port config \<and>
              srv_sockfd s = socket_result c \<and> length (tp_handlers (srv_pool s)) = 4 \<and> pending s = [])" for c config
    by (cases "cfg_type config")
       (simp_all add: configured_unit_def configure_server_def TCPServer_def TLSServer_def new_threadpool_def contents_new)
  with True m unit assms show ?thesis by (auto simp: manager_Open_def)
next
  case False
  then have "\<not> list_all2 (\<lambda>config c. calls_ok (cfg_type config) c) configs calls"
    by (auto simp: list_all2_conv_all_nth)
  with False manager_Start_configured [OF assms, of junk null] show ?thesis
    by (simp add: ServerManager_def)
qed

definition sample_calls :: "int \<Rightarrow> tls_start_calls" where
  "sample_calls fd =
     \<lparr>gai_result = 0, socket_result = fd, bind_result = 0, listen_result = 0,
      ctx_result = True, certificate_result = 1, key_result = 1\<rparr>"

lemma sample_calls_ok: "fd \<noteq> -1 \<Longrightarrow> calls_ok t (sample_calls fd)"
  by (simp add: calls_ok_def tcp_calls_ok_def sample_calls_def)

theorem servers_start_witness:
  "(\<exists>m. ServerManager (0, 0) (0::nat) [sample_calls 3, sample_calls 4] main_configs = Inr m \<and> sm_threads m = [0, 1]) \<and>
   ServerManager (0, 0) (0::nat) [sample_calls 3, sample_calls (-1)] main_configs = Inl 1"
proof
  let ?good = "[sample_calls 3, sample_calls 4]" let ?bad = "[sample_calls 3, sample_calls (-1)]"
  have len: "length ?good = length main_configs" "length ?bad = length main_configs"
    by (simp_all add: main_configs_def)
  have ok: "\<forall>i < length main_configs. calls_ok (cfg_type (main_configs ! i)) (?good ! i)"
    by (auto simp: main_configs_def sample_calls_ok less_Suc_eq)
  have two: "[0..<length main_configs] = [0, 1]" by (simp add: main_configs_def)
  from servers_start [OF len(1), of "(0, 0)" "0::nat", unfolded if_P [OF ok]] two
  show "\<exists>m. ServerManager (0, 0) (0::nat) ?good main_configs = Inr m \<and> sm_threads m = [0, 1]" by fastforce
  have bad: "\<not> (\<forall>i < length main_configs. calls_ok (cfg_type (main_configs ! i)) (?bad ! i))"
    by (auto simp: main_configs_def calls_ok_def tcp_calls_ok_def sample_calls_def less_Suc_eq intro!: exI [of _ 1])
  from servers_start [OF len(2), of "(0, 0)" "0::nat", unfolded if_not_P [OF bad]]
  show "ServerManager (0, 0) (0::nat) ?bad main_configs = Inl 1" .
qed

end
