(* ===== verification/Shutdown.thy ===== *)
theory Shutdown
  imports ServerManager
begin

text \<open>
  How the program ends: \<^verbatim>\<open>~ServerManager\<close>, the servers' \<^verbatim>\<open>Stop\<close> and destructors, the signal handler and
  the rest of \<^verbatim>\<open>main\<close> (\<^verbatim>\<open>server_manager.hpp\<close>, \<^verbatim>\<open>tcp_server.hpp\<close>, \<^verbatim>\<open>tls_server.hpp\<close>, \<^verbatim>\<open>main.cpp\<close>).
\<close>

section \<open>Destroying the servers\<close>

datatype end_event =
    RequestStop nat
  | Join nat
  | CloseFd int
  | FreeContext
  | CleanupLibrary

text \<open>
  A part of the end is done, waits for ever for a thread, or ends in \<^verbatim>\<open>std::terminate\<close>.
\<close>

datatype ending = Finished | Hangs | Terminates

text \<open>One part after another, with what each does.\<close>

definition andthen :: "end_event list \<times> ending \<Rightarrow> end_event list \<times> ending \<Rightarrow> end_event list \<times> ending" where
  "andthen a b = (if snd a = Finished then (fst a @ fst b, snd b) else a)"

definition tcp_Stop :: "'c server \<Rightarrow> end_event list" where
  "tcp_Stop s = [CloseFd (srv_client_fd s), CloseFd (srv_sockfd s)]"

definition tls_Stop :: "'c server \<Rightarrow> end_event list" where
  "tls_Stop s = [CloseFd (srv_client_fd s), CloseFd (srv_sockfd s), FreeContext, CleanupLibrary]"

definition Stop :: "'ssl any_server \<Rightarrow> end_event list" where
  "Stop srv = (case srv of Tcp s \<Rightarrow> tcp_Stop s | Tls s \<Rightarrow> tls_Stop s)"

text \<open>
  The destructor of a server calls \<^verbatim>\<open>Stop\<close>; then its members are destroyed, the thread pool among them,
  whose workers run in threads nobody has joined: destroying a \<^verbatim>\<open>std::thread\<close> that is joinable calls
  \<^verbatim>\<open>std::terminate\<close>.
\<close>

definition worker_count :: "'ssl any_server \<Rightarrow> nat" where
  "worker_count srv =
     (case srv of Tcp s \<Rightarrow> length (tp_handlers (srv_pool s)) | Tls s \<Rightarrow> length (tp_handlers (srv_pool s)))"

definition destroy_server :: "'ssl any_server \<Rightarrow> end_event list \<times> ending" where
  "destroy_server srv = (Stop srv, if worker_count srv > 0 then Terminates else Finished)"

fun destroy_units :: "'ssl server_unit list \<Rightarrow> end_event list \<times> ending" where
  "destroy_units [] = ([], Finished)"
| "destroy_units (u # us) = andthen (destroy_server (unit_server u)) (destroy_units us)"

text \<open>
  The accepting threads are joined in turn.  \<open>status t\<close> is what the loop of thread \<open>t\<close> has come to once it
  is asked to stop; a loop that waits in a read never returns.  \<open>self\<close> is the accepting thread the
  destructor runs in, if it is one: joining oneself throws, out of a destructor.
\<close>

fun join_threads :: "(nat \<Rightarrow> loop_status) \<Rightarrow> nat option \<Rightarrow> nat list \<Rightarrow> end_event list \<times> ending" where
  "join_threads status self [] = ([], Finished)"
| "join_threads status self (t # ts) =
     (if self = Some t then ([], Terminates)
      else if status t = Stopped \<or> status t = Failed then andthen ([Join t], Finished) (join_threads status self ts)
      else ([Join t], Hangs))"

definition destroy_manager :: "(nat \<Rightarrow> loop_status) \<Rightarrow> nat option \<Rightarrow> 'ssl server_manager \<Rightarrow> end_event list \<times> ending" where
  "destroy_manager status self m =
     andthen (map RequestStop (sm_threads m), Finished)
       (andthen (join_threads status self (sm_threads m))
         (andthen (concat (map (\<lambda>u. Stop (unit_server u)) (sm_servers m)), Finished)
           (destroy_units (sm_servers m))))"

section \<open>Signals and the end of main\<close>

text \<open>
  How the process ends: with a code, not at all, by \<^verbatim>\<open>abort\<close>, or it is undefined.
\<close>

datatype process_end = Exits int | Blocked | Aborts | Undefined

definition SIGABRT :: int where "SIGABRT = 6"

text \<open>
  The handler destroys the manager by an explicit call; destroying an object whose destruction has
  begun (\<open>\<not> alive\<close>) is undefined.
\<close>

definition signal_handler ::
  "(nat \<Rightarrow> loop_status) \<Rightarrow> nat option \<Rightarrow> 'ssl server_manager \<Rightarrow> bool \<Rightarrow> int \<Rightarrow> end_event list \<times> process_end" where
  "signal_handler status self m alive signum =
     (if \<not> alive then ([], Undefined)
      else case destroy_manager status self m of
        (es, Finished) \<Rightarrow> (es, Exits signum)
      | (es, Hangs) \<Rightarrow> (es, Blocked)
      | (es, Terminates) \<Rightarrow> (es, Aborts))"

text \<open>
  \<^verbatim>\<open>std::terminate\<close> calls \<^verbatim>\<open>abort\<close>, which raises \<open>SIGABRT\<close>; \<^verbatim>\<open>main\<close> has set the same handler for it.
\<close>

definition abort_raises ::
  "(nat \<Rightarrow> loop_status) \<Rightarrow> nat option \<Rightarrow> 'ssl server_manager \<Rightarrow> bool \<Rightarrow> end_event list \<times> process_end \<Rightarrow>
   end_event list \<times> process_end" where
  "abort_raises status self m alive result =
     (case result of
        (es, Aborts) \<Rightarrow> (case signal_handler status self m alive SIGABRT of (es', e) \<Rightarrow> (es @ es', e))
      | _ \<Rightarrow> result)"

text \<open>
  What ends the wait of \<^verbatim>\<open>main\<close>: a signal, handled in some thread; an exception in a worker, which is an
  abort; or a wake-up of the condition variable that nobody sent, after which \<^verbatim>\<open>main\<close> returns and the
  manager, an object of static lifetime, is destroyed.
\<close>

datatype happening = Signal int "nat option" | WorkerThrows | WakeUp

definition main_end :: "(nat \<Rightarrow> loop_status) \<Rightarrow> 'ssl server_manager \<Rightarrow> happening \<Rightarrow> end_event list \<times> process_end" where
  "main_end status m what =
     (case what of
        Signal signum self \<Rightarrow> abort_raises status self m False (signal_handler status self m True signum)
      | WorkerThrows \<Rightarrow>
          abort_raises status None m False (abort_raises status None m True ([], Aborts))
      | WakeUp \<Rightarrow>
          abort_raises status None m False
            (case destroy_manager status None m of
               (es, Finished) \<Rightarrow> (es, Exits 0)
             | (es, Hangs) \<Rightarrow> (es, Blocked)
             | (es, Terminates) \<Rightarrow> (es, Aborts)))"

section \<open>Facts\<close>

lemma andthen_simps [simp]:
  "andthen (es, Finished) b = (es @ fst b, snd b)" "andthen (es, Hangs) b = (es, Hangs)"
  "andthen (es, Terminates) b = (es, Terminates)"
  by (simp_all add: andthen_def)

definition returns :: "(nat \<Rightarrow> loop_status) \<Rightarrow> nat \<Rightarrow> bool" where
  "returns status t \<longleftrightarrow> status t = Stopped \<or> status t = Failed"

lemma andthen_assoc: "andthen (andthen a b) c = andthen a (andthen b c)"
  by (simp add: andthen_def)

lemma join_threads_append:
  "join_threads status self (ts @ ts') = andthen (join_threads status self ts) (join_threads status self ts')"
proof (induction ts)
  case Nil
  show ?case by (simp add: andthen_def)
next
  case (Cons t ts)
  then show ?case by (simp add: andthen_def)
qed

text \<open>A thread that never returns holds the destructor up, unless it comes to join its own thread first.\<close>

definition held_up :: "(nat \<Rightarrow> loop_status) \<Rightarrow> nat option \<Rightarrow> nat \<Rightarrow> bool" where
  "held_up status self n \<longleftrightarrow> (\<exists>t < n. \<not> returns status t \<and> (\<forall>s. self = Some s \<longrightarrow> t < s))"

lemma join_threads_end:
  "snd (join_threads status self [0..<n]) =
     (if held_up status self n then Hangs else if \<exists>s < n. self = Some s then Terminates else Finished)"
proof (induction n)
  case (Suc n)
  have step: "held_up status self (Suc n) \<longleftrightarrow> held_up status self n \<or> \<not> returns status n \<and> (\<forall>s. self = Some s \<longrightarrow> n < s)"
    by (auto simp: held_up_def less_Suc_eq)
  consider "\<exists>s < n. self = Some s" | "self = Some n" | "\<forall>s \<le> n. self \<noteq> Some s" by (metis nat_less_le)
  then show ?case
  proof cases
    case 1
    with Suc step show ?thesis by (auto simp: join_threads_append andthen_def less_Suc_eq)
  next
    case 2
    with Suc step show ?thesis by (auto simp: join_threads_append andthen_def less_Suc_eq)
  next
    case 3
    then have "\<forall>s. self = Some s \<longrightarrow> n < s" "\<not> (\<exists>s < Suc n. self = Some s)" by (auto simp: not_le)
    with Suc step 3 show ?thesis by (auto simp: join_threads_append andthen_def returns_def)
  qed
qed (simp add: held_up_def)

lemma join_threads_all:
  "(\<forall>t < n. returns status t) \<Longrightarrow> (\<forall>s < n. self \<noteq> Some s) \<Longrightarrow> join_threads status self [0..<n] = (map Join [0..<n], Finished)"
  by (induction n) (simp_all add: join_threads_append returns_def)

text \<open>Started servers cannot be destroyed.\<close>

lemma destroy_started:
  assumes "length calls = length configs" and "configs \<noteq> []" and "ServerManager junk null calls configs = Inr m"
  shows "\<exists>u us. sm_servers m = u # us \<and>
    destroy_manager status self m =
      andthen (map RequestStop [0..<length configs], Finished)
        (andthen (join_threads status self [0..<length configs])
          (concat (map (\<lambda>u. Stop (unit_server u)) (u # us)) @ Stop (unit_server u), Terminates))"
proof -
  have m: "m = manager_Open \<lparr>sm_threads = [], sm_servers = map2 (configured_unit junk null) calls configs\<rparr>"
    using assms(3) manager_Start_configured [OF assms(1), of junk null]
    by (auto simp: ServerManager_def split: if_splits)
  obtain c calls' config configs' where cc: "calls = c # calls'" "configs = config # configs'"
    using assms(1,2) by (cases calls; cases configs) auto
  let ?u = "configured_unit junk null c config" and ?us = "map2 (configured_unit junk null) calls' configs'"
  have w: "worker_count (unit_server ?u) > 0"
    by (cases "cfg_type config")
       (simp_all add: worker_count_def configured_unit_def configure_server_def TCPServer_def TLSServer_def new_threadpool_def)
  have "sm_servers m = ?u # ?us" "sm_threads m = [0..<length configs]"
    using assms(1) by (simp_all add: m manager_Open_def cc)
  with w show ?thesis by (intro exI [of _ ?u] exI [of _ ?us]) (simp add: destroy_manager_def destroy_server_def)
qed

fun thread_of :: "happening \<Rightarrow> nat option" where
  "thread_of (Signal signum self) = self"
| "thread_of _ = None"

text \<open>
  C31. The program never ends in good order.  Whatever ends the wait of \<^verbatim>\<open>main\<close> (a signal, in whichever
  thread, an exception in a worker, or a wake-up that nobody sent), and whatever the accepting
  threads are doing: either the destructor of the servers waits for ever for an accepting thread that
  does not return, or the process is aborted in the middle of the destruction, by the workers of the
  first server or by a thread that joins itself, and the handler of that abort destroys the servers a second
  time, which is undefined.  The exit with the signal's number is never reached.  When all accepting
  threads return, the servers are stopped and the first one is stopped twice before that.
\<close>

theorem no_orderly_end:
  assumes "length calls = length configs" and "configs \<noteq> []"
    and "ServerManager junk null calls configs = Inr m"
  shows "snd (main_end status m what) =
      (if held_up status (thread_of what) (length configs) then Blocked else Undefined) \<and>
    ((\<forall>t < length configs. returns status t) \<and> thread_of what = None \<longrightarrow>
      (\<exists>u us. sm_servers m = u # us \<and>
        fst (main_end status m what) =
          map RequestStop [0..<length configs] @ map Join [0..<length configs] @
          concat (map (\<lambda>u. Stop (unit_server u)) (u # us)) @ Stop (unit_server u)))"
proof -
  let ?self = "thread_of what" and ?n = "length configs"
  obtain u us where u: "sm_servers m = u # us" and d: "destroy_manager status ?self m =
      andthen (map RequestStop [0..<?n], Finished)
        (andthen (join_threads status ?self [0..<?n])
          (concat (map (\<lambda>u. Stop (unit_server u)) (u # us)) @ Stop (unit_server u), Terminates))"
    using destroy_started [OF assms] by blast
  have e: "main_end status m what =
      (fst (destroy_manager status ?self m),
       if snd (destroy_manager status ?self m) = Hangs then Blocked else Undefined)"
    if "snd (destroy_manager status ?self m) \<noteq> Finished"
    using that
    by (cases what; cases "destroy_manager status ?self m"; cases "snd (destroy_manager status ?self m)")
       (simp_all add: main_end_def signal_handler_def abort_raises_def)
  have s: "snd (destroy_manager status ?self m) = (if held_up status ?self ?n then Hangs else Terminates)"
    unfolding d by (simp add: andthen_def join_threads_end)
  have "fst (destroy_manager status ?self m) =
      map RequestStop [0..<?n] @ map Join [0..<?n] @ concat (map (\<lambda>u. Stop (unit_server u)) (u # us)) @ Stop (unit_server u)"
    if "(\<forall>t < ?n. returns status t)" "?self = None"
    unfolding d using join_threads_all [OF that(1), of ?self] that(2) by simp
  with e s u show ?thesis by auto
qed

theorem no_orderly_end_witness:
  "\<exists>m. ServerManager (0, 0) (0::nat) [sample_calls 3, sample_calls 4] main_configs = Inr m \<and>
     snd (main_end (\<lambda>_. Stopped) m (Signal 15 None)) = Undefined \<and>
     snd (main_end (\<lambda>t. if t = 1 then Waiting else Stopped) m (Signal 15 None)) = Blocked \<and>
     snd (main_end (\<lambda>t. if t = 1 then Waiting else Stopped) m (Signal 2 (Some 0))) = Undefined \<and>
     snd (main_end (\<lambda>_. Failed) m WakeUp) = Undefined"
proof -
  have len: "length [sample_calls 3, sample_calls 4] = length main_configs" and ne: "main_configs \<noteq> []"
    and two: "length main_configs = 2" by (simp_all add: main_configs_def)
  have "\<exists>m. ServerManager (0, 0) (0::nat) [sample_calls 3, sample_calls 4] main_configs = Inr m"
    using manager_Start_configured [OF len, of "(0, 0)" "0::nat"]
    by (simp add: ServerManager_def main_configs_def sample_calls_ok)
  then obtain m where m: "ServerManager (0, 0) (0::nat) [sample_calls 3, sample_calls 4] main_configs = Inr m" ..
  note ends = no_orderly_end [OF len ne m, THEN conjunct1]
  have "\<not> held_up (\<lambda>_. Stopped) None 2" "\<not> held_up (\<lambda>_. Failed) None 2"
    "held_up (\<lambda>t. if t = 1 then Waiting else Stopped) None 2"
    "\<not> held_up (\<lambda>t. if t = 1 then Waiting else Stopped) (Some 0) 2"
    by (auto simp: held_up_def returns_def intro: exI [of _ 1])
  with m ends two show ?thesis by (intro exI [of _ m]) simp
qed

end
