(* ===== verification/Logging.thy ===== *)
theory Logging
  imports HttpHandler
begin

text \<open>
  \<^verbatim>\<open>include/simpleserv/debug_flags.hpp\<close> and \<^verbatim>\<open>include/simpleserv/utility/logger.hpp\<close>, and the functions
  that log a request (\<^verbatim>\<open>src/simpleserv/utility/file_manager.cpp\<close>, \<^verbatim>\<open>src/simpleserv/http/http_handler.cpp\<close>) with what they log.
  The functions of \<open>FileManager\<close> and \<open>HttpHandler\<close> are these without their log lines.
\<close>

section \<open>Debug flags\<close>

definition ss_debug :: bool where
  "ss_debug = True"

definition ss_debug_file_manager :: bool where
  "ss_debug_file_manager = True"

definition ss_debug_file_manager_cache_miss :: bool where
  "ss_debug_file_manager_cache_miss = (ss_debug_file_manager \<or> True)"

definition debug_all :: "bool list \<Rightarrow> bool" where
  "debug_all flags = (list_all (\<lambda>flag. flag) flags \<and> ss_debug)"

section \<open>The logger\<close>

text \<open>
  The functions of \<^verbatim>\<open>Logger\<close> hand the message to Boost with a severity; a log is the list of what was
  handed over.
\<close>

datatype severity = SevTrace | SevDebug | SevInfo | SevWarning | SevError | SevFatal

type_synonym log = "(severity \<times> string) list"

definition log_trace :: "string \<Rightarrow> log" where "log_trace msg = [(SevTrace, msg)]"

definition log_debug :: "string \<Rightarrow> log" where "log_debug msg = [(SevDebug, msg)]"

definition log_info :: "string \<Rightarrow> log" where "log_info msg = [(SevInfo, msg)]"

definition log_warning :: "string \<Rightarrow> log" where "log_warning msg = [(SevWarning, msg)]"

definition log_error :: "string \<Rightarrow> log" where "log_error msg = [(SevError, msg)]"

definition log_fatal :: "string \<Rightarrow> log" where "log_fatal msg = [(SevFatal, msg)]"

text \<open>
  A value with the log written on the way to it.  \<open>lbind\<close> goes on from the value and keeps what was logged.
\<close>

type_synonym 'a logged = "log \<times> 'a"

definition lbind :: "'a logged \<Rightarrow> ('a \<Rightarrow> 'b logged) \<Rightarrow> 'b logged" where
  "lbind m f = (fst m @ fst (f (snd m)), snd (f (snd m)))"

definition say :: "log \<Rightarrow> 'a logged \<Rightarrow> 'a logged" where
  "say l m = (l @ fst m, snd m)"

definition say_if :: "bool \<Rightarrow> log \<Rightarrow> 'a logged \<Rightarrow> 'a logged" where
  "say_if flag l m = (if flag then say l m else m)"

named_theorems erase \<open>rules that push \<open>snd\<close> into a logged term, so that its log goes away\<close>

lemma snd_lbind [erase]: "snd (lbind m f) = snd (f (snd m))"
  by (simp add: lbind_def)

lemma snd_say [erase]: "snd (say l m) = snd m" "snd (say_if flag l m) = snd m"
  by (simp_all add: say_def say_if_def)

lemma snd_case [erase]:
  "snd (case x of None \<Rightarrow> a | Some y \<Rightarrow> f y) = (case x of None \<Rightarrow> snd a | Some y \<Rightarrow> snd (f y))"
  "snd (case r of Inl e \<Rightarrow> g e | Inr v \<Rightarrow> h v) = (case r of Inl e \<Rightarrow> snd (g e) | Inr v \<Rightarrow> snd (h v))"
  "snd (case p of (u, w) \<Rightarrow> k u w) = (case p of (u, w) \<Rightarrow> snd (k u w))"
  by (simp_all split: option.split sum.split prod.split)

text \<open>
  The message of an exception is a C string: \<^verbatim>\<open>what()\<close> ends at the first null character.
\<close>

definition c_string :: "string \<Rightarrow> string" where
  "c_string s = takeWhile (\<lambda>c. c \<noteq> CHR 0x00) s"

fun exception_what :: "file_manager_exception \<Rightarrow> string" where
  "exception_what (FileManagerException message) = message"

abbreviation LF :: char where
  "LF \<equiv> CHR 0x0A"

section \<open>The functions that log\<close>

definition logged_disk_get_file ::
  "disk \<Rightarrow> descriptors \<Rightarrow> string \<Rightarrow> (file_manager_exception + http_file_data) logged" where
  "logged_disk_get_file files file_descriptors full_path =
     say_if (debug_all [ss_debug_file_manager])
       (log_info (''Requested file: '' @ full_path @ [LF]) @
        log_info (''File descriptors: '' @ nat_to_string (card (dom file_descriptors)) @ [LF]))
     (case file_descriptors full_path of
        None \<Rightarrow> ([], Inl (FileManagerException (''File not found: '' @ full_path)))
      | Some fd \<Rightarrow>
          let (encoding, actual_path) =
            (case fd_paths fd BROTLI of
               Some p \<Rightarrow> (BROTLI, p)
             | None \<Rightarrow> (NONE, case fd_paths fd NONE of Some p \<Rightarrow> p | None \<Rightarrow> ''''))
          in ([], Inr \<lparr>data_filetype = fd_filetype fd, data_encoding = encoding,
                  data_content = read_file files actual_path\<rparr>))"

definition logged_cache_get_file ::
  "(string \<Rightarrow> ('e + 't) logged) \<Rightarrow> 't file_cache \<Rightarrow> string \<Rightarrow> (('e + 't) \<times> 't file_cache) logged" where
  "logged_cache_get_file fetch file_cache full_path =
     say_if (debug_all [ss_debug_file_manager])
       (log_info (''Requested file: '' @ full_path @ [LF]) @
        log_info (''File cache size: '' @ nat_to_string (card (dom file_cache)) @ [LF]))
     (case file_cache full_path of
        None \<Rightarrow>
          lbind (fetch full_path) (\<lambda>returned.
            case returned of
              Inr v \<Rightarrow>
                say_if (debug_all [ss_debug_file_manager_cache_miss])
                  (log_info (''File not found in cache, adding it...'' @ [LF]))
                (let entry = create_file_cache_entry full_path v
                 in ([], Inr (from_file_cache_entry entry), file_cache(full_path \<mapsto> entry)))
            | Inl e \<Rightarrow>
                say_if (debug_all [ss_debug_file_manager_cache_miss])
                  (log_info (''File not found in cache, and could not be fetched from disk.'' @ [LF]))
                ([], Inl e, file_cache))
      | Some entry \<Rightarrow> ([], Inr (from_file_cache_entry entry), file_cache))"

definition logged_get_file ::
  "disk \<Rightarrow> file_manager \<Rightarrow> string \<Rightarrow> ((file_manager_exception + http_file_data) \<times> file_manager) logged" where
  "logged_get_file files fm full_path =
     lbind (logged_cache_get_file (logged_disk_get_file files (fm_descriptors fm)) (fm_cache fm) full_path)
       (\<lambda>(r, cache). ([], r, fm\<lparr>fm_cache := cache\<rparr>))"

definition logged_prepare_response ::
  "disk \<Rightarrow> http_request \<Rightarrow> file_manager \<Rightarrow> (http_response \<times> file_manager) logged outcome" where
  "logged_prepare_response files request fm =
     (let response = HTTPResponse OK HTTP_1_1
      in obind (convert_to_filedirectory (req_path request)) (\<lambda>p. Returns (
         lbind (logged_get_file files fm p) (\<lambda>(expected_file_data, fm').
           case expected_file_data of
             Inl e \<Rightarrow> say (log_warning (c_string (exception_what e))) ([], HTTPResponse NOT_FOUND HTTP_1_1, fm')
           | Inr file_data \<Rightarrow>
               let response = SetHeader ''Content-Type'' (decode_filetype (data_filetype file_data)) response;
                   response =
                     (if data_encoding file_data \<noteq> NONE
                      then SetHeader ''Content-Encoding'' (decode_file_encoding (data_encoding file_data)) response
                      else response);
                   response =
                     (if req_method request \<noteq> HEAD then SetContent (data_content file_data) response else response)
               in ([], response, fm')))))"

text \<open>
  \<open>position\<close> is the source position in the parser's message.  The parser logs nothing, so that a request
  for which it throws leaves no log; nothing throws after the first line.
\<close>

definition logged_handle ::
  "string \<Rightarrow> disk \<Rightarrow> string \<Rightarrow> file_manager \<Rightarrow> (string option \<times> file_manager) logged outcome" where
  "logged_handle position files s fm =
     obind (parse_http_request s) (\<lambda>result.
       case result of
         Inl e \<Rightarrow> Returns (say
           (log_warning ''An error has occured during the parsing of an HTTP request'' @
            log_warning (c_string (parser_error_what position e))) ([], None, fm))
       | Inr request \<Rightarrow>
           obind (logged_prepare_response files request fm) (\<lambda>(log, response, fm').
           obind (response_to_string response) (\<lambda>t. Returns (log, Some t, fm'))))"

section \<open>Erasing the log\<close>

lemma erase_disk_get_file: "snd (logged_disk_get_file files fds p) = disk_get_file files fds p"
  by (simp add: logged_disk_get_file_def disk_get_file_def erase Let_def split: option.split prod.split)

lemma erase_cache_get_file:
  "snd (logged_cache_get_file fetch cache p) = cache_get_file (\<lambda>p. snd (fetch p)) cache p"
  by (simp add: logged_cache_get_file_def cache_get_file_def erase Let_def split: option.split sum.split)

lemma erase_get_file: "snd (logged_get_file files fm p) = get_file files fm p"
  by (simp add: logged_get_file_def get_file_def erase erase_cache_get_file erase_disk_get_file
      split: prod.split)

lemma erase_prepare_response:
  "obind (logged_prepare_response files request fm) (\<lambda>m. Returns (snd m)) = prepare_response files request fm"
  by (simp add: logged_prepare_response_def prepare_response_def obind_assoc erase erase_get_file Let_def
        convert_to_filedirectory_def remove_query_eq split: prod.split sum.split)

section \<open>What is logged\<close>

definition requested :: "string \<Rightarrow> severity \<times> string" where
  "requested p = (SevInfo, ''Requested file: '' @ p @ [LF])"

text \<open>
  The log of fetching the file \<open>p\<close>: from the cache; from the disk, into the cache; or there is none.
\<close>

definition missing :: "file_manager \<Rightarrow> string \<Rightarrow> bool" where
  "missing fm p \<longleftrightarrow> fm_cache fm p = None \<and> fm_descriptors fm p = None"

definition fetch_log :: "file_manager \<Rightarrow> string \<Rightarrow> log" where
  "fetch_log fm p =
     [requested p, (SevInfo, ''File cache size: '' @ nat_to_string (card (dom (fm_cache fm))) @ [LF])] @
     (if fm_cache fm p \<noteq> None then []
      else [requested p, (SevInfo, ''File descriptors: '' @ nat_to_string (card (dom (fm_descriptors fm))) @ [LF]),
            (SevInfo, (if missing fm p then ''File not found in cache, and could not be fetched from disk.''
                       else ''File not found in cache, adding it...'') @ [LF])])"

definition visit_log :: "file_manager \<Rightarrow> string \<Rightarrow> log" where
  "visit_log fm p = fetch_log fm p @ (if missing fm p then [(SevWarning, c_string (''File not found: '' @ p))] else [])"

lemma flags_set: "debug_all [ss_debug_file_manager]" "debug_all [ss_debug_file_manager_cache_miss]"
  by (simp_all add: debug_all_def ss_debug_def ss_debug_file_manager_def ss_debug_file_manager_cache_miss_def)

lemmas logging = lbind_def say_def say_if_def flags_set log_info_def log_warning_def

lemma get_file_logged: "logged_get_file files fm p = (fetch_log fm p, get_file files fm p)"
proof (rule prod_eqI)
  show "fst (logged_get_file files fm p) = fst (fetch_log fm p, get_file files fm p)"
    by (auto simp: logged_get_file_def logged_cache_get_file_def logged_disk_get_file_def logging fetch_log_def
        missing_def requested_def Let_def split: option.split prod.split)
qed (simp add: erase_get_file)

lemma get_file_result:
  "fst (get_file files fm p) = Inl e \<longleftrightarrow> missing fm p \<and> e = FileManagerException (''File not found: '' @ p)"
  by (auto simp: get_file_def cache_get_file_def disk_get_file_def missing_def Let_def split: option.split prod.split)

lemma handle_logged:
  assumes "parse_http_request s = Returns (Inr r)"
  shows "logged_handle position files s fm =
    (case get_file files fm (''../webdir'' @ path_part (req_path r)) of
       (result, fm') \<Rightarrow> Returns (visit_log fm (''../webdir'' @ path_part (req_path r)), Some (answer_text r result), fm'))"
proof -
  let ?p = "''../webdir'' @ path_part (req_path r)"
  obtain result fm' where g: "get_file files fm ?p = (result, fm')" by (cases "get_file files fm ?p")
  have res: "result = Inl e \<longleftrightarrow> missing fm ?p \<and> e = FileManagerException (''File not found: '' @ ?p)" for e
    by (rule get_file_result [of files fm ?p e, unfolded g fst_conv])
  have "obind (logged_prepare_response files r fm) (\<lambda>m. Returns (snd m)) = prepare_response files r fm"
    by (rule erase_prepare_response)
  moreover have "\<exists>response. logged_prepare_response files r fm = Returns (visit_log fm ?p, response, fm')"
  proof (cases result)
    case (Inl e)
    with res have "missing fm ?p" "e = FileManagerException (''File not found: '' @ ?p)" by blast+
    with g Inl show ?thesis
      by (simp add: logged_prepare_response_def convert_to_filedirectory_def remove_query_eq get_file_logged logging
          visit_log_def)
  next
    case (Inr d)
    with res have "\<not> missing fm ?p" by blast
    with g Inr show ?thesis
      by (simp add: logged_prepare_response_def convert_to_filedirectory_def remove_query_eq get_file_logged logging
          visit_log_def Let_def)
  qed
  ultimately show ?thesis
    using assms handle_accepted [OF assms, of files fm] g
    by (auto simp: logged_handle_def handle_def obind_assoc obind_eq_Returns)
qed

lemma handle_rejected_logged:
  "parse_http_request s = Returns (Inl e) \<Longrightarrow>
   logged_handle position files s fm = Returns
     ([(SevWarning, ''An error has occured during the parsing of an HTTP request''),
       (SevWarning, c_string (parser_error_what position e))], None, fm)"
  by (simp add: logged_handle_def logging)

lemma erase_handle: "obind (logged_handle position files s fm) (\<lambda>(log, answer). Returns answer) = handle files s fm"
proof (cases "parse_http_request s")
  case (Returns result)
  then show ?thesis
  proof (cases result)
    case (Inl e)
    with Returns show ?thesis by (simp add: handle_rejected_logged handle_def)
  next
    case (Inr r)
    with Returns have "parse_http_request s = Returns (Inr r)" by simp
    then show ?thesis by (simp add: handle_logged handle_accepted split: prod.split)
  qed
qed (simp_all add: logged_handle_def handle_def)

text \<open>
  C29. What a request leaves in the log.  Logging changes neither the answer nor the file manager.  A
  rejected request is two warnings, the second with the parser's message.  An accepted one is a request for
  the file below the web directory and the size of the cache; if the cache does not have it, the same
  from the disk, with the number of descriptors, and whether it was added; if there is no such
  file, a warning that ends at the first null character of the path.
\<close>

theorem requests_logged:
  "obind (logged_handle position files s fm) (\<lambda>(log, answer). Returns answer) = handle files s fm \<and>
   (\<forall>e. parse_http_request s = Returns (Inl e) \<longrightarrow>
      (\<exists>answer. logged_handle position files s fm = Returns
        ([(SevWarning, ''An error has occured during the parsing of an HTTP request''),
          (SevWarning, c_string (parser_error_what position e))], answer))) \<and>
   (\<forall>r. parse_http_request s = Returns (Inr r) \<longrightarrow>
      (\<exists>answer. logged_handle position files s fm = Returns
        (visit_log fm (''../webdir'' @ path_part (req_path r)), answer)))"
  using erase_handle [of position files s fm] handle_rejected_logged [of s _ position files fm]
  by (simp add: handle_logged case_prod_beta)

theorem requests_logged_witness:
  "\<exists>answer. logged_handle ''p'' Map.empty (''GET /x HTTP/1.1'' @ CRLF @ CRLF) sample_manager = Returns
     ([(SevInfo, ''Requested file: ../webdir/x'' @ [LF]), (SevInfo, ''File cache size: 0'' @ [LF]),
       (SevInfo, ''Requested file: ../webdir/x'' @ [LF]), (SevInfo, ''File descriptors: 1'' @ [LF]),
       (SevInfo, ''File not found in cache, and could not be fetched from disk.'' @ [LF]),
       (SevWarning, ''File not found: ../webdir/x'')], answer)"
proof -
  have "parse_http_request (''GET /x HTTP/1.1'' @ CRLF @ CRLF) = Returns (Inr (HTTPRequest GET ''/x'' HTTP_1_1))"
    by code_simp
  moreover have "visit_log sample_manager (''../webdir'' @ path_part (req_path (HTTPRequest GET ''/x'' HTTP_1_1))) =
     [(SevInfo, ''Requested file: ../webdir/x'' @ [LF]), (SevInfo, ''File cache size: 0'' @ [LF]),
       (SevInfo, ''Requested file: ../webdir/x'' @ [LF]), (SevInfo, ''File descriptors: 1'' @ [LF]),
       (SevInfo, ''File not found in cache, and could not be fetched from disk.'' @ [LF]),
       (SevWarning, ''File not found: ../webdir/x'')]"
    by (simp add: visit_log_def fetch_log_def missing_def requested_def sample_manager_def HTTPRequest_def path_part_def
        c_string_def nat_to_string.simps digit_char_def)
  ultimately show ?thesis
    using requests_logged [of "''p''" Map.empty "''GET /x HTTP/1.1'' @ CRLF @ CRLF" sample_manager] by (metis (no_types))
qed

section \<open>Lines of a client's own in the log\<close>

text \<open>
  C35. Log injection.  The path of a request is taken up to the next space, line breaks included, and
  logged as it is.  Whatever the logger writes before and after a message: a client can have any
  line without a space or a question mark written into the log as a line of its own.
\<close>

theorem log_lines_forged:
  assumes "CHR '' '' \<notin> set line" and "CHR ''?'' \<notin> set line"
    and sink: "\<And>entry. \<exists>pre post. sink entry = pre @ snd entry @ post"
  shows "\<exists>log answer before after.
    logged_handle position files (''GET /'' @ [LF] @ line @ '' HTTP/1.1'' @ CRLF @ CRLF) fm = Returns (log, answer) \<and>
    concat (map sink log) = before @ [LF] @ line @ [LF] @ after"
proof -
  let ?r = "HTTPRequest GET (''/'' @ [LF] @ line) HTTP_1_1"
  let ?s = "''GET /'' @ [LF] @ line @ '' HTTP/1.1'' @ CRLF @ CRLF"
  have "request_ok ?r"
    using assms(1) by (simp add: request_ok_def fields_ok_def url_ok_def HTTPRequest_def smap_ok_def)
  then have "obind (print_request ?r) parse_http_request = Returns (Inr ?r)" by (rule roundtrip)
  moreover have "print_request ?r = Returns ?s"
    by (simp add: print_request_def HTTPRequest_def array_at_def HTTP_METHOD_STRINGS_def HTTP_VERSION_STRINGS_def)
  ultimately have parse: "parse_http_request ?s = Returns (Inr ?r)" by simp
  have p: "path_part (req_path ?r) = ''/'' @ [LF] @ line"
    using assms(2) by (auto simp: path_part_def HTTPRequest_def takeWhile_eq_all_conv)
  let ?entry = "requested (''../webdir/'' @ [LF] @ line)"
  obtain rest where v: "visit_log fm (''../webdir'' @ path_part (req_path ?r)) = ?entry # rest"
    unfolding p by (simp add: visit_log_def fetch_log_def)
  obtain pre post where "sink ?entry = pre @ snd ?entry @ post" using sink by blast
  then have "sink ?entry = (pre @ ''Requested file: ../webdir/'') @ [LF] @ line @ [LF] @ post"
    by (simp add: requested_def)
  then have "concat (map sink (?entry # rest)) =
      (pre @ ''Requested file: ../webdir/'') @ [LF] @ line @ [LF] @ (post @ concat (map sink rest))"
    by simp
  moreover obtain answer where "logged_handle position files ?s fm = Returns (?entry # rest, answer)"
    using handle_logged [OF parse, of position files fm] unfolding v by (auto split: prod.splits)
  ultimately show ?thesis by blast
qed

theorem log_lines_forged_witness:
  "\<exists>log answer before after.
     logged_handle ''p'' Map.empty (''GET /'' @ [LF] @ ''fatal:disk-full'' @ '' HTTP/1.1'' @ CRLF @ CRLF) sample_manager =
       Returns (log, answer) \<and>
     concat (map (\<lambda>entry. ''[log] '' @ snd entry @ [LF]) log) = before @ [LF] @ ''fatal:disk-full'' @ [LF] @ after"
proof -
  have sink: "\<exists>pre post. ''[log] '' @ snd entry @ [LF] = pre @ snd entry @ post" for entry :: "severity \<times> string"
    by blast
  show ?thesis
    by (rule log_lines_forged [of "''fatal:disk-full''" "\<lambda>entry. ''[log] '' @ snd entry @ [LF]", OF _ _ sink]) simp_all
qed

end
