(* ===== verification/ManagerRuns.thy ===== *)
theory ManagerRuns
  imports HttpHandler
begin

text \<open>
  The life of a file manager: any sequence of its operations, the disk changing beside it.  The
  invariant says what its descriptors and cache entries can look like at any time.
\<close>

section \<open>Sequences of operations\<close>

datatype manager_use =
    Scan string "fs_node list option"
  | Encode compressor "string \<Rightarrow> bool" "string list"
  | GetFile string
  | GetFileIn string string
  | Answer string
  | DiskChanges disk

fun manager_call :: "manager_use \<Rightarrow> disk \<Rightarrow> file_manager \<Rightarrow> (disk \<times> file_manager) outcome" where
  "manager_call (Scan p tree) files fm =
     obind (fm_construct_file_descriptors p tree fm) (\<lambda>fm'. Returns (files, fm'))"
| "manager_call (Encode compress writable order) files fm = fm_generate_encoded_files compress writable order files fm"
| "manager_call (GetFile p) files fm = Returns (files, snd (get_file files fm p))"
| "manager_call (GetFileIn p filename) files fm = Returns (files, snd (get_file_in files fm p filename))"
| "manager_call (Answer request) files fm = obind (handle files request fm) (\<lambda>(_, fm'). Returns (files, fm'))"
| "manager_call (DiskChanges files') files fm = Returns (files', fm)"

fun manager_calls :: "manager_use list \<Rightarrow> disk \<Rightarrow> file_manager \<Rightarrow> (disk \<times> file_manager) outcome" where
  "manager_calls [] files fm = Returns (files, fm)"
| "manager_calls (call # calls) files fm =
     obind (manager_call call files fm) (\<lambda>(files', fm'). manager_calls calls files' fm')"

text \<open>The directory iterator yields file names.\<close>

fun call_ok :: "manager_use \<Rightarrow> bool" where
  "call_ok (Scan p (Some es)) \<longleftrightarrow> dir_ok p \<and> list_all node_ok es"
| "call_ok _ \<longleftrightarrow> True"

section \<open>The invariant\<close>

definition descriptor_ok :: "string \<Rightarrow> file_descriptor \<Rightarrow> bool" where
  "descriptor_ok p fd \<longleftrightarrow>
     path_append (parent_path p) (path_filename p) = p \<and>
     fd_filename fd = path_filename p \<and> fd_filetype fd = encode_filetype (path_filename p) \<and>
     (fd_paths fd = [NONE \<mapsto> p] \<or> is_text fd \<and> fd_paths fd = [NONE \<mapsto> p, BROTLI \<mapsto> p @ ''.br''])"

definition data_ok :: "string \<Rightarrow> http_file_data \<Rightarrow> bool" where
  "data_ok p data \<longleftrightarrow>
     data_filetype data = encode_filetype (path_filename p) \<and>
     (data_encoding data = NONE \<or>
      data_encoding data = BROTLI \<and> data_filetype data \<in> {TEXT_HTML, TEXT_CSS, TEXT_JS})"

definition manager_ok :: "file_manager \<Rightarrow> bool" where
  "manager_ok fm \<longleftrightarrow>
     (\<forall>p fd. fm_descriptors fm p = Some fd \<longrightarrow> descriptor_ok p fd) \<and>
     (\<forall>p e. fm_cache fm p = Some e \<longrightarrow>
        p \<in> dom (fm_descriptors fm) \<and> ce_filename e = p \<and> data_ok p (ce_value e))"

lemma manager_okI:
  assumes "\<And>p fd. fm_descriptors fm p = Some fd \<Longrightarrow> descriptor_ok p fd"
    and "\<And>p e. fm_cache fm p = Some e \<Longrightarrow> p \<in> dom (fm_descriptors fm) \<and> ce_filename e = p \<and> data_ok p (ce_value e)"
  shows "manager_ok fm"
  using assms by (simp add: manager_ok_def)

lemma manager_okD:
  assumes "manager_ok fm"
  shows "fm_descriptors fm p = Some fd \<Longrightarrow> descriptor_ok p fd"
    and "fm_cache fm p = Some e \<Longrightarrow> p \<in> dom (fm_descriptors fm) \<and> ce_filename e = p \<and> data_ok p (ce_value e)"
  using assms by (simp_all add: manager_ok_def)

lemma new_manager_ok: "manager_ok new_file_manager"
  by (simp add: manager_ok_def new_file_manager_def)

lemma scan_ok:
  assumes ok: "manager_ok fm" and p: "dir_ok p" "\<forall>e \<in> set es. node_ok e"
    and scan: "fm_construct_file_descriptors p (Some es) fm = Returns fm'"
  shows "manager_ok fm'"
proof -
  from scan have "readable (Some es)"
    by (auto simp: fm_construct_file_descriptors_def obind_eq_Returns dest: construct_returns_readable)
  from scan construct_descriptors_eq [OF p this, of "fm_descriptors fm"] have fm': "fm' = fm\<lparr>fm_descriptors :=
      (\<lambda>q. if q \<in> paths_below p es then Some (new_descriptor (path_filename q) q) else fm_descriptors fm q)\<rparr>"
    by (simp add: fm_construct_file_descriptors_def)
  have "descriptor_ok q (new_descriptor (path_filename q) q)" if "q \<in> paths_below p es" for q
  proof -
    from that obtain e d n where e: "e \<in> set es" "(d, n) \<in> set (files_below p e)" "q = path_append d n"
      by (auto simp: paths_below_def)
    from files_below_ok [OF p(1) _ e(2)] e(1) p(2) have "dir_ok d" "name_ok n" by simp_all
    then show ?thesis by (simp add: descriptor_ok_def new_descriptor_def e(3))
  qed
  then show ?thesis
    using manager_okD [OF ok] by (intro manager_okI) (fastforce simp: fm' split: if_splits)+
qed

lemma encode_ok:
  assumes "generate_encoded_files compress writable order files fds = Returns (files', fds')"
    and "\<And>p fd. fds p = Some fd \<Longrightarrow> descriptor_ok p fd"
  shows "(fds' p = Some fd \<longrightarrow> descriptor_ok p fd) \<and> dom fds' = dom fds"
  using assms
proof (induction compress writable order files fds arbitrary: files' rule: generate_encoded_files.induct)
  case (2 compress writable q order files fds)
  show ?case
  proof (cases "fds q")
    case None
    with 2 show ?thesis by simp
  next
    case (Some qd)
    show ?thesis
    proof (cases "is_text qd")
      case False
      with 2 Some show ?thesis by simp
    next
      case True
      let ?fds = "\<lambda>out. if out \<noteq> '''' then fds(q \<mapsto> qd\<lparr>fd_paths := (fd_paths qd)(BROTLI \<mapsto> out)\<rparr>) else fds"
      from "2.prems"(2) Some have q: "descriptor_ok q qd" by simp
      then have "path_append (parent_path q) (fd_filename qd) = q" by (simp add: descriptor_ok_def)
      with "2.prems"(1) Some True obtain out files1 where
        enc: "brotli_encode compress writable q files = Returns (out, files1)"
        and gen: "generate_encoded_files compress writable order files1 (?fds out) = Returns (files', fds')"
        by (auto simp: obind_eq_Returns)
      have "descriptor_ok r rd" if "?fds out r = Some rd" for r rd
      proof (cases "out = '''' \<or> r \<noteq> q")
        case True
        with that "2.prems"(2) show ?thesis by (auto split: if_splits)
      next
        case False
        with brotli_encode_cases [OF enc] have "out = q @ ''.br''" by auto
        with that False q \<open>is_text qd\<close> show ?thesis by (auto simp: descriptor_ok_def is_text_def)
      qed
      from "2.IH"(2) [OF Some True _ refl gen this] enc q Some show ?thesis
        by (auto simp: descriptor_ok_def split: if_splits)
    qed
  qed
qed simp

lemma get_file_ok:
  assumes ok: "manager_ok fm"
  shows "manager_ok (snd (get_file files fm p))"
    and "fst (get_file files fm p) = Inr data \<Longrightarrow> data_ok p data \<and> p \<in> dom (fm_descriptors fm)"
proof -
  have fetched: "data_ok p data \<and> p \<in> dom (fm_descriptors fm)"
    if "disk_get_file files (fm_descriptors fm) p = Inr data" for data
    using that manager_okD(1) [OF ok, of p]
    by (auto simp: disk_get_file_def data_ok_def descriptor_ok_def is_text_def split: option.splits)
  have cache: "fm_descriptors (snd (get_file files fm p)) = fm_descriptors fm"
    "fm_cache (snd (get_file files fm p)) q = Some e \<Longrightarrow> fm_cache fm q = Some e \<or>
      q = p \<and> ce_filename e = p \<and> disk_get_file files (fm_descriptors fm) p = Inr (ce_value e)" for q e
    by (cases "fm_cache fm p"; auto simp: get_file_def cache_get_file_hit cache_get_file_miss
        create_file_cache_entry_def split: sum.splits if_splits)+
  show "manager_ok (snd (get_file files fm p))"
    using manager_okD [OF ok] cache(2) fetched by (intro manager_okI) (simp add: cache(1), metis cache(1))
  show "fst (get_file files fm p) = Inr data \<Longrightarrow> data_ok p data \<and> p \<in> dom (fm_descriptors fm)"
    using manager_okD(2) [OF ok] fetched
    by (cases "fm_cache fm p") (auto simp: get_file_def cache_get_file_hit cache_get_file_miss)
qed

lemma generate_ok:
  assumes ok: "manager_ok fm" and gen: "fm_generate_encoded_files compress writable order files fm = Returns (files', fm')"
  shows "manager_ok fm'"
proof -
  from gen obtain fds' where g: "generate_encoded_files compress writable order files (fm_descriptors fm) = Returns (files', fds')"
    and fm': "fm' = fm\<lparr>fm_descriptors := fds'\<rparr>"
    by (auto simp: fm_generate_encoded_files_def obind_eq_Returns)
  from encode_ok [OF g manager_okD(1) [OF ok]] manager_okD(2) [OF ok] show ?thesis
    by (intro manager_okI) (simp_all add: fm')
qed

lemma prepare_response_state:
  assumes "prepare_response files request fm = Returns (response, fm')"
  shows "\<exists>p. fm' = snd (get_file files fm p)"
proof -
  from assms obtain p where "convert_to_filedirectory (req_path request) = Returns p"
    by (auto simp: prepare_response_def Let_def obind_eq_Returns)
  with assms have "fm' = snd (get_file files fm p)"
    by (cases "get_file files fm p"; cases "fst (get_file files fm p)") (auto simp: prepare_response_def Let_def)
  then show ?thesis ..
qed

lemma handle_ok:
  assumes ok: "manager_ok fm" and h: "handle files s fm = Returns (response, fm')"
  shows "manager_ok fm'"
proof -
  from h obtain result where r: "parse_http_request s = Returns result" by (auto simp: handle_def obind_eq_Returns)
  show ?thesis
  proof (cases result)
    case (Inl e)
    with h r ok show ?thesis by (simp add: handle_def)
  next
    case (Inr request)
    with h r obtain resp where "prepare_response files request fm = Returns (resp, fm')"
      by (auto simp: handle_def obind_eq_Returns)
    from prepare_response_state [OF this] get_file_ok(1) [OF ok] show ?thesis by auto
  qed
qed

lemma call_keeps:
  assumes "manager_ok fm" and "call_ok call" and "manager_call call files fm = Returns (files', fm')"
  shows "manager_ok fm'"
proof (cases call)
  case (Scan p tree)
  with assms show ?thesis
    by (cases tree)
       (auto simp: obind_eq_Returns list_all_iff scan_ok fm_construct_file_descriptors_def construct_file_descriptors_def)
qed (use assms in \<open>auto simp: obind_eq_Returns get_file_in_def intro: generate_ok handle_ok get_file_ok(1)\<close>)

lemma calls_keep:
  "manager_ok fm \<Longrightarrow> list_all call_ok calls \<Longrightarrow> manager_calls calls files fm = Returns (files', fm') \<Longrightarrow> manager_ok fm'"
  by (induction calls arbitrary: files fm) (auto simp: obind_eq_Returns dest: call_keeps)

text \<open>
  C21. The file manager is well typed for its whole life.  After any sequence of scans, encodings,
  fetches and requests on a new manager, the disk changing in between, every descriptor stands under
  the path of its own file, with the name and the type that path tells, itself as the plain
  representation and at most its Brotli companion beside it, the latter only for HTML, CSS and
  JavaScript; every cache entry belongs to a described path and has its type.  So whatever
  \<^verbatim>\<open>get_file\<close> answers next, the file is a described one, its content type is that of its
  extension, and its encoding is none or, for text, Brotli.
\<close>

theorem manager_stays_ok:
  assumes "manager_calls calls files new_file_manager = Returns (files', fm)" and "list_all call_ok calls"
  shows "manager_ok fm \<and>
    (\<forall>disk p data. fst (get_file disk fm p) = Inr data \<longrightarrow> data_ok p data \<and> p \<in> dom (fm_descriptors fm))"
  using calls_keep [OF new_manager_ok assms(2,1)] get_file_ok(2) by blast

definition sample_calls :: "manager_use list" where
  "sample_calls =
     [Scan ''../webdir'' (Some [FileNode ''a.css'', DirNode ''x'' (Some [FileNode ''b.png''])]),
      Encode (\<lambda>input buffer. Some (buffer, 1)) (\<lambda>_. True) [''../webdir/x/b.png'', ''../webdir/a.css''],
      Answer (''GET /a.css HTTP/1.1'' @ CRLF @ CRLF), DiskChanges Map.empty, GetFile ''../webdir/x/b.png'']"

theorem manager_stays_ok_witness:
  "\<exists>files fm. manager_calls sample_calls [''../webdir/a.css'' \<mapsto> ''body { }'', ''../webdir/x/b.png'' \<mapsto> ''png'']
       new_file_manager = Returns (files, fm) \<and> manager_ok fm \<and>
     fst (get_file files fm ''../webdir/a.css'') =
       Inr \<lparr>data_filetype = TEXT_CSS, data_encoding = BROTLI, data_content = replicate 8 (CHR 0x00)\<rparr> \<and>
     data_ok ''../webdir/a.css'' \<lparr>data_filetype = TEXT_CSS, data_encoding = BROTLI, data_content = replicate 8 (CHR 0x00)\<rparr>"
proof -
  let ?run = "manager_calls sample_calls [''../webdir/a.css'' \<mapsto> ''body { }'', ''../webdir/x/b.png'' \<mapsto> ''png'']
    new_file_manager"
  have "case ?run of Returns (files, fm) \<Rightarrow> fst (get_file files fm ''../webdir/a.css'') =
       Inr \<lparr>data_filetype = TEXT_CSS, data_encoding = BROTLI, data_content = replicate 8 (CHR 0x00)\<rparr> | _ \<Rightarrow> False"
    by code_simp
  then obtain files fm where run: "?run = Returns (files, fm)"
    and get: "fst (get_file files fm ''../webdir/a.css'') =
       Inr \<lparr>data_filetype = TEXT_CSS, data_encoding = BROTLI, data_content = replicate 8 (CHR 0x00)\<rparr>"
    by (auto split: outcome.splits)
  have "list_all call_ok sample_calls" by code_simp
  from manager_stays_ok [OF run this] run get show ?thesis by blast
qed

end
