(* ===== verification/Url.thy ===== *)
theory Url
  imports Prelude "HOL-Library.Word"
begin

text \<open>
  \<^verbatim>\<open>include/simpleserv/utility/url.hpp\<close> and \<^verbatim>\<open>src/simpleserv/utility/url.cpp\<close>: splitting a URL into its
  path and its query, percent-decoding and percent-encoding.  Positions are natural numbers; the one
  subtraction of positions that can go below zero wraps around as the 64-bit \<^verbatim>\<open>size_t\<close> does.
\<close>

section \<open>The functions of the source\<close>

record URL =
  url_path :: string
  url_query :: strmap

definition GetPath :: "URL \<Rightarrow> string" where
  "GetPath u = url_path u"

definition GetQuery :: "URL \<Rightarrow> strmap" where
  "GetQuery u = url_query u"

text \<open>\<^verbatim>\<open>query[key]\<close> inserts the empty text for a key that is not there.\<close>

definition GetQuery_key :: "string \<Rightarrow> URL \<Rightarrow> string \<times> URL" where
  "GetQuery_key key u =
     (case smap_get (url_query u) key of
        Some v \<Rightarrow> (v, u)
      | None \<Rightarrow> ('''', u\<lparr>url_query := smap_set (url_query u) key ''''\<rparr>))"

definition path :: "string \<Rightarrow> string outcome" where
  "path s =
     (case find_char s CHR ''?'' 0 of
        Some query_index \<Rightarrow> substr s 0 query_index
      | None \<Rightarrow> Returns s)"

definition size_minus :: "nat \<Rightarrow> nat \<Rightarrow> nat" where
  "size_minus a b = unat (word_of_nat a - word_of_nat b :: 64 word)"

function searchpart_loop :: "string \<Rightarrow> nat \<Rightarrow> strmap \<Rightarrow> strmap outcome" where
  "searchpart_loop s query_index query =
     (let amp_pos = (case find_char s CHR ''&'' query_index of None \<Rightarrow> length s | Some p \<Rightarrow> p)
      in case find_char s CHR ''='' query_index of
           None \<Rightarrow> Returns query
         | Some eq_pos \<Rightarrow>
             obind (substr s query_index (size_minus eq_pos query_index)) (\<lambda>key.
             obind (substr s (eq_pos + 1) (size_minus (size_minus amp_pos eq_pos) 1)) (\<lambda>val.
               searchpart_loop s (amp_pos + 1) (smap_set query key val))))"
  by pat_completeness auto
termination
proof (relation "measure (\<lambda>(s, i, q). length s + 1 - i)", goal_cases)
  case 1
  show ?case by simp
next
  case (2 s query_index query amp_pos eq_pos key val)
  from find_char_bounds [OF 2(2)] have "query_index < length s" by simp
  moreover have "query_index \<le> amp_pos"
    using 2(1) \<open>query_index < length s\<close> by (auto split: option.splits dest: find_char_bounds)
  ultimately show ?case by simp
qed

declare searchpart_loop.simps [simp del]

definition searchpart :: "string \<Rightarrow> nat \<Rightarrow> strmap outcome" where
  "searchpart s start = searchpart_loop s start []"

definition from_string :: "string \<Rightarrow> (string + URL) outcome" where
  "from_string s =
     obind (path s) (\<lambda>path_str.
     obind (searchpart s (length path_str + 1)) (\<lambda>query.
       Returns (Inr \<lparr>url_path = path_str, url_query = query\<rparr>)))"

text \<open>
  \<^verbatim>\<open>std::stoi(s, nullptr, 16)\<close> on the two characters it is given here: white space, a sign, a prefix
  \<^verbatim>\<open>0x\<close> and hexadecimal digits, as many as there are; without a digit it throws.
\<close>

definition is_space :: "char \<Rightarrow> bool" where
  "is_space c \<longleftrightarrow> c \<in> {CHR '' '', CHR 0x09, CHR 0x0A, CHR 0x0B, CHR 0x0C, CHR 0x0D}"

definition hex_digit :: "char \<Rightarrow> nat option" where
  "hex_digit c =
     (let n = of_char c :: nat in
      if 48 \<le> n \<and> n \<le> 57 then Some (n - 48)
      else if 65 \<le> n \<and> n \<le> 70 then Some (n - 55)
      else if 97 \<le> n \<and> n \<le> 102 then Some (n - 87)
      else None)"

fun hex_digits :: "string \<Rightarrow> nat \<Rightarrow> nat" where
  "hex_digits [] n = n"
| "hex_digits (c # cs) n = (case hex_digit c of None \<Rightarrow> n | Some d \<Rightarrow> hex_digits cs (16 * n + d))"

definition hex_number :: "string \<Rightarrow> nat option" where
  "hex_number s =
     (if 3 \<le> length s \<and> s ! 0 = CHR ''0'' \<and> s ! 1 \<in> {CHR ''x'', CHR ''X''} \<and> hex_digit (s ! 2) \<noteq> None
      then Some (hex_digits (drop 2 s) 0)
      else (case s of [] \<Rightarrow> None | c # _ \<Rightarrow> if hex_digit c = None then None else Some (hex_digits s 0)))"

definition stoi_16 :: "string \<Rightarrow> int outcome" where
  "stoi_16 s =
     (let t = dropWhile is_space s;
          (sign, u) =
            (if t \<noteq> [] \<and> hd t = CHR ''-'' then (-1, tl t)
             else if t \<noteq> [] \<and> hd t = CHR ''+'' then (1, tl t) else (1, t))
      in case hex_number u of None \<Rightarrow> Throws InvalidArgument | Some n \<Rightarrow> Returns (sign * int n))"

text \<open>The loop of \<^verbatim>\<open>percent_decode\<close>; after an escape the index moves on by two, past the end if need be.\<close>

function percent_decode_loop :: "string \<Rightarrow> nat \<Rightarrow> string \<Rightarrow> string outcome" where
  "percent_decode_loop s i decoded =
     (if i < length s then
        if s ! i = CHR ''%'' then
          obind (substr s (i + 1) 2) (\<lambda>hex.
          obind (stoi_16 hex) (\<lambda>char_code.
            percent_decode_loop s (i + 2 + 1) (decoded @ [char_of char_code])))
        else percent_decode_loop s (i + 1) (decoded @ [s ! i])
      else Returns decoded)"
  by pat_completeness auto
termination by (relation "measure (\<lambda>(s, i, d). length s - i)") auto

declare percent_decode_loop.simps [simp del]

definition percent_decode :: "string \<Rightarrow> string outcome" where
  "percent_decode s = percent_decode_loop s 0 []"

definition encoded_chars :: "string" where
  "encoded_chars = '' !'' @ [CHR 0x22] @ ''#$%&'' @ [CHR 0x27] @ ''()*+,/:;=?@[]''"

fun percent_encode :: "string \<Rightarrow> string" where
  "percent_encode [] = []"
| "percent_encode (current_char # s) =
     (if current_char \<in> set encoded_chars
      then CHR ''%'' # int_to_string (char_code current_char) else [current_char]) @ percent_encode s"

section \<open>Facts: percent-encoding\<close>

text \<open>The loop on an index is a recursion on the rest of the text.\<close>

fun decode_list :: "string \<Rightarrow> string outcome" where
  "decode_list [] = Returns []"
| "decode_list (c # s) =
     (if c = CHR ''%'' then
        obind (stoi_16 (take 2 s)) (\<lambda>n. obind (decode_list (drop 2 s)) (\<lambda>t. Returns (char_of n # t)))
      else obind (decode_list s) (\<lambda>t. Returns (c # t)))"

lemma decode_loop_list:
  "i \<le> length s \<or> drop i s = [] \<Longrightarrow>
   percent_decode_loop s i decoded = obind (decode_list (drop i s)) (\<lambda>t. Returns (decoded @ t))"
proof (induction s i decoded rule: percent_decode_loop.induct)
  case (1 s i decoded)
  show ?case
  proof (cases "i < length s")
    case True
    then have drop: "drop i s = s ! i # drop (i + 1) s" by (simp add: Cons_nth_drop_Suc)
    show ?thesis
    proof (cases "s ! i = CHR ''%''")
      case esc: True
      have sub: "substr s (i + 1) 2 = Returns (take 2 (drop (i + 1) s))" using True by (simp add: substr_def)
      have d2: "drop 2 (drop (Suc i) s) = drop (Suc (Suc (Suc i))) s" by simp
      show ?thesis
      proof (cases "stoi_16 (take 2 (drop (i + 1) s))")
        case (Returns n)
        have "percent_decode_loop s (i + 2 + 1) (decoded @ [char_of n]) =
            obind (decode_list (drop (i + 2 + 1) s)) (\<lambda>t. Returns ((decoded @ [char_of n]) @ t))"
          by (rule "1.IH" (1) [OF True esc sub Returns]) (cases "i + 3 \<le> length s"; simp)
        with True esc Returns show ?thesis
          by (subst percent_decode_loop.simps) (simp add: drop sub [simplified] d2 obind_assoc del: drop_drop)
      qed (use True esc in \<open>subst percent_decode_loop.simps, simp add: drop sub [simplified]\<close>)+
    next
      case False
      with True "1.IH" (2) show ?thesis
        by (subst percent_decode_loop.simps) (simp add: drop obind_assoc)
    qed
  next
    case False
    then show ?thesis by (subst percent_decode_loop.simps) simp
  qed
qed

lemma percent_decode_list: "percent_decode s = decode_list s"
  using decode_loop_list [of 0 s "[]"] by (simp add: percent_decode_def)

text \<open>What the standard asks of an encoder: a percent sign and two hexadecimal digits.\<close>

definition hex_text :: "char \<Rightarrow> string" where
  "hex_text c = (let n = of_char c :: nat in [''0123456789ABCDEF'' ! (n div 16), ''0123456789ABCDEF'' ! (n mod 16)])"

definition standard_encode :: "(char \<Rightarrow> bool) \<Rightarrow> string \<Rightarrow> string" where
  "standard_encode reserved s = concat (map (\<lambda>c. if reserved c then CHR ''%'' # hex_text c else [c]) s)"

lemma char_below: "(of_char c :: nat) < 256"
  using nat_of_char_less_256 [of c] by simp

lemma hex_text_value: "stoi_16 (hex_text c) = Returns (of_char c) \<and> length (hex_text c) = 2"
proof -
  let ?n = "of_char c :: nat"
  have digit: "d < 16 \<Longrightarrow> hex_digit (''0123456789ABCDEF'' ! d) = Some d \<and> \<not> is_space (''0123456789ABCDEF'' ! d) \<and>
      ''0123456789ABCDEF'' ! d \<notin> {CHR ''-'', CHR ''+''}" for d
  proof -
    have "\<forall>d \<in> set [0..<16]. hex_digit (''0123456789ABCDEF'' ! d) = Some d \<and> \<not> is_space (''0123456789ABCDEF'' ! d) \<and>
        ''0123456789ABCDEF'' ! d \<notin> {CHR ''-'', CHR ''+''}" by code_simp
    then show "d < 16 \<Longrightarrow> ?thesis" by simp
  qed
  have d: "?n div 16 < 16" "?n mod 16 < 16" using char_below [of c] by (simp_all add: less_mult_imp_div_less)
  have "stoi_16 [a, b] = Returns (int (16 * x + y))"
    if "hex_digit a = Some x" "hex_digit b = Some y" "\<not> is_space a" "a \<notin> {CHR ''-'', CHR ''+''}" for a b x y
    using that by (simp add: stoi_16_def hex_number_def)
  from this [of _ "?n div 16" _ "?n mod 16"] digit [OF d(1)] digit [OF d(2)]
  have "stoi_16 (hex_text c) = Returns (int (16 * (?n div 16) + ?n mod 16))"
    unfolding hex_text_def Let_def by blast
  moreover have "int (16 * (?n div 16) + ?n mod 16) = of_char c" by (simp only: mult_div_mod_eq of_nat_of_char)
  ultimately show ?thesis by (simp add: hex_text_def Let_def)
qed

lemma decode_escape:
  assumes "stoi_16 h = Returns n" and "length h = 2"
  shows "decode_list (CHR ''%'' # h @ s) = obind (decode_list s) (\<lambda>t. Returns (char_of n # t))"
  using assms by simp

text \<open>
  C25. Decoding undoes the encoding of the standard.  Whatever set of characters an encoder escapes, as
  long as the percent sign is among them, \<^verbatim>\<open>percent_decode\<close> returns the text that was encoded.
\<close>

theorem percent_decode_standard:
  assumes "reserved CHR ''%''"
  shows "percent_decode (standard_encode reserved s) = Returns s"
proof -
  have "decode_list (standard_encode reserved s) = Returns s"
  proof (induction s)
    case (Cons c s)
    show ?case
    proof (cases "reserved c")
      case True
      have "standard_encode reserved (c # s) = CHR ''%'' # hex_text c @ standard_encode reserved s"
        using True by (simp add: standard_encode_def)
      with Cons decode_escape hex_text_value [of c] show ?thesis by simp
    next
      case False
      with assms have "c \<noteq> CHR ''%''" by blast
      with False Cons show ?thesis by (simp add: standard_encode_def)
    qed
  qed (simp add: standard_encode_def)
  then show ?thesis by (simp add: percent_decode_list)
qed

theorem percent_decode_standard_witness:
  "standard_encode (\<lambda>c. c \<in> set encoded_chars) ''a b%'' = ''a%20b%25'' \<and> percent_decode ''a%20b%25'' = Returns ''a b%''"
proof -
  have "standard_encode (\<lambda>c. c \<in> set encoded_chars) ''a b%'' = ''a%20b%25''" by code_simp
  moreover have "CHR ''%'' \<in> set encoded_chars" by code_simp
  from percent_decode_standard [of "\<lambda>c. c \<in> set encoded_chars", OF this, of "''a b%''"]
  have "percent_decode (standard_encode (\<lambda>c. c \<in> set encoded_chars) ''a b%'') = Returns ''a b%''" .
  ultimately show ?thesis by simp
qed

definition garbled :: "char \<Rightarrow> char" where
  "garbled c =
     (if c \<in> set encoded_chars then
        let n = of_char c :: nat in char_of (int (16 * (n div 10) + n mod 10))
      else c)"

lemma encoded_char:
  "c \<in> set encoded_chars \<Longrightarrow>
   stoi_16 (int_to_string (char_code c)) = Returns (int (16 * (of_char c div 10) + of_char c mod 10)) \<and>
   length (int_to_string (char_code c)) = 2 \<and> garbled c \<noteq> c"
proof -
  have "list_all (\<lambda>c. stoi_16 (int_to_string (char_code c)) = Returns (int (16 * (of_char c div 10) + of_char c mod 10)) \<and>
   length (int_to_string (char_code c)) = 2 \<and> garbled c \<noteq> c) encoded_chars" by code_simp
  moreover assume "c \<in> set encoded_chars"
  ultimately show ?thesis by (simp add: list_all_iff)
qed

text \<open>
  The encoder does not fit the decoder.  \<^verbatim>\<open>percent_encode\<close> writes the code of a character in
  decimal, which \<^verbatim>\<open>percent_decode\<close> reads in hexadecimal: decoding what was encoded gives a text in
  which every escaped character is replaced by another one, so that exactly the texts without such
  characters come back.
\<close>

theorem encode_then_decode:
  "percent_decode (percent_encode s) = Returns (map garbled s) \<and>
   (percent_decode (percent_encode s) = Returns s \<longleftrightarrow> set s \<inter> set encoded_chars = {})"
proof -
  have "decode_list (percent_encode s) = Returns (map garbled s)"
  proof (induction s)
    case (Cons c s)
    show ?case
    proof (cases "c \<in> set encoded_chars")
      case True
      note ec = encoded_char [OF True]
      have "percent_encode (c # s) = CHR ''%'' # int_to_string (char_code c) @ percent_encode s" using True by simp
      with decode_escape [OF conjunct1 [OF ec] conjunct1 [OF conjunct2 [OF ec]], of "percent_encode s"] Cons True
      show ?thesis by (simp add: garbled_def Let_def)
    next
      case False
      moreover have "CHR ''%'' \<in> set encoded_chars" by code_simp
      ultimately have "c \<noteq> CHR ''%''" by blast
      with False Cons show ?thesis by (simp add: garbled_def)
    qed
  qed simp
  moreover have "map garbled s = s \<longleftrightarrow> set s \<inter> set encoded_chars = {}"
  proof -
    have "garbled c = c \<longleftrightarrow> c \<notin> set encoded_chars" for c
      using encoded_char [of c] by (cases "c \<in> set encoded_chars") (auto simp: garbled_def)
    then show ?thesis by (induction s) auto
  qed
  ultimately show ?thesis by (simp add: percent_decode_list)
qed

theorem encode_then_decode_witness:
  "percent_decode (percent_encode ''a b'') = Returns ''a2b''"
proof -
  have "map garbled ''a b'' = ''a2b''" by code_simp
  with encode_then_decode [of "''a b''"] show ?thesis by simp
qed

section \<open>Facts: queries\<close>

lemma find_char_at:
  "find_char (pre @ xs) c (length pre) = map_option ((+) (length pre)) (find_index (\<lambda>x. x = c) xs)"
  by (simp add: find_char_def)

lemma size_minus_eq: "b \<le> a \<Longrightarrow> a < 2 ^ 64 \<Longrightarrow> size_minus a b = a - b"
proof -
  assume ab: "b \<le> a" "a < 2 ^ 64"
  then have a: "unat (word_of_nat a :: 64 word) = a" and b: "unat (word_of_nat b :: 64 word) = b"
    by (simp_all add: unsigned_of_nat take_bit_nat_eq_self)
  then have "(word_of_nat b :: 64 word) \<le> word_of_nat a" using ab by (simp add: word_le_nat_alt)
  with a b show ?thesis by (simp add: size_minus_def unat_sub)
qed

lemma unat_negative:
  assumes "0 < m" and "m < 2 ^ 64"
  shows "unat (- word_of_nat m :: 64 word) = 2 ^ 64 - m"
proof -
  have "(word_of_nat (2 ^ 64 - m) :: 64 word) = word_of_nat (2 ^ 64) - word_of_nat m"
    using assms(2) by (intro of_nat_diff) simp
  moreover have "(word_of_nat (2 ^ 64) :: 64 word) = 0" by simp
  ultimately have "(- word_of_nat m :: 64 word) = word_of_nat (2 ^ 64 - m)" by simp
  moreover have "unat (word_of_nat (2 ^ 64 - m) :: 64 word) = 2 ^ 64 - m"
    using assms(1) by (simp add: unsigned_of_nat take_bit_nat_eq_self)
  ultimately show ?thesis by simp
qed

fun print_query :: "(string \<times> string) list \<Rightarrow> string" where
  "print_query [] = ''''"
| "print_query [(k, v)] = k @ CHR ''='' # v"
| "print_query ((k, v) # ps) = k @ CHR ''='' # v @ CHR ''&'' # print_query ps"

lemma searchpart_end: "length s \<le> i \<Longrightarrow> searchpart_loop s i query = Returns query"
  by (subst searchpart_loop.simps) (auto simp: find_char_def)

lemma searchpart_pair:
  assumes s: "s = pre @ k @ CHR ''='' # v @ rest" and len: "length s < 2 ^ 64"
    and k: "CHR ''='' \<notin> set k" "CHR ''&'' \<notin> set k" and v: "CHR ''&'' \<notin> set v"
    and rest: "rest = [] \<or> (\<exists>r. rest = CHR ''&'' # r)"
  shows "searchpart_loop s (length pre) query =
    searchpart_loop s (length pre + length k + length v + 2) (smap_set query k v)"
proof -
  have eq: "find_char s CHR ''='' (length pre) = Some (length pre + length k)"
    using k(1) unfolding s find_char_at by (subst find_index_append_hit) auto
  have amp: "(case find_char s CHR ''&'' (length pre) of None \<Rightarrow> length s | Some p \<Rightarrow> p) = length pre + length k + length v + 1"
  proof (cases "rest = []")
    case True
    then have "find_index (\<lambda>x. x = CHR ''&'') (k @ CHR ''='' # v @ rest) = None"
      using k(2) v by (auto simp: find_index_None_iff)
    then show ?thesis using True unfolding s find_char_at by simp
  next
    case False
    with rest obtain r where r: "rest = CHR ''&'' # r" by blast
    have "find_index (\<lambda>x. x = CHR ''&'') ((k @ CHR ''='' # v) @ CHR ''&'' # r) = Some (length (k @ CHR ''='' # v))"
      using k(2) v by (intro find_index_append_hit) auto
    then show ?thesis unfolding s find_char_at r by simp
  qed
  have sizes: "size_minus (length pre + length k) (length pre) = length k"
    "size_minus (Suc (length pre + length k + length v)) (length pre + length k) = Suc (length v)"
    "size_minus (Suc (length v)) (Suc 0) = length v"
    using len by (simp_all add: s size_minus_eq)
  have "substr s (length pre) (length k) = Returns k"
    and "substr s (length pre + length k + 1) (length v) = Returns v"
    by (simp_all add: s substr_def)
  then show ?thesis
    by (subst searchpart_loop.simps) (simp add: eq amp sizes Let_def)
qed

lemma searchpart_print:
  "s = pre @ print_query ps \<Longrightarrow> length s < 2 ^ 64 \<Longrightarrow> ps \<noteq> [] \<Longrightarrow>
   \<forall>(k, v) \<in> set ps. CHR ''='' \<notin> set k \<and> CHR ''&'' \<notin> set k \<and> CHR ''&'' \<notin> set v \<Longrightarrow>
   searchpart_loop s (length pre) query = Returns (foldl (\<lambda>m (k, v). smap_set m k v) query ps)"
proof (induction ps arbitrary: pre query rule: print_query.induct)
  case (2 k v)
  from searchpart_pair [of s pre k v "[]" query] 2 show ?case
    by (simp add: searchpart_end)
next
  case (3 k v p ps)
  let ?pre = "pre @ k @ CHR ''='' # v @ [CHR ''&'']"
  have s: "s = ?pre @ print_query (p # ps)" using 3(2) by simp
  have "searchpart_loop s (length ?pre) (smap_set query k v) =
      Returns (foldl (\<lambda>m (k, v). smap_set m k v) (smap_set query k v) (p # ps))"
    by (rule "3.IH" [OF s 3(3)]) (use 3(5) in auto)
  moreover have "searchpart_loop s (length pre) query =
      searchpart_loop s (length pre + length k + length v + 2) (smap_set query k v)"
    by (rule searchpart_pair [where rest = "CHR ''&'' # print_query (p # ps)"]) (use 3(2,3,5) in auto)
  moreover have "length ?pre = length pre + length k + length v + 2" by simp
  ultimately show ?case by (simp only: foldl.simps prod.case)
qed simp

lemma path_question:
  "CHR ''?'' \<notin> set p \<Longrightarrow> path (p @ CHR ''?'' # q) = Returns p"
proof -
  assume "CHR ''?'' \<notin> set p"
  then have "find_index (\<lambda>x. x = CHR ''?'') (p @ CHR ''?'' # q) = Some (length p)"
    by (intro find_index_append_hit) auto
  then show ?thesis by (simp add: path_def find_char_def substr_def)
qed

text \<open>
  C26. Queries are read back.  A path without a question mark, followed by one and by pairs of a key and
  a value with equality signs between and ampersands around them, is split into that path and the map of
  the pairs, a later pair with the same key replacing an earlier one.  Keys have neither sign in them;
  values have no ampersand and may have equality signs.
\<close>

theorem query_roundtrip:
  assumes "CHR ''?'' \<notin> set p"
    and "\<forall>(k, v) \<in> set ps. CHR ''='' \<notin> set k \<and> CHR ''&'' \<notin> set k \<and> CHR ''&'' \<notin> set v"
    and "length (p @ CHR ''?'' # print_query ps) < 2 ^ 64"
  shows "from_string (p @ CHR ''?'' # print_query ps) =
    Returns (Inr \<lparr>url_path = p, url_query = foldl (\<lambda>m (k, v). smap_set m k v) [] ps\<rparr>)"
proof -
  let ?s = "p @ CHR ''?'' # print_query ps"
  have "searchpart ?s (length p + 1) = Returns (foldl (\<lambda>m (k, v). smap_set m k v) [] ps)"
  proof (cases "ps = []")
    case True
    then show ?thesis by (simp add: searchpart_def searchpart_end)
  next
    case False
    with searchpart_print [of ?s "p @ ''?''" ps "[]"] assms(2,3) show ?thesis
      by (simp add: searchpart_def)
  qed
  then show ?thesis using assms(1) by (simp add: from_string_def path_question)
qed

theorem query_roundtrip_witness:
  "from_string ''/search?q=a=b&lang=en&q=c'' =
     Returns (Inr \<lparr>url_path = ''/search'', url_query = [(''lang'', ''en''), (''q'', ''c'')]\<rparr>)"
proof -
  have q: "''/search'' @ CHR ''?'' # print_query [(''q'', ''a=b''), (''lang'', ''en''), (''q'', ''c'')] =
      ''/search?q=a=b&lang=en&q=c''" by simp
  have "foldl (\<lambda>m (k, v). smap_set m k v) [] [(''q'', ''a=b''), (''lang'', ''en''), (''q'', ''c'')] =
      [(''lang'', ''en''), (''q'', ''c'')]" by code_simp
  with query_roundtrip [of "''/search''" "[(''q'', ''a=b''), (''lang'', ''en''), (''q'', ''c'')]", unfolded q]
  show ?thesis by simp
qed

text \<open>
  A key without a value takes the rest.  When a piece without an equality sign comes before a pair,
  the first equality sign found lies behind the ampersand: the key read is the piece, the ampersand and
  the pair's key, the length of the value wraps around below zero, and the value is everything up to the
  end of the text; after that the pair is read once more.
\<close>

theorem flag_swallows_pair:
  assumes "CHR ''?'' \<notin> set p" and "CHR ''='' \<notin> set f" and "CHR ''&'' \<notin> set f"
    and "CHR ''='' \<notin> set k" and "CHR ''&'' \<notin> set k" and "CHR ''&'' \<notin> set v"
    and "length (p @ CHR ''?'' # f @ CHR ''&'' # k @ CHR ''='' # v) < 2 ^ 63"
  shows "from_string (p @ CHR ''?'' # f @ CHR ''&'' # k @ CHR ''='' # v) =
    Returns (Inr \<lparr>url_path = p, url_query = smap_set (smap_set [] (f @ CHR ''&'' # k) v) k v\<rparr>)"
proof -
  let ?s = "p @ CHR ''?'' # f @ CHR ''&'' # k @ CHR ''='' # v"
  let ?pre = "p @ ''?''"
  let ?i = "length ?pre" and ?amp = "length p + 1 + length f" and ?eq = "length p + 2 + length f + length k"
  have s: "?s = ?pre @ f @ CHR ''&'' # k @ CHR ''='' # v" by simp
  have eq: "find_char ?s CHR ''='' ?i = Some ?eq"
  proof -
    have "find_index (\<lambda>x. x = CHR ''='') ((f @ CHR ''&'' # k) @ CHR ''='' # v) = Some (length (f @ CHR ''&'' # k))"
      using assms(2,4) by (intro find_index_append_hit) auto
    then show ?thesis unfolding s find_char_at by simp
  qed
  have amp: "find_char ?s CHR ''&'' ?i = Some ?amp"
  proof -
    have "find_index (\<lambda>x. x = CHR ''&'') (f @ CHR ''&'' # k @ CHR ''='' # v) = Some (length f)"
      using assms(3) by (intro find_index_append_hit) auto
    then show ?thesis unfolding s find_char_at by simp
  qed
  have key: "size_minus ?eq ?i = length (f @ CHR ''&'' # k)" using assms(7) by (simp add: size_minus_eq)
  have wrap: "length v \<le> size_minus (size_minus ?amp ?eq) 1"
  proof -
    let ?d = "length k + 1"
    have d: "?d + 1 < 2 ^ 63" "length v < 2 ^ 63" using assms(7) by simp_all
    have "(word_of_nat ?amp - word_of_nat ?eq :: 64 word) = - word_of_nat ?d" by simp
    then have "(word_of_nat (size_minus ?amp ?eq) - 1 :: 64 word) = - word_of_nat (?d + 1)"
      by (simp add: size_minus_def)
    moreover have "unat (- word_of_nat (?d + 1) :: 64 word) = 2 ^ 64 - (?d + 1)"
      using d(1) by (intro unat_negative) simp_all
    ultimately have "size_minus (size_minus ?amp ?eq) 1 = 2 ^ 64 - (?d + 1)"
      by (simp add: size_minus_def)
    with d show ?thesis by simp
  qed
  have "?s = (p @ CHR ''?'' # f @ CHR ''&'' # k @ ''='') @ v"
    and "length (p @ CHR ''?'' # f @ CHR ''&'' # k @ ''='') = ?eq + 1" by simp_all
  then have rest: "drop (?eq + 1) ?s = v" by (metis append_eq_conv_conj)
  have sub: "substr ?s ?i (length (f @ CHR ''&'' # k)) = Returns (f @ CHR ''&'' # k)" by (simp add: substr_def)
  have "?eq + 1 \<le> length ?s" by simp
  then have sub2: "substr ?s (?eq + 1) (size_minus (size_minus ?amp ?eq) 1) = Returns v"
    unfolding substr_def rest using wrap by simp
  have "searchpart_loop ?s ?i [] = searchpart_loop ?s (?amp + 1) (smap_set [] (f @ CHR ''&'' # k) v)"
    by (subst searchpart_loop.simps) (simp add: eq [simplified] amp [simplified] key [simplified] sub [simplified] sub2 [simplified] Let_def)
  also have "\<dots> = Returns (smap_set (smap_set [] (f @ CHR ''&'' # k) v) k v)"
    using searchpart_print [of ?s "p @ CHR ''?'' # f @ ''&''" "[(k, v)]" "smap_set [] (f @ CHR ''&'' # k) v"] assms
    by simp
  finally show ?thesis using assms(1) by (simp add: from_string_def path_question searchpart_def)
qed

theorem flag_swallows_pair_witness:
  "from_string ''/a?debug&x=1'' =
     Returns (Inr \<lparr>url_path = ''/a'', url_query = [(''debug&x'', ''1''), (''x'', ''1'')]\<rparr>)"
proof -
  have "smap_set (smap_set [] (''debug'' @ CHR ''&'' # ''x'') ''1'') ''x'' ''1'' = [(''debug&x'', ''1''), (''x'', ''1'')]"
    by code_simp
  with flag_swallows_pair [of "''/a''" "''debug''" "''x''" "''1''"] show ?thesis by simp
qed

end
