(* ===== verification/Headers.thy ===== *)
theory Headers
  imports Request_Roundtrip
begin

text \<open>
  \<^verbatim>\<open>include/simpleserv/http/headers.hpp\<close>: the names of the header fields, and the tables of them.  The
  facts confront the names with the header lines the request parser accepts.
\<close>

section \<open>Fields\<close>

datatype field_type = String_field

record header_field =
  hf_name :: string
  hf_field :: field_type

definition CacheControl :: header_field where
  "CacheControl = \<lparr>hf_name = ''Cache-Control'', hf_field = String_field\<rparr>"

definition Connection :: header_field where
  "Connection = \<lparr>hf_name = ''Connection'', hf_field = String_field\<rparr>"

definition Date :: header_field where
  "Date = \<lparr>hf_name = ''Date'', hf_field = String_field\<rparr>"

definition Pragma :: header_field where
  "Pragma = \<lparr>hf_name = ''Pragma'', hf_field = String_field\<rparr>"

definition Trailer :: header_field where
  "Trailer = \<lparr>hf_name = ''Trailer'', hf_field = String_field\<rparr>"

definition TransferEncoding :: header_field where
  "TransferEncoding = \<lparr>hf_name = ''Transfer-Encoding'', hf_field = String_field\<rparr>"

definition Upgrade :: header_field where
  "Upgrade = \<lparr>hf_name = ''Upgrade'', hf_field = String_field\<rparr>"

definition Via :: header_field where
  "Via = \<lparr>hf_name = ''Via'', hf_field = String_field\<rparr>"

definition Warning :: header_field where
  "Warning = \<lparr>hf_name = ''Warning'', hf_field = String_field\<rparr>"

definition Accept :: header_field where
  "Accept = \<lparr>hf_name = ''Accept'', hf_field = String_field\<rparr>"

definition AcceptCharset :: header_field where
  "AcceptCharset = \<lparr>hf_name = ''Accept-Charset'', hf_field = String_field\<rparr>"

definition AcceptEncoding :: header_field where
  "AcceptEncoding = \<lparr>hf_name = ''Accept-Encoding'', hf_field = String_field\<rparr>"

definition AcceptLanguage :: header_field where
  "AcceptLanguage = \<lparr>hf_name = ''Accept-Language'', hf_field = String_field\<rparr>"

definition Authorization :: header_field where
  "Authorization = \<lparr>hf_name = ''Authorization'', hf_field = String_field\<rparr>"

definition Expect :: header_field where
  "Expect = \<lparr>hf_name = ''Expect'', hf_field = String_field\<rparr>"

definition From :: header_field where
  "From = \<lparr>hf_name = ''From'', hf_field = String_field\<rparr>"

definition Host :: header_field where
  "Host = \<lparr>hf_name = ''Host'', hf_field = String_field\<rparr>"

definition IfMatch :: header_field where
  "IfMatch = \<lparr>hf_name = ''If-Match'', hf_field = String_field\<rparr>"

definition IfModifiedSince :: header_field where
  "IfModifiedSince = \<lparr>hf_name = ''If-Modified-Since'', hf_field = String_field\<rparr>"

definition IfNoneMatch :: header_field where
  "IfNoneMatch = \<lparr>hf_name = ''If-None-Match '', hf_field = String_field\<rparr>"

definition IfRange :: header_field where
  "IfRange = \<lparr>hf_name = ''If-Range'', hf_field = String_field\<rparr>"

definition IfUnmodifiedSince :: header_field where
  "IfUnmodifiedSince = \<lparr>hf_name = ''If-Unmodified-Since'', hf_field = String_field\<rparr>"

definition MaxForwards :: header_field where
  "MaxForwards = \<lparr>hf_name = ''Max-Forwards'', hf_field = String_field\<rparr>"

definition ProxyAuthorization :: header_field where
  "ProxyAuthorization = \<lparr>hf_name = ''Proxy-Authorization'', hf_field = String_field\<rparr>"

definition Range_header :: header_field where
  "Range_header = \<lparr>hf_name = ''Range'', hf_field = String_field\<rparr>"

definition Referer :: header_field where
  "Referer = \<lparr>hf_name = ''Referer'', hf_field = String_field\<rparr>"

definition TE :: header_field where
  "TE = \<lparr>hf_name = ''TE'', hf_field = String_field\<rparr>"

definition UserAgent :: header_field where
  "UserAgent = \<lparr>hf_name = ''User-Agent'', hf_field = String_field\<rparr>"

definition AcceptRanges :: header_field where
  "AcceptRanges = \<lparr>hf_name = ''Accept-Ranges'', hf_field = String_field\<rparr>"

definition Age :: header_field where
  "Age = \<lparr>hf_name = ''Age'', hf_field = String_field\<rparr>"

definition ETag :: header_field where
  "ETag = \<lparr>hf_name = ''ETag'', hf_field = String_field\<rparr>"

definition Location :: header_field where
  "Location = \<lparr>hf_name = ''Date'', hf_field = String_field\<rparr>"

definition ProxyAuthenticate :: header_field where
  "ProxyAuthenticate = \<lparr>hf_name = ''Proxy-Authenticate'', hf_field = String_field\<rparr>"

definition RetryAfter :: header_field where
  "RetryAfter = \<lparr>hf_name = ''Retry-After'', hf_field = String_field\<rparr>"

definition Server :: header_field where
  "Server = \<lparr>hf_name = ''Server'', hf_field = String_field\<rparr>"

definition Vary :: header_field where
  "Vary = \<lparr>hf_name = ''Vary'', hf_field = String_field\<rparr>"

definition WWWAuthenticate :: header_field where
  "WWWAuthenticate = \<lparr>hf_name = ''WWW-Authenticate'', hf_field = String_field\<rparr>"

definition Allow :: header_field where
  "Allow = \<lparr>hf_name = ''Allow'', hf_field = String_field\<rparr>"

definition ContentEncoding :: header_field where
  "ContentEncoding = \<lparr>hf_name = ''Content-Encoding'', hf_field = String_field\<rparr>"

definition ContentLanguage :: header_field where
  "ContentLanguage = \<lparr>hf_name = ''Content-Language'', hf_field = String_field\<rparr>"

definition ContentLength :: header_field where
  "ContentLength = \<lparr>hf_name = ''Content-Length'', hf_field = String_field\<rparr>"

definition ContentLocation :: header_field where
  "ContentLocation = \<lparr>hf_name = ''Content-Location'', hf_field = String_field\<rparr>"

definition ContentMD5 :: header_field where
  "ContentMD5 = \<lparr>hf_name = ''Content-MD5'', hf_field = String_field\<rparr>"

definition ContentRange :: header_field where
  "ContentRange = \<lparr>hf_name = ''Content-Range'', hf_field = String_field\<rparr>"

definition ContentType :: header_field where
  "ContentType = \<lparr>hf_name = ''Content-Type'', hf_field = String_field\<rparr>"

definition Expires :: header_field where
  "Expires = \<lparr>hf_name = ''Expires'', hf_field = String_field\<rparr>"

definition LastModified :: header_field where
  "LastModified = \<lparr>hf_name = ''Last-Modified'', hf_field = String_field\<rparr>"

section \<open>Tables\<close>

definition general_headers :: "header_field list" where
  "general_headers =
     [CacheControl,
      Connection,
      Date,
      Pragma,
      Trailer,
      TransferEncoding,
      Upgrade,
      Via,
      Warning]"

definition request_headers :: "header_field list" where
  "request_headers =
     [Accept,
      AcceptCharset,
      AcceptEncoding,
      AcceptLanguage,
      Authorization,
      Expect,
      From,
      IfMatch,
      IfModifiedSince,
      IfNoneMatch,
      IfRange,
      IfUnmodifiedSince,
      MaxForwards,
      ProxyAuthorization,
      Range_header,
      Referer,
      TE,
      UserAgent]"

definition response_headers :: "header_field list" where
  "response_headers =
     [AcceptRanges,
      Age,
      ETag,
      Location,
      ProxyAuthenticate,
      RetryAfter,
      Server,
      Vary,
      WWWAuthenticate]"

definition entity_headers :: "header_field list" where
  "entity_headers =
     [Allow,
      ContentEncoding,
      ContentLanguage,
      ContentLength,
      ContentLocation,
      ContentMD5,
      ContentRange,
      ContentType,
      Expires,
      LastModified]"

text \<open>All constants of the file, in its order.\<close>

definition all_headers :: "header_field list" where
  "all_headers =
     [CacheControl,
      Connection,
      Date,
      Pragma,
      Trailer,
      TransferEncoding,
      Upgrade,
      Via,
      Warning,
      Accept,
      AcceptCharset,
      AcceptEncoding,
      AcceptLanguage,
      Authorization,
      Expect,
      From,
      Host,
      IfMatch,
      IfModifiedSince,
      IfNoneMatch,
      IfRange,
      IfUnmodifiedSince,
      MaxForwards,
      ProxyAuthorization,
      Range_header,
      Referer,
      TE,
      UserAgent,
      AcceptRanges,
      Age,
      ETag,
      Location,
      ProxyAuthenticate,
      RetryAfter,
      Server,
      Vary,
      WWWAuthenticate,
      Allow,
      ContentEncoding,
      ContentLanguage,
      ContentLength,
      ContentLocation,
      ContentMD5,
      ContentRange,
      ContentType,
      Expires,
      LastModified]"

section \<open>Facts\<close>

lemmas header_defs =
  CacheControl_def Connection_def Date_def Pragma_def Trailer_def TransferEncoding_def Upgrade_def Via_def Warning_def
  Accept_def AcceptCharset_def AcceptEncoding_def AcceptLanguage_def Authorization_def Expect_def From_def Host_def
  IfMatch_def IfModifiedSince_def IfNoneMatch_def IfRange_def IfUnmodifiedSince_def MaxForwards_def
  ProxyAuthorization_def Range_header_def Referer_def TE_def UserAgent_def
  AcceptRanges_def Age_def ETag_def Location_def ProxyAuthenticate_def RetryAfter_def Server_def Vary_def WWWAuthenticate_def
  Allow_def ContentEncoding_def ContentLanguage_def ContentLength_def ContentLocation_def ContentMD5_def ContentRange_def
  ContentType_def Expires_def LastModified_def

lemma header_names_ok: "h \<in> set all_headers \<Longrightarrow> h \<noteq> IfNoneMatch \<Longrightarrow> field_key_ok (hf_name h)"
proof -
  have "list_all (\<lambda>h. h = IfNoneMatch \<or> list_all (\<lambda>c. c \<noteq> SP \<and> \<not> is_crlf_char c) (hf_name h)) all_headers"
    by code_simp
  then show "h \<in> set all_headers \<Longrightarrow> h \<noteq> IfNoneMatch \<Longrightarrow> field_key_ok (hf_name h)"
    by (auto simp: list_all_iff field_key_ok_def)
qed

lemma smap_entries_set: "set (smap_set m k v) \<subseteq> insert (k, v) (set m)"
  by (induction m k v rule: smap_set.induct) auto

lemma request_ok_SetHeader:
  assumes "request_ok r" and "field_key_ok k" and "field_value_ok v"
  shows "request_ok (SetHeader k v r)"
proof -
  from assms smap_entries_set [of "msg_headers r" k v]
  have "\<forall>(k', v') \<in> set (smap_set (msg_headers r) k v). field_key_ok k' \<and> field_value_ok v'"
    by (auto simp: request_ok_def fields_ok_def)
  with assms show ?thesis
    by (simp add: request_ok_def fields_ok_def SetHeader_def smap_ok_set)
qed

text \<open>
  The header constants and the parser.  A field set under the name of any constant, in a
  well-formed request that is printed and parsed, is found again under that name, with one exception:
  the name of \<open>IfNoneMatch\<close> ends with a space, and no accepted request has a field of that name.
\<close>

theorem header_constants_parse:
  "(parse_http_request s = Returns (Inr r) \<longrightarrow> smap_get (msg_headers r) (hf_name IfNoneMatch) = None) \<and>
   (h \<in> set all_headers \<and> h \<noteq> IfNoneMatch \<and> request_ok r0 \<and> field_value_ok v \<longrightarrow>
     (\<exists>r'. obind (print_request (SetHeader (hf_name h) v r0)) parse_http_request = Returns (Inr r') \<and>
        smap_get (msg_headers r') (hf_name h) = Some v))"
proof (intro conjI impI)
  assume "parse_http_request s = Returns (Inr r)"
  then have "fields_ok r" using accepted_fields_ok by blast
  moreover have "\<not> field_key_ok (hf_name IfNoneMatch)" by (simp add: IfNoneMatch_def field_key_ok_def)
  ultimately show "smap_get (msg_headers r) (hf_name IfNoneMatch) = None"
    by (cases "smap_get (msg_headers r) (hf_name IfNoneMatch)") (auto simp: fields_ok_def dest: map_of_SomeD)
next
  assume *: "h \<in> set all_headers \<and> h \<noteq> IfNoneMatch \<and> request_ok r0 \<and> field_value_ok v"
  then have "request_ok (SetHeader (hf_name h) v r0)"
    by (intro request_ok_SetHeader) (simp_all add: header_names_ok)
  from roundtrip [OF this] show "\<exists>r'. obind (print_request (SetHeader (hf_name h) v r0)) parse_http_request = Returns (Inr r') \<and>
        smap_get (msg_headers r') (hf_name h) = Some v" by simp
qed

theorem header_constants_parse_witness:
  "\<exists>r. obind (print_request (SetHeader (hf_name ETag) ''v1'' sample_request)) parse_http_request = Returns (Inr r) \<and>
     smap_get (msg_headers r) ''ETag'' = Some ''v1'' \<and> smap_get (msg_headers r) (hf_name IfNoneMatch) = None"
proof -
  have e: "ETag \<in> set all_headers" "ETag \<noteq> IfNoneMatch" "field_value_ok ''v1''" "hf_name ETag = ''ETag''"
    by (simp_all add: all_headers_def header_defs field_value_ok_def)
  obtain t where t: "print_request (SetHeader (hf_name ETag) ''v1'' sample_request) = Returns t"
    using roundtrip [OF request_ok_SetHeader [OF sample_request_ok header_names_ok [OF e(1,2)] e(3)]]
    unfolding obind_eq_Returns by blast
  from header_constants_parse [of t _ ETag sample_request "''v1''"] e sample_request_ok t
  show ?thesis by auto
qed

text \<open>
  Two constants have one name.  The constant for \<open>Location\<close> has the name of \<open>Date\<close>; the 47
  constants have 46 names, so there is no other such pair.  Setting one sets the other, and a response
  with a location is printed with a line for the date.  The four tables list all constants, each once,
  but for \<open>Host\<close>.
\<close>

theorem location_is_date:
  "length all_headers = 47 \<and> length (remdups (map hf_name all_headers)) = 46 \<and>
   SetHeader (hf_name Location) v m = SetHeader (hf_name Date) v m \<and>
   print_response (SetHeader (hf_name Location) v (HTTPResponse OK HTTP_1_1)) =
     Returns (''HTTP/1.1 200 OK'' @ CRLF @ ''Date: '' @ v @ CRLF @ CRLF) \<and>
   length (general_headers @ request_headers @ response_headers @ entity_headers) = 46 \<and>
   set (map hf_name all_headers) =
     insert (hf_name Host) (set (map hf_name (general_headers @ request_headers @ response_headers @ entity_headers)))"
proof (intro conjI)
  show "length all_headers = 47" "length (remdups (map hf_name all_headers)) = 46"
    "length (general_headers @ request_headers @ response_headers @ entity_headers) = 46"
    "set (map hf_name all_headers) =
     insert (hf_name Host) (set (map hf_name (general_headers @ request_headers @ response_headers @ entity_headers)))"
    by code_simp+
  show "SetHeader (hf_name Location) v m = SetHeader (hf_name Date) v m" by (simp add: Location_def Date_def)
  show "print_response (SetHeader (hf_name Location) v (HTTPResponse OK HTTP_1_1)) =
     Returns (''HTTP/1.1 200 OK'' @ CRLF @ ''Date: '' @ v @ CRLF @ CRLF)"
    by (simp add: print_response_def SetHeader_def HTTPResponse_def array_at_def HTTP_VERSION_STRINGS_def
        print_header_def Location_def)
qed

end
