(* ===== verification/RequestHandlers.thy ===== *)
theory RequestHandlers
  imports Request_Roundtrip
begin

text \<open>
  \<^verbatim>\<open>include/simpleserv/http/request_handler.hpp\<close> and \<^verbatim>\<open>src/simpleserv/http/request_handler.cpp\<close>: the
  functions that answer a request of each method through a handler the client supplies.  A handler is an
  argument: a function of its arguments and of a state of its own, which may throw.
\<close>

section \<open>Results and handlers\<close>

datatype get_result_state = GET_OK | GET_NOT_FOUND | GET_ERROR | GET_MOVED_PERMANENTLY

record get_result =
  get_state :: get_result_state
  get_body :: string

record get_conditionals =
  modified_since :: "string option"
  unmodified_since :: "string option"
  match :: "string option"
  none_match :: "string option"

datatype post_result_state = POST_OK | POST_CREATED | POST_NO_CONTENT | POST_SEE_OTHER | POST_ERROR

record post_result =
  post_state :: post_result_state
  post_body :: string

datatype put_result = PUT_OK | PUT_NOT_FOUND | PUT_ERROR | PUT_MOVED_PERMANENTLY | PUT_UNIMPLEMENTED

datatype delete_result = DELETED | DELETE_ACCEPTED | DELETE_NOT_FOUND | DELETE_ERROR

type_synonym ('a, 's) handler = "'s \<Rightarrow> ('a \<times> 's) outcome"

section \<open>The functions of the source\<close>

definition options_request :: "http_request \<Rightarrow> http_response" where
  "options_request request =
     (let response = HTTPResponse OK HTTP_1_1
      in if req_path request = ''*''
         then SetHeader ''Allow'' ''GET, HEAD, POST, PUT, DELETE, TRACE, OPTIONS'' response
         else response)"

definition find_if_exists :: "strmap \<Rightarrow> string \<Rightarrow> string option" where
  "find_if_exists m key = smap_get m key"

definition request_conditionals :: "strmap \<Rightarrow> get_conditionals" where
  "request_conditionals headers =
     \<lparr>modified_since = find_if_exists headers ''If-Modified-Since'',
      unmodified_since = find_if_exists headers ''If-Unmodified-Since'',
      match = find_if_exists headers ''If-Match'',
      none_match = find_if_exists headers ''If-None-Match''\<rparr>"

definition get_response :: "get_result \<Rightarrow> http_response" where
  "get_response result =
     (case get_state result of
        GET_OK \<Rightarrow> SetContent (get_body result) (HTTPResponse OK HTTP_1_1)
      | GET_NOT_FOUND \<Rightarrow> HTTPResponse NOT_FOUND HTTP_1_1
      | GET_ERROR \<Rightarrow> HTTPResponse INTERNAL_SERVER_ERROR HTTP_1_1
      | GET_MOVED_PERMANENTLY \<Rightarrow> HTTPResponse MOVED_PERMANENTLY HTTP_1_1)"

definition get_request ::
  "(string \<Rightarrow> get_conditionals \<Rightarrow> (get_result, 's) handler) \<Rightarrow> http_request \<Rightarrow> (http_response, 's) handler" where
  "get_request handler_get request s =
     obind (handler_get (req_path request) (request_conditionals (msg_headers request)) s) (\<lambda>(result, s').
       Returns (get_response result, s'))"

definition head_request ::
  "(string \<Rightarrow> (strmap, 's) handler) \<Rightarrow> http_request \<Rightarrow> (http_response, 's) handler" where
  "head_request handler_head request s =
     obind (handler_head (req_path request) s) (\<lambda>(result, s').
       Returns (foldl (\<lambda>response (key, val). SetHeader key val response) (HTTPResponse OK HTTP_1_1) result, s'))"

definition post_response :: "post_result \<Rightarrow> http_response" where
  "post_response result =
     (case post_state result of
        POST_OK \<Rightarrow> SetContent (post_body result) (HTTPResponse OK HTTP_1_1)
      | POST_CREATED \<Rightarrow> SetContent (post_body result) (HTTPResponse CREATED HTTP_1_1)
      | POST_NO_CONTENT \<Rightarrow> HTTPResponse NO_CONTENT HTTP_1_1
      | POST_SEE_OTHER \<Rightarrow> HTTPResponse SEE_OTHER HTTP_1_1
      | POST_ERROR \<Rightarrow> HTTPResponse INTERNAL_SERVER_ERROR HTTP_1_1)"

definition post_request ::
  "(string \<Rightarrow> string \<Rightarrow> (post_result, 's) handler) \<Rightarrow> http_request \<Rightarrow> (http_response, 's) handler" where
  "post_request handler_post request s =
     obind (handler_post (req_path request) (msg_body request) s) (\<lambda>(result, s').
       Returns (post_response result, s'))"

definition put_response :: "put_result \<Rightarrow> http_response" where
  "put_response result =
     (case result of
        PUT_OK \<Rightarrow> HTTPResponse OK HTTP_1_1
      | PUT_NOT_FOUND \<Rightarrow> HTTPResponse NOT_FOUND HTTP_1_1
      | PUT_ERROR \<Rightarrow> HTTPResponse INTERNAL_SERVER_ERROR HTTP_1_1
      | PUT_MOVED_PERMANENTLY \<Rightarrow> HTTPResponse MOVED_PERMANENTLY HTTP_1_1
      | PUT_UNIMPLEMENTED \<Rightarrow> HTTPResponse NOT_IMPLEMENTED HTTP_1_1)"

definition put_request ::
  "(string \<Rightarrow> string \<Rightarrow> (put_result, 's) handler) \<Rightarrow> http_request \<Rightarrow> (http_response, 's) handler" where
  "put_request handler_put request s =
     obind (handler_put (req_path request) (msg_body request) s) (\<lambda>(result, s').
       Returns (put_response result, s'))"

definition delete_response :: "delete_result \<Rightarrow> http_response" where
  "delete_response result =
     (case result of
        DELETED \<Rightarrow> HTTPResponse OK HTTP_1_1
      | DELETE_ACCEPTED \<Rightarrow> HTTPResponse ACCEPTED HTTP_1_1
      | DELETE_NOT_FOUND \<Rightarrow> HTTPResponse NOT_FOUND HTTP_1_1
      | DELETE_ERROR \<Rightarrow> HTTPResponse INTERNAL_SERVER_ERROR HTTP_1_1)"

definition delete_request ::
  "(string \<Rightarrow> (delete_result, 's) handler) \<Rightarrow> http_request \<Rightarrow> (http_response, 's) handler" where
  "delete_request handler_del request s =
     obind (handler_del (req_path request) s) (\<lambda>(result, s').
       Returns (delete_response result, s'))"

definition trace_request :: "http_request \<Rightarrow> http_response" where
  "trace_request request = SetContent (msg_body request) (HTTPResponse OK HTTP_1_1)"

section \<open>Facts\<close>

lemma response_text:
  "response_to_string (HTTPResponse code HTTP_1_1) =
     Returns (''HTTP/1.1 '' @ status_code_to_string code @ CRLF @ CRLF)"
  "response_to_string (SetContent b (HTTPResponse code HTTP_1_1)) =
     Returns (''HTTP/1.1 '' @ status_code_to_string code @ CRLF @ CRLF @ b)"
  by (simp_all add: response_to_string_def print_response_def HTTPResponse_def SetContent_def array_at_def
      HTTP_VERSION_STRINGS_def)

text \<open>
  The text of the response to each result of a handler.  A resource that has moved permanently is answered with the
  number 300 and without a location; a body comes back from GET with 200, and from POST with 200 and 201.
\<close>

lemma get_texts:
  "response_to_string (get_response result) = Returns (''HTTP/1.1 '' @
    (case get_state result of
       GET_OK \<Rightarrow> ''200 OK'' @ CRLF @ CRLF @ get_body result
     | GET_NOT_FOUND \<Rightarrow> ''404 Not Found'' @ CRLF @ CRLF
     | GET_ERROR \<Rightarrow> ''500 Internal Server Error'' @ CRLF @ CRLF
     | GET_MOVED_PERMANENTLY \<Rightarrow> ''300 Moved Permanently'' @ CRLF @ CRLF))"
  by (cases "get_state result") (simp_all add: get_response_def response_text)

lemma post_texts:
  "response_to_string (post_response posted) = Returns (''HTTP/1.1 '' @
      (case post_state posted of
         POST_OK \<Rightarrow> ''200 OK'' @ CRLF @ CRLF @ post_body posted
       | POST_CREATED \<Rightarrow> ''201 Created'' @ CRLF @ CRLF @ post_body posted
       | POST_NO_CONTENT \<Rightarrow> ''204 No Content'' @ CRLF @ CRLF
       | POST_SEE_OTHER \<Rightarrow> ''303 See Other'' @ CRLF @ CRLF
       | POST_ERROR \<Rightarrow> ''500 Internal Server Error'' @ CRLF @ CRLF))"
  by (cases "post_state posted") (simp_all add: post_response_def response_text)

lemma put_texts:
  "response_to_string (put_response stored) = Returns (''HTTP/1.1 '' @
      (case stored of
         PUT_OK \<Rightarrow> ''200 OK'' | PUT_NOT_FOUND \<Rightarrow> ''404 Not Found'' | PUT_ERROR \<Rightarrow> ''500 Internal Server Error''
       | PUT_MOVED_PERMANENTLY \<Rightarrow> ''300 Moved Permanently'' | PUT_UNIMPLEMENTED \<Rightarrow> ''501 Not Implemented'') @ CRLF @ CRLF)"
  by (cases stored) (simp_all add: put_response_def response_text)

lemma delete_texts:
  "response_to_string (delete_response deleted) = Returns (''HTTP/1.1 '' @
      (case deleted of
         DELETED \<Rightarrow> ''200 OK'' | DELETE_ACCEPTED \<Rightarrow> ''202 Accepted'' | DELETE_NOT_FOUND \<Rightarrow> ''404 Not Found''
       | DELETE_ERROR \<Rightarrow> ''500 Internal Server Error'') @ CRLF @ CRLF)"
  by (cases deleted) (simp_all add: delete_response_def response_text)

text \<open>TRACE returns the body of the request, not the request.\<close>

lemma trace_text: "response_to_string (trace_request r) = Returns (''HTTP/1.1 200 OK'' @ CRLF @ CRLF @ msg_body r)"
  by (simp add: trace_request_def response_text)

text \<open>A GET handler is given a conditional field exactly when the request has a field of that name.\<close>

lemma get_request_fields:
  "handler_get (req_path r)
        \<lparr>modified_since = smap_get (msg_headers r) ''If-Modified-Since'',
         unmodified_since = smap_get (msg_headers r) ''If-Unmodified-Since'',
         match = smap_get (msg_headers r) ''If-Match'',
         none_match = smap_get (msg_headers r) ''If-None-Match''\<rparr> s = Returns (result, s') \<Longrightarrow>
   get_request handler_get r s = Returns (get_response result, s')"
  by (simp add: get_request_def request_conditionals_def find_if_exists_def)

text \<open>The answer to HEAD has the fields of the handler's map, in key order, and no body.\<close>

lemma head_headers:
  "smap_ok m \<Longrightarrow>
   foldl (\<lambda>response (key, val). SetHeader key val response) (HTTPResponse OK HTTP_1_1) m =
     (HTTPResponse OK HTTP_1_1)\<lparr>msg_headers := m\<rparr>"
proof -
  have "foldl (\<lambda>response (key, val). SetHeader key val response) (x :: http_response) m =
      x\<lparr>msg_headers := foldl (\<lambda>m (k, v). smap_set m k v) (msg_headers x) m\<rparr>" for x
    by (induction m arbitrary: x) (auto simp: SetHeader_def)
  moreover assume "smap_ok m"
  ultimately show ?thesis using smap_rebuild [of m] by (simp add: HTTPResponse_def)
qed

lemma options_star:
  "response_to_string (options_request r) = Returns (''HTTP/1.1 200 OK'' @ CRLF @
     (if req_path r = ''*'' then ''Allow: GET, HEAD, POST, PUT, DELETE, TRACE, OPTIONS'' @ CRLF else '''') @ CRLF)"
  by (simp add: options_request_def response_to_string_def print_response_def HTTPResponse_def SetHeader_def
      array_at_def HTTP_VERSION_STRINGS_def print_header_def Let_def)

end
