(* ===== verification/CacheStore.thy ===== *)
theory CacheStore
  imports Prelude "HOL-Library.Word"
begin

text \<open>
  \<^verbatim>\<open>include/simpleserv/cache.hpp\<close>: a store of keys and values, in memory or in files, and a cache with
  a capacity in front of one.  The header is included by no other file and does not compile as it stands
  (a specialisation before its template, a queue of references, members of streams that do not exist);
  modelled is what its functions say.  \<^verbatim>\<open>FileStore::remove\<close> and \<^verbatim>\<open>FileStore::clear\<close> name a variable
  that is not there and are left out.
\<close>

section \<open>Stores\<close>

definition parser_encode :: "string \<Rightarrow> string" where
  "parser_encode content = content"

definition parser_decode :: "string \<Rightarrow> string option" where
  "parser_decode content = Some content"

type_synonym ('k, 'v) memory_store = "'k \<rightharpoonup> 'v"

definition memory_get :: "'k \<Rightarrow> ('k, 'v) memory_store \<Rightarrow> 'v option" where
  "memory_get key store = store key"

definition memory_put :: "'k \<Rightarrow> 'v \<Rightarrow> ('k, 'v) memory_store \<Rightarrow> ('k, 'v) memory_store" where
  "memory_put key val store = store(key \<mapsto> val)"

definition memory_remove :: "'k \<Rightarrow> ('k, 'v) memory_store \<Rightarrow> ('k, 'v) memory_store" where
  "memory_remove key store = store(key := None)"

definition memory_clear :: "('k, 'v) memory_store \<Rightarrow> ('k, 'v) memory_store" where
  "memory_clear store = Map.empty"

text \<open>
  The store in files keeps the name of each key's file.  Looking up a key that has none makes an entry
  with the empty name.  \<open>fs_files\<close> are the files of the machine; every path can be written.
\<close>

record 'k file_store =
  fs_id :: int
  fs_index :: "'k \<rightharpoonup> string"
  fs_path :: string
  fs_files :: "string \<rightharpoonup> string"

definition index_name :: "'k \<Rightarrow> 'k file_store \<Rightarrow> string \<times> 'k file_store" where
  "index_name key fs =
     (case fs_index fs key of
        Some n \<Rightarrow> (n, fs)
      | None \<Rightarrow> ('''', fs\<lparr>fs_index := (fs_index fs)(key \<mapsto> '''')\<rparr>))"

definition file_get :: "'k \<Rightarrow> 'k file_store \<Rightarrow> string option \<times> 'k file_store" where
  "file_get key fs =
     (let (n, fs') = index_name key fs
      in case fs_files fs' (fs_path fs' @ n) of
           None \<Rightarrow> (None, fs')
         | Some content \<Rightarrow> (parser_decode content, fs'))"

definition file_put :: "'k \<Rightarrow> string \<Rightarrow> 'k file_store \<Rightarrow> 'k file_store" where
  "file_put key val fs =
     (let n = int_to_string (fs_id fs);
          fs' = fs\<lparr>fs_index := (fs_index fs)(key \<mapsto> n), fs_id := fs_id fs + 1\<rparr>
      in fs'\<lparr>fs_files := (fs_files fs')(fs_path fs' @ n \<mapsto> val)\<rparr>)"

section \<open>The cache\<close>

record ('k, 's) cache =
  c_queue :: "'k list"
  c_storage :: 's
  c_capacity :: int

definition cache_get :: "('k \<Rightarrow> 's \<Rightarrow> 'v option) \<Rightarrow> 'k \<Rightarrow> ('k, 's) cache \<Rightarrow> 'v option" where
  "cache_get storage_get key c = storage_get key (c_storage c)"

definition cache_remove :: "('k \<Rightarrow> 's \<Rightarrow> 's) \<Rightarrow> 'k \<Rightarrow> ('k, 's) cache \<Rightarrow> ('k, 's) cache" where
  "cache_remove storage_remove key c = c\<lparr>c_storage := storage_remove key (c_storage c)\<rparr>"

text \<open>\<^verbatim>\<open>front\<close> and \<^verbatim>\<open>pop\<close> of an empty queue are undefined.\<close>

definition evict :: "('k \<Rightarrow> 's \<Rightarrow> 's) \<Rightarrow> ('k, 's) cache \<Rightarrow> ('k, 's) cache outcome" where
  "evict storage_remove c =
     (case c_queue c of
        [] \<Rightarrow> Undefined
      | key # rest \<Rightarrow> Returns (cache_remove storage_remove key (c\<lparr>c_queue := rest\<rparr>)))"

text \<open>The size is compared with the capacity as 64-bit unsigned numbers.\<close>

definition cache_put ::
  "('k \<Rightarrow> 's \<Rightarrow> 's) \<Rightarrow> ('k \<Rightarrow> 'v \<Rightarrow> 's \<Rightarrow> 's) \<Rightarrow> 'k \<Rightarrow> 'v \<Rightarrow> ('k, 's) cache \<Rightarrow> ('k, 's) cache outcome" where
  "cache_put storage_remove storage_put key val c =
     obind (if (word_of_int (c_capacity c) :: 64 word) \<le> word_of_nat (length (c_queue c))
            then evict storage_remove c else Returns c)
       (\<lambda>c. Returns (c\<lparr>c_storage := storage_put key val (c_storage c)\<rparr>))"

definition cache_clear :: "('s \<Rightarrow> 's) \<Rightarrow> ('k, 's) cache \<Rightarrow> ('k, 's) cache" where
  "cache_clear storage_clear c = c\<lparr>c_storage := storage_clear (c_storage c), c_queue := []\<rparr>"

section \<open>Any store behind the cache\<close>

text \<open>The contract of a store: it is a finite map, seen through \<open>held\<close>.\<close>

datatype ('k, 'v) cache_op = Put 'k 'v | Remove 'k | Clear

fun map_op :: "('k, 'v) cache_op \<Rightarrow> ('k \<rightharpoonup> 'v) \<Rightarrow> ('k \<rightharpoonup> 'v)" where
  "map_op (Put k v) m = m(k \<mapsto> v)"
| "map_op (Remove k) m = m(k := None)"
| "map_op Clear m = Map.empty"

fun cache_ops ::
  "('k \<Rightarrow> 's \<Rightarrow> 's) \<Rightarrow> ('k \<Rightarrow> 'v \<Rightarrow> 's \<Rightarrow> 's) \<Rightarrow> ('s \<Rightarrow> 's) \<Rightarrow> ('k, 'v) cache_op list \<Rightarrow> ('k, 's) cache \<Rightarrow>
   ('k, 's) cache outcome" where
  "cache_ops rem put clr [] c = Returns c"
| "cache_ops rem put clr (Put k v # ops) c = obind (cache_put rem put k v c) (cache_ops rem put clr ops)"
| "cache_ops rem put clr (Remove k # ops) c = cache_ops rem put clr ops (cache_remove rem k c)"
| "cache_ops rem put clr (Clear # ops) c = cache_ops rem put clr ops (cache_clear clr c)"

locale key_value_store =
  fixes get :: "'k \<Rightarrow> 's \<Rightarrow> 'v option"
    and put :: "'k \<Rightarrow> 'v \<Rightarrow> 's \<Rightarrow> 's"
    and rem :: "'k \<Rightarrow> 's \<Rightarrow> 's"
    and clr :: "'s \<Rightarrow> 's"
  assumes get_put: "get k' (put k v s) = (if k' = k then Some v else get k' s)"
    and get_rem: "get k' (rem k s) = (if k' = k then None else get k' s)"
    and get_clr: "get k' (clr s) = None"
begin

lemma never_evicts:
  assumes "0 < c_capacity c" and "c_capacity c < 2 ^ 63" and "c_queue c = []"
  shows "\<exists>c'. cache_ops rem put clr ops c = Returns c' \<and> c_queue c' = [] \<and> c_capacity c' = c_capacity c \<and>
    (\<forall>k. cache_get get k c' = fold map_op ops (\<lambda>k. cache_get get k c) k)"
  using assms
proof (induction ops arbitrary: c)
  case (Cons op ops)
  have pos: "\<not> (word_of_int (c_capacity c) :: 64 word) \<le> 0"
  proof -
    have "uint (word_of_int (c_capacity c) :: 64 word) = c_capacity c"
      using Cons.prems(1,2) by (simp add: unsigned_of_int take_bit_int_eq_self)
    with Cons.prems(1) show ?thesis by (simp add: word_le_def)
  qed
  define c1 where "c1 = (case op of
      Put k v \<Rightarrow> c\<lparr>c_storage := put k v (c_storage c)\<rparr>
    | Remove k \<Rightarrow> cache_remove rem k c
    | Clear \<Rightarrow> cache_clear clr c)"
  have step: "cache_ops rem put clr (op # ops) c = cache_ops rem put clr ops c1"
    using pos Cons.prems(3) by (cases op) (simp_all add: c1_def cache_put_def)
  have get1: "(\<lambda>k. cache_get get k c1) = map_op op (\<lambda>k. cache_get get k c)"
    by (cases op) (auto simp: c1_def cache_get_def cache_remove_def cache_clear_def get_put get_rem get_clr fun_eq_iff)
  have "0 < c_capacity c1" "c_capacity c1 < 2 ^ 63" "c_queue c1 = []" "c_capacity c1 = c_capacity c"
    using Cons.prems by (cases op; simp add: c1_def cache_remove_def cache_clear_def)+
  from Cons.IH [OF this(1-3)] this(4) show ?case unfolding step by (simp add: get1)
qed simp

end

interpretation memory: key_value_store memory_get memory_put memory_remove memory_clear
  by unfold_locales (auto simp: memory_get_def memory_put_def memory_remove_def memory_clear_def)

definition new_cache :: "int \<Rightarrow> ('k, ('k, 'v) memory_store) cache" where
  "new_cache capacity = \<lparr>c_queue = [], c_storage = Map.empty, c_capacity = capacity\<rparr>"

text \<open>
  The capacity is never enforced.  No key is ever entered into the queue of the cache, so that with
  a positive capacity nothing is ever evicted: after any sequence of puts, removals and clearings the
  cache answers as a map without a bound would, whatever the number of keys.  With the capacity zero the
  first put looks at the front of the empty queue, which is undefined.
\<close>

theorem capacity_not_enforced:
  assumes "0 < capacity" and "capacity < 2 ^ 63"
  shows "\<exists>c. cache_ops memory_remove memory_put memory_clear ops (new_cache capacity) = Returns c \<and>
    (\<forall>k. cache_get memory_get k c = fold map_op ops Map.empty k) \<and>
    cache_put memory_remove memory_put key val (new_cache 0) = Undefined"
proof -
  have empty: "(\<lambda>k. cache_get memory_get k (new_cache capacity)) = Map.empty"
    by (simp add: cache_get_def memory_get_def new_cache_def)
  have "cache_put memory_remove memory_put key val (new_cache 0) = Undefined"
    by (simp add: cache_put_def new_cache_def evict_def)
  with memory.never_evicts [of "new_cache capacity" ops, unfolded empty] assms show ?thesis
    by (auto simp: new_cache_def)
qed

theorem capacity_not_enforced_witness:
  "\<exists>c. cache_ops memory_remove memory_put memory_clear [Put ''a'' (1::nat), Put ''b'' 2, Put ''c'' 3, Remove ''b''] (new_cache 1) =
     Returns c \<and> cache_get memory_get ''a'' c = Some 1 \<and> cache_get memory_get ''b'' c = None \<and> cache_get memory_get ''c'' c = Some 3"
  using capacity_not_enforced [of 1 "[Put ''a'' (1::nat), Put ''b'' 2, Put ''c'' 3, Remove ''b'']" "''a''" 0] by auto

text \<open>The store in files: what was put is read back, and a later put has a file of its own.\<close>

lemma file_get_put: "fst (file_get k (file_put k v fs)) = Some v"
  by (simp add: file_get_def file_put_def index_name_def parser_decode_def Let_def)

lemma file_get_missing_indexes:
  "fs_index fs k = None \<Longrightarrow> fs_index (snd (file_get k fs)) k = Some ''''"
  by (simp add: file_get_def index_name_def Let_def split: option.splits)

end
