(* ===== verification/ExpectedStorage.thy ===== *)
theory ExpectedStorage
  imports Prelude
begin

text \<open>
  \<^verbatim>\<open>include/simpleserv/utility/expected.hpp\<close>, the storage of \<^verbatim>\<open>utility::expected<T, E>\<close>: a union
  of a value and an error with a flag that says which is there, its constructors and destructors
  (\<^verbatim>\<open>expected_storage_base\<close>), the assignments (\<^verbatim>\<open>expected_operations_base\<close>,
  \<^verbatim>\<open>expected_copy_base\<close> and the other bases) and the operations of \<^verbatim>\<open>expected\<close> that replace the
  contents (\<^verbatim>\<open>operator=\<close>, \<^verbatim>\<open>emplace\<close>, \<^verbatim>\<open>swap\<close>).

  The model follows the lifetime of the member objects.  Using a member whose lifetime has ended
  or not begun is undefined; building a member over a live one is allowed by the language and
  counted, for the destructor of the old one is then never run.  An operation ends normally, by
  an exception, in \<^verbatim>\<open>std::terminate\<close> (an exception that leaves a \<^verbatim>\<open>noexcept\<close> function) or in
  undefined behaviour, and leaves a state in every case.
\<close>

section \<open>Objects, storage and actions\<close>

datatype ('t, 'e) slot =
    ValObj 't
  | ErrObj 'e
  | NoInit
  | Ended

record ('t, 'e) storage =
  active :: "('t, 'e) slot"
  m_has_val :: bool

text \<open>
  The objects of type \<^verbatim>\<open>expected<T, E>\<close> by address, and the number of live members built over.
\<close>

record ('a, 't, 'e) world =
  objs :: "'a \<Rightarrow> ('t, 'e) storage"
  leaked :: nat

datatype 'r exit = Done 'r | Threw | Terminated | UB

type_synonym ('w, 'r) action = "'w \<Rightarrow> 'r exit \<times> 'w"

definition pass :: "'r \<Rightarrow> ('w, 'r) action" where
  "pass x w = (Done x, w)"

definition throw :: "('w, 'r) action" where
  "throw w = (Threw, w)"

definition bnd :: "('w, 'q) action \<Rightarrow> ('q \<Rightarrow> ('w, 'r) action) \<Rightarrow> ('w, 'r) action" where
  "bnd m f w =
     (case m w of
        (Done x, w') \<Rightarrow> f x w'
      | (Threw, w') \<Rightarrow> (Threw, w')
      | (Terminated, w') \<Rightarrow> (Terminated, w')
      | (UB, w') \<Rightarrow> (UB, w'))"

abbreviation thn :: "('w, 'q) action \<Rightarrow> ('w, 'r) action \<Rightarrow> ('w, 'r) action" where
  "thn m n \<equiv> bnd m (\<lambda>_. n)"

definition noexcept :: "('w, 'r) action \<Rightarrow> ('w, 'r) action" where
  "noexcept m w = (case m w of (Threw, w') \<Rightarrow> (Terminated, w') | r \<Rightarrow> r)"

text \<open>\<^verbatim>\<open>try { m } catch (...) { h; throw; }\<close>\<close>

definition catch_rethrow :: "('w, 'r) action \<Rightarrow> ('w, unit) action \<Rightarrow> ('w, 'r) action" where
  "catch_rethrow m h w = (case m w of (Threw, w') \<Rightarrow> thn h throw w' | r \<Rightarrow> r)"

definition from_option :: "'r option \<Rightarrow> ('w, 'r) action" where
  "from_option x = (case x of None \<Rightarrow> throw | Some v \<Rightarrow> pass v)"

section \<open>Classes\<close>

text \<open>
  What the code uses of a class: its constructors, which yield nothing when they throw, its
  assignments (the target and the source afterwards, and whether the assignment returned), and
  the type traits the overloads are chosen by.
\<close>

record 'c cxx_class =
  copy_ctor :: "'c \<Rightarrow> 'c option"
  move_ctor :: "'c \<Rightarrow> 'c option \<times> 'c"
  copy_assign :: "'c \<Rightarrow> 'c \<Rightarrow> 'c \<times> bool"
  move_assign :: "'c \<Rightarrow> 'c \<Rightarrow> 'c \<times> 'c \<times> bool"
  nothrow_copy :: bool
  nothrow_move :: bool
  nothrow_move_assign :: bool
  is_scalar :: bool

section \<open>Member objects\<close>

definition can_throw :: "'c cxx_class \<Rightarrow> bool" where
  "can_throw C \<longleftrightarrow> (\<exists>x. copy_ctor C x = None) \<or> (\<exists>x. fst (move_ctor C x) = None) \<or>
     (\<exists>v x. \<not> snd (copy_assign C v x)) \<or> (\<exists>v x. \<not> snd (snd (move_assign C v x)))"

definition has_val :: "'a \<Rightarrow> (('a, 't, 'e) world, bool) action" where
  "has_val a w = (Done (m_has_val (objs w a)), w)"

definition set_flag :: "'a \<Rightarrow> bool \<Rightarrow> (('a, 't, 'e) world, unit) action" where
  "set_flag a b w = (Done (), w\<lparr>objs := (objs w)(a := (objs w a)\<lparr>m_has_val := b\<rparr>)\<rparr>)"

definition put_slot :: "'a \<Rightarrow> ('t, 'e) slot \<Rightarrow> ('a, 't, 'e) world \<Rightarrow> ('a, 't, 'e) world" where
  "put_slot a s w = w\<lparr>objs := (objs w)(a := (objs w a)\<lparr>active := s\<rparr>)\<rparr>"

fun live :: "('t, 'e) slot \<Rightarrow> bool" where
  "live (ValObj v) = True"
| "live (ErrObj e) = True"
| "live NoInit = False"
| "live Ended = False"

text \<open>Placement new: the member built becomes the active one.\<close>

definition new_obj :: "'a \<Rightarrow> ('t, 'e) slot \<Rightarrow> (('a, 't, 'e) world, unit) action" where
  "new_obj a s w =
     (Done (), (put_slot a s w)\<lparr>leaked := leaked w + (if live (active (objs w a)) then 1 else 0)\<rparr>)"

definition get :: "'a \<Rightarrow> (('a, 't, 'e) world, 't) action" where
  "get a w = (case active (objs w a) of ValObj v \<Rightarrow> (Done v, w) | _ \<Rightarrow> (UB, w))"

definition geterr :: "'a \<Rightarrow> (('a, 't, 'e) world, 'e) action" where
  "geterr a w = (case active (objs w a) of ErrObj e \<Rightarrow> (Done e, w) | _ \<Rightarrow> (UB, w))"

definition write_slot :: "'a \<Rightarrow> ('t, 'e) slot \<Rightarrow> (('a, 't, 'e) world, unit) action" where
  "write_slot a s w = (Done (), put_slot a s w)"

definition destroy_val :: "'a \<Rightarrow> (('a, 't, 'e) world, unit) action" where
  "destroy_val a = bnd (get a) (\<lambda>_. write_slot a Ended)"

definition destroy_err :: "'a \<Rightarrow> (('a, 't, 'e) world, unit) action" where
  "destroy_err a = bnd (geterr a) (\<lambda>_. write_slot a Ended)"

text \<open>New objects copied or moved from a member, or moved from a local variable.\<close>

definition copy_val :: "'t cxx_class \<Rightarrow> 'a \<Rightarrow> (('a, 't, 'e) world, 't) action" where
  "copy_val T b = bnd (get b) (\<lambda>v. from_option (copy_ctor T v))"

definition move_val :: "'t cxx_class \<Rightarrow> 'a \<Rightarrow> (('a, 't, 'e) world, 't) action" where
  "move_val T b = bnd (get b) (\<lambda>v. case move_ctor T v of (new, v') \<Rightarrow>
     thn (write_slot b (ValObj v')) (from_option new))"

definition copy_err :: "'e cxx_class \<Rightarrow> 'a \<Rightarrow> (('a, 't, 'e) world, 'e) action" where
  "copy_err E b = bnd (geterr b) (\<lambda>e. from_option (copy_ctor E e))"

definition move_err :: "'e cxx_class \<Rightarrow> 'a \<Rightarrow> (('a, 't, 'e) world, 'e) action" where
  "move_err E b = bnd (geterr b) (\<lambda>e. case move_ctor E e of (new, e') \<Rightarrow>
     thn (write_slot b (ErrObj e')) (from_option new))"

definition move_tmp :: "'c cxx_class \<Rightarrow> 'c \<Rightarrow> ('w, 'c) action" where
  "move_tmp C tmp = from_option (fst (move_ctor C tmp))"

text \<open>Assignments between members, and from a local variable.\<close>

definition returned :: "bool \<Rightarrow> ('w, unit) action" where
  "returned ok = (if ok then pass () else throw)"

definition assign_val_copy :: "'t cxx_class \<Rightarrow> 'a \<Rightarrow> 't \<Rightarrow> (('a, 't, 'e) world, unit) action" where
  "assign_val_copy T a src = bnd (get a) (\<lambda>v. case copy_assign T v src of (v', ok) \<Rightarrow>
     thn (write_slot a (ValObj v')) (returned ok))"

definition assign_err_copy :: "'e cxx_class \<Rightarrow> 'a \<Rightarrow> 'e \<Rightarrow> (('a, 't, 'e) world, unit) action" where
  "assign_err_copy E a src = bnd (geterr a) (\<lambda>e. case copy_assign E e src of (e', ok) \<Rightarrow>
     thn (write_slot a (ErrObj e')) (returned ok))"

definition assign_val_tmp :: "'t cxx_class \<Rightarrow> 'a \<Rightarrow> 't \<Rightarrow> (('a, 't, 'e) world, unit) action" where
  "assign_val_tmp T a tmp = bnd (get a) (\<lambda>v. case move_assign T v tmp of (v', tmp', ok) \<Rightarrow>
     thn (write_slot a (ValObj v')) (returned ok))"

definition assign_err_tmp :: "'e cxx_class \<Rightarrow> 'a \<Rightarrow> 'e \<Rightarrow> (('a, 't, 'e) world, unit) action" where
  "assign_err_tmp E a tmp = bnd (geterr a) (\<lambda>e. case move_assign E e tmp of (e', tmp', ok) \<Rightarrow>
     thn (write_slot a (ErrObj e')) (returned ok))"

definition assign_val_move :: "'t cxx_class \<Rightarrow> 'a \<Rightarrow> 'a \<Rightarrow> (('a, 't, 'e) world, unit) action" where
  "assign_val_move T a b = bnd (get a) (\<lambda>v. bnd (get b) (\<lambda>src.
     case move_assign T v src of (v', src', ok) \<Rightarrow>
       thn (write_slot b (ValObj src')) (thn (write_slot a (ValObj v')) (returned ok))))"

definition assign_err_move :: "'e cxx_class \<Rightarrow> 'a \<Rightarrow> 'a \<Rightarrow> (('a, 't, 'e) world, unit) action" where
  "assign_err_move E a b = bnd (geterr a) (\<lambda>e. bnd (geterr b) (\<lambda>src.
     case move_assign E e src of (e', src', ok) \<Rightarrow>
       thn (write_slot b (ErrObj src')) (thn (write_slot a (ErrObj e')) (returned ok))))"


section \<open>Constructors and destructors of the storage\<close>

text \<open>
  The constructors are the same in the four specialisations for an object type \<open>T\<close>; the
  destructors differ by which members are trivially destructible.
\<close>

definition storage_default :: "'t \<Rightarrow> ('t, 'e) storage" where
  "storage_default new = \<lparr>active = ValObj new, m_has_val = True\<rparr>"

definition storage_no_init :: "('t, 'e) storage" where
  "storage_no_init = \<lparr>active = NoInit, m_has_val = False\<rparr>"

definition storage_in_place :: "'t \<Rightarrow> ('t, 'e) storage" where
  "storage_in_place v = \<lparr>active = ValObj v, m_has_val = True\<rparr>"

definition storage_unexpect :: "'e \<Rightarrow> ('t, 'e) storage" where
  "storage_unexpect e = \<lparr>active = ErrObj e, m_has_val = False\<rparr>"

definition destroy_storage :: "'a \<Rightarrow> (('a, 't, 'e) world, unit) action" where
  "destroy_storage a = bnd (has_val a) (\<lambda>h. if h then destroy_val a else destroy_err a)"

definition destroy_storage_trivial :: "'a \<Rightarrow> (('a, 't, 'e) world, unit) action" where
  "destroy_storage_trivial a = pass ()"

definition destroy_storage_T_trivial :: "'a \<Rightarrow> (('a, 't, 'e) world, unit) action" where
  "destroy_storage_T_trivial a = bnd (has_val a) (\<lambda>h. if \<not> h then destroy_err a else pass ())"

definition destroy_storage_E_trivial :: "'a \<Rightarrow> (('a, 't, 'e) world, unit) action" where
  "destroy_storage_E_trivial a = bnd (has_val a) (\<lambda>h. if h then destroy_val a else pass ())"

section \<open>Construction in place and assignment\<close>

text \<open>
  \<open>mk\<close> runs the constructor that the arguments select.  All three functions are \<^verbatim>\<open>noexcept\<close>.
\<close>

definition construct :: "(('a, 't, 'e) world, 't) action \<Rightarrow> 'a \<Rightarrow> (('a, 't, 'e) world, unit) action" where
  "construct mk a = noexcept (bnd mk (\<lambda>v. thn (new_obj a (ValObj v)) (set_flag a True)))"

definition construct_with :: "(('a, 't, 'e) world, 't) action \<Rightarrow> 'a \<Rightarrow> (('a, 't, 'e) world, unit) action" where
  "construct_with mk a = noexcept (bnd mk (\<lambda>v. thn (new_obj a (ValObj v)) (set_flag a True)))"

definition construct_error :: "(('a, 't, 'e) world, 'e) action \<Rightarrow> 'a \<Rightarrow> (('a, 't, 'e) world, unit) action" where
  "construct_error mk a = noexcept (bnd mk (\<lambda>e. thn (new_obj a (ErrObj e)) (set_flag a False)))"

definition assign_common_copy ::
  "'t cxx_class \<Rightarrow> 'e cxx_class \<Rightarrow> 'a \<Rightarrow> 'a \<Rightarrow> (('a, 't, 'e) world, unit) action" where
  "assign_common_copy T E a b = bnd (has_val a) (\<lambda>ha. bnd (has_val b) (\<lambda>hb.
     if ha then
       if hb then bnd (get b) (assign_val_copy T a)
       else thn (destroy_val a) (construct_error (copy_err E b) a)
     else if \<not> hb then bnd (geterr b) (assign_err_copy E a)
     else pass ()))"

definition assign_common_move ::
  "'t cxx_class \<Rightarrow> 'e cxx_class \<Rightarrow> 'a \<Rightarrow> 'a \<Rightarrow> (('a, 't, 'e) world, unit) action" where
  "assign_common_move T E a b = bnd (has_val a) (\<lambda>ha. bnd (has_val b) (\<lambda>hb.
     if ha then
       if hb then assign_val_move T a b
       else thn (destroy_val a) (construct_error (move_err E b) a)
     else if \<not> hb then assign_err_move E a b
     else pass ()))"

text \<open>The overloads of \<^verbatim>\<open>assign\<close>: where only \<open>b\<close> has a value the error of \<open>a\<close> has to go.\<close>

definition if_value_replaces_error ::
  "'a \<Rightarrow> 'a \<Rightarrow> (('a, 't, 'e) world, unit) action \<Rightarrow> (('a, 't, 'e) world, unit) action \<Rightarrow>
   (('a, 't, 'e) world, unit) action" where
  "if_value_replaces_error a b m n = bnd (has_val a) (\<lambda>ha. bnd (has_val b) (\<lambda>hb.
     if \<not> ha \<and> hb then m else n))"

definition assign_copy_nothrow ::
  "'t cxx_class \<Rightarrow> 'e cxx_class \<Rightarrow> 'a \<Rightarrow> 'a \<Rightarrow> (('a, 't, 'e) world, unit) action" where
  "assign_copy_nothrow T E a b = noexcept (if_value_replaces_error a b
     (thn (destroy_err a) (construct (copy_val T b) a))
     (assign_common_copy T E a b))"

definition assign_copy_then_move ::
  "'t cxx_class \<Rightarrow> 'e cxx_class \<Rightarrow> 'a \<Rightarrow> 'a \<Rightarrow> (('a, 't, 'e) world, unit) action" where
  "assign_copy_then_move T E a b = noexcept (if_value_replaces_error a b
     (bnd (copy_val T b) (\<lambda>tmp. thn (destroy_err a) (construct (move_tmp T tmp) a)))
     (assign_common_copy T E a b))"

definition assign_copy_rollback ::
  "'t cxx_class \<Rightarrow> 'e cxx_class \<Rightarrow> 'a \<Rightarrow> 'a \<Rightarrow> (('a, 't, 'e) world, unit) action" where
  "assign_copy_rollback T E a b = if_value_replaces_error a b
     (bnd (move_err E a) (\<lambda>tmp. thn (destroy_err a)
        (catch_rethrow (construct (copy_val T b) a) (assign_err_tmp E a tmp))))
     (assign_common_copy T E a b)"

definition assign_move_nothrow ::
  "'t cxx_class \<Rightarrow> 'e cxx_class \<Rightarrow> 'a \<Rightarrow> 'a \<Rightarrow> (('a, 't, 'e) world, unit) action" where
  "assign_move_nothrow T E a b = noexcept (if_value_replaces_error a b
     (thn (destroy_err a) (construct (move_val T b) a))
     (assign_common_move T E a b))"

definition assign_move_rollback ::
  "'t cxx_class \<Rightarrow> 'e cxx_class \<Rightarrow> 'a \<Rightarrow> 'a \<Rightarrow> (('a, 't, 'e) world, unit) action" where
  "assign_move_rollback T E a b = if_value_replaces_error a b
     (bnd (move_err E a) (\<lambda>tmp. thn (destroy_err a)
        (catch_rethrow (construct (move_val T b) a) (assign_err_tmp E a tmp))))
     (assign_common_move T E a b)"

text \<open>
  The copy and move constructors and assignments of an \<^verbatim>\<open>expected\<close>, where its members are not
  trivially copyable.  The traits choose the overload; a constructor starts from uninitialised
  memory.
\<close>

definition fresh :: "'a \<Rightarrow> (('a, 't, 'e) world, unit) action" where
  "fresh a w = (Done (), w\<lparr>objs := (objs w)(a := storage_no_init)\<rparr>)"

definition copy_construct ::
  "'t cxx_class \<Rightarrow> 'e cxx_class \<Rightarrow> 'a \<Rightarrow> 'a \<Rightarrow> (('a, 't, 'e) world, unit) action" where
  "copy_construct T E a b = thn (fresh a) (bnd (has_val b) (\<lambda>hb.
     if hb then construct_with (copy_val T b) a else construct_error (copy_err E b) a))"

definition move_construct ::
  "'t cxx_class \<Rightarrow> 'e cxx_class \<Rightarrow> 'a \<Rightarrow> 'a \<Rightarrow> (('a, 't, 'e) world, unit) action" where
  "move_construct T E a b = thn (fresh a) (bnd (has_val b) (\<lambda>hb.
     if hb then construct_with (move_val T b) a else construct_error (move_err E b) a))"

definition assign_copy ::
  "'t cxx_class \<Rightarrow> 'e cxx_class \<Rightarrow> 'a \<Rightarrow> 'a \<Rightarrow> (('a, 't, 'e) world, unit) action" where
  "assign_copy T E a b =
     (if nothrow_copy T then assign_copy_nothrow T E a b
      else if nothrow_move T then assign_copy_then_move T E a b
      else assign_copy_rollback T E a b)"

definition assign_move ::
  "'t cxx_class \<Rightarrow> 'e cxx_class \<Rightarrow> 'a \<Rightarrow> 'a \<Rightarrow> (('a, 't, 'e) world, unit) action" where
  "assign_move T E a b =
     (if nothrow_move T \<and> nothrow_move_assign T
      then noexcept (if nothrow_move T then assign_move_nothrow T E a b else assign_move_rollback T E a b)
      else if nothrow_move T then assign_move_nothrow T E a b else assign_move_rollback T E a b)"


section \<open>\<^verbatim>\<open>expected<void, E>\<close>\<close>

text \<open>There is no value object: the union holds the error or a dummy.\<close>

definition void_default :: "(unit, 'e) storage" where
  "void_default = \<lparr>active = NoInit, m_has_val = True\<rparr>"

definition destroy_void :: "'a \<Rightarrow> (('a, unit, 'e) world, unit) action" where
  "destroy_void a = bnd (has_val a) (\<lambda>h. if \<not> h then destroy_err a else pass ())"

definition void_construct :: "'a \<Rightarrow> (('a, unit, 'e) world, unit) action" where
  "void_construct a = set_flag a True"

definition void_construct_with :: "'a \<Rightarrow> (('a, unit, 'e) world, unit) action" where
  "void_construct_with a = set_flag a True"

definition void_construct_error :: "(('a, unit, 'e) world, 'e) action \<Rightarrow> 'a \<Rightarrow> (('a, unit, 'e) world, unit) action" where
  "void_construct_error mk a = noexcept (bnd mk (\<lambda>e. thn (new_obj a (ErrObj e)) (set_flag a False)))"

definition void_assign :: "'e cxx_class \<Rightarrow> 'a \<Rightarrow> 'a \<Rightarrow> (('a, unit, 'e) world, unit) action" where
  "void_assign E a b = noexcept (bnd (has_val a) (\<lambda>ha. bnd (has_val b) (\<lambda>hb.
     if \<not> ha then
       if hb then thn (destroy_err a) (void_construct a)
       else bnd (geterr b) (assign_err_copy E a)
     else if \<not> hb then void_construct_error (copy_err E b) a
     else pass ())))"

section \<open>Operations of \<^verbatim>\<open>expected\<close> that replace the contents\<close>

text \<open>
  The converting constructors leave the base class to its default constructor, so that a default
  value is built first.
\<close>

definition convert_construct ::
  "'t \<Rightarrow> (('a, 't, 'e) world, 't) action + (('a, 't, 'e) world, 'e) action \<Rightarrow> 'a \<Rightarrow>
   (('a, 't, 'e) world, unit) action" where
  "convert_construct new rhs a =
     thn (\<lambda>w. (Done (), w\<lparr>objs := (objs w)(a := storage_default new)\<rparr>))
       (case rhs of Inl mk \<Rightarrow> construct mk a | Inr mk \<Rightarrow> construct_error mk a)"

text \<open>
  Assignment of a value: \<open>mk\<close> constructs a \<open>T\<close> from it, \<open>asg\<close> assigns it to the \<open>T\<close> there is
  and yields its new value and whether it returned.
\<close>

definition assign_val_from :: "('t \<Rightarrow> 't \<times> bool) \<Rightarrow> 'a \<Rightarrow> (('a, 't, 'e) world, unit) action" where
  "assign_val_from asg a = bnd (get a) (\<lambda>v. case asg v of (v', ok) \<Rightarrow>
     thn (write_slot a (ValObj v')) (returned ok))"

definition assign_value_nothrow ::
  "(('a, 't, 'e) world, 't) action \<Rightarrow> ('t \<Rightarrow> 't \<times> bool) \<Rightarrow> 'a \<Rightarrow>
   (('a, 't, 'e) world, unit) action" where
  "assign_value_nothrow mk asg a = bnd (has_val a) (\<lambda>h.
     if h then assign_val_from asg a
     else thn (destroy_err a) (bnd mk (\<lambda>v. thn (new_obj a (ValObj v)) (set_flag a True))))"

text \<open>The rollback shared by \<^verbatim>\<open>operator=\<close> and the two \<^verbatim>\<open>emplace\<close> for throwing constructors.\<close>

definition replace_error ::
  "'e cxx_class \<Rightarrow> (('a, 't, 'e) world, 't) action \<Rightarrow> 'a \<Rightarrow> (('a, 't, 'e) world, unit) action" where
  "replace_error E mk a = bnd (move_err E a) (\<lambda>tmp. thn (destroy_err a)
     (catch_rethrow (bnd mk (\<lambda>v. thn (new_obj a (ValObj v)) (set_flag a True)))
       (assign_err_tmp E a tmp)))"

definition assign_value_rollback ::
  "'e cxx_class \<Rightarrow> (('a, 't, 'e) world, 't) action \<Rightarrow> ('t \<Rightarrow> 't \<times> bool) \<Rightarrow> 'a \<Rightarrow>
   (('a, 't, 'e) world, unit) action" where
  "assign_value_rollback E mk asg a = bnd (has_val a) (\<lambda>h.
     if h then assign_val_from asg a else replace_error E mk a)"

definition assign_unexpected_copy ::
  "'e cxx_class \<Rightarrow> 'e \<Rightarrow> 'a \<Rightarrow> (('a, 't, 'e) world, unit) action" where
  "assign_unexpected_copy E e a = bnd (has_val a) (\<lambda>h.
     if \<not> h then assign_err_copy E a e
     else thn (destroy_val a) (bnd (from_option (copy_ctor E e)) (\<lambda>e'.
       thn (new_obj a (ErrObj e')) (set_flag a False))))"

definition assign_unexpected_move ::
  "'e cxx_class \<Rightarrow> 'e \<Rightarrow> 'a \<Rightarrow> (('a, 't, 'e) world, unit) action" where
  "assign_unexpected_move E e a = noexcept (bnd (has_val a) (\<lambda>h.
     if \<not> h then assign_err_tmp E a e
     else thn (destroy_val a) (bnd (move_tmp E e) (\<lambda>e'.
       thn (new_obj a (ErrObj e')) (set_flag a False)))))"

definition emplace_nothrow ::
  "(('a, 't, 'e) world, 't) action \<Rightarrow> 'a \<Rightarrow> (('a, 't, 'e) world, unit) action" where
  "emplace_nothrow mk a = bnd (has_val a) (\<lambda>h.
     thn (if h then destroy_val a else thn (destroy_err a) (set_flag a True))
       (bnd mk (\<lambda>v. new_obj a (ValObj v))))"

definition emplace ::
  "'e cxx_class \<Rightarrow> (('a, 't, 'e) world, 't) action \<Rightarrow> 'a \<Rightarrow> (('a, 't, 'e) world, unit) action" where
  "emplace E mk a = bnd (has_val a) (\<lambda>h.
     if h then thn (destroy_val a) (bnd mk (\<lambda>v. new_obj a (ValObj v)))
     else replace_error E mk a)"

definition emplace_list_nothrow ::
  "'t cxx_class \<Rightarrow> (('a, 't, 'e) world, 't) action \<Rightarrow> 'a \<Rightarrow> (('a, 't, 'e) world, unit) action" where
  "emplace_list_nothrow T mk a = bnd (has_val a) (\<lambda>h.
     if h then bnd mk (assign_val_tmp T a)
     else thn (destroy_err a) (bnd mk (\<lambda>v. thn (new_obj a (ValObj v)) (set_flag a True))))"

definition emplace_list ::
  "'t cxx_class \<Rightarrow> 'e cxx_class \<Rightarrow> (('a, 't, 'e) world, 't) action \<Rightarrow> 'a \<Rightarrow>
   (('a, 't, 'e) world, unit) action" where
  "emplace_list T E mk a = bnd (has_val a) (\<lambda>h.
     if h then bnd mk (assign_val_tmp T a) else replace_error E mk a)"

section \<open>\<^verbatim>\<open>swap\<close>\<close>

text \<open>\<^verbatim>\<open>std::swap\<close> of two members: a move construction and two move assignments.\<close>

definition swap_vals :: "'t cxx_class \<Rightarrow> 'a \<Rightarrow> 'a \<Rightarrow> (('a, 't, 'e) world, unit) action" where
  "swap_vals T a b = bnd (move_val T a) (\<lambda>tmp. thn (assign_val_move T a b) (assign_val_tmp T b tmp))"

definition swap_errs :: "'e cxx_class \<Rightarrow> 'a \<Rightarrow> 'a \<Rightarrow> (('a, 't, 'e) world, unit) action" where
  "swap_errs E a b = bnd (move_err E a) (\<lambda>tmp. thn (assign_err_move E a b) (assign_err_tmp E b tmp))"

definition swap_flags :: "'a \<Rightarrow> 'a \<Rightarrow> (('a, 't, 'e) world, unit) action" where
  "swap_flags a b = bnd (has_val a) (\<lambda>ha. bnd (has_val b) (\<lambda>hb.
     thn (set_flag a hb) (set_flag b ha)))"

definition swap_one_nothrow ::
  "'t cxx_class \<Rightarrow> 'e cxx_class \<Rightarrow> 'a \<Rightarrow> 'a \<Rightarrow> (('a, 't, 'e) world, unit) action" where
  "swap_one_nothrow T E a b = noexcept (bnd (move_val T a) (\<lambda>temp. thn (destroy_val a)
     (bnd (move_err E b) (\<lambda>e. thn (new_obj a (ErrObj e)) (thn (destroy_err b)
       (bnd (move_tmp T temp) (\<lambda>v. thn (new_obj b (ValObj v)) (swap_flags a b))))))))"

definition swap_one_E_throws ::
  "'t cxx_class \<Rightarrow> 'e cxx_class \<Rightarrow> 'a \<Rightarrow> 'a \<Rightarrow> (('a, 't, 'e) world, unit) action" where
  "swap_one_E_throws T E a b = bnd (move_val T a) (\<lambda>temp. thn (destroy_val a)
     (catch_rethrow
       (bnd (move_err E b) (\<lambda>e. thn (new_obj a (ErrObj e)) (thn (destroy_err b)
         (bnd (move_tmp T temp) (\<lambda>v. thn (new_obj b (ValObj v)) (swap_flags a b))))))
       (assign_val_tmp T a temp)))"

definition swap_one_T_throws ::
  "'t cxx_class \<Rightarrow> 'e cxx_class \<Rightarrow> 'a \<Rightarrow> 'a \<Rightarrow> (('a, 't, 'e) world, unit) action" where
  "swap_one_T_throws T E a b = bnd (move_err E b) (\<lambda>temp. thn (destroy_err b)
     (catch_rethrow
       (bnd (move_val T a) (\<lambda>v. thn (new_obj b (ValObj v)) (thn (destroy_val a)
         (bnd (move_tmp E temp) (\<lambda>e. thn (new_obj a (ErrObj e)) (swap_flags a b))))))
       (assign_err_tmp E b temp)))"

text \<open>
  \<^verbatim>\<open>swap\<close> takes part in overload resolution only when \<open>T\<close> or \<open>E\<close> moves without exceptions.
\<close>

definition swap_one ::
  "'t cxx_class \<Rightarrow> 'e cxx_class \<Rightarrow> 'a \<Rightarrow> 'a \<Rightarrow> (('a, 't, 'e) world, unit) action" where
  "swap_one T E a b =
     (if nothrow_move T then if nothrow_move E then swap_one_nothrow T E a b else swap_one_E_throws T E a b
      else swap_one_T_throws T E a b)"

definition swap_expected ::
  "'t cxx_class \<Rightarrow> 'e cxx_class \<Rightarrow> 'a \<Rightarrow> 'a \<Rightarrow> (('a, 't, 'e) world, unit) action" where
  "swap_expected T E a b = (if nothrow_move T \<and> nothrow_move_assign T \<and> nothrow_move E \<and> nothrow_move_assign E
     then noexcept else id) (bnd (has_val a) (\<lambda>ha. bnd (has_val b) (\<lambda>hb.
       if ha \<and> hb then swap_vals T a b
       else if \<not> ha \<and> hb then swap_one T E b a
       else if ha then swap_one T E a b
       else swap_errs E a b)))"

definition void_swap_one :: "'e cxx_class \<Rightarrow> 'a \<Rightarrow> 'a \<Rightarrow> (('a, unit, 'e) world, unit) action" where
  "void_swap_one E a b = (if nothrow_move E then noexcept else id)
     (bnd (move_err E b) (\<lambda>e. thn (new_obj a (ErrObj e)) (thn (destroy_err b) (swap_flags a b))))"


section \<open>What the storage holds\<close>

fun contents :: "('t, 'e) storage \<Rightarrow> ('e + 't) option" where
  "contents s =
     (case active s of
        ValObj v \<Rightarrow> if m_has_val s then Some (Inr v) else None
      | ErrObj e \<Rightarrow> if m_has_val s then None else Some (Inl e)
      | NoInit \<Rightarrow> None
      | Ended \<Rightarrow> None)"

declare contents.simps [simp del]

lemma contents_Inr: "contents s = Some (Inr v) \<longleftrightarrow> active s = ValObj v \<and> m_has_val s"
  by (cases "active s") (simp_all add: contents.simps)

lemma contents_Inl: "contents s = Some (Inl e) \<longleftrightarrow> active s = ErrObj e \<and> \<not> m_has_val s"
  by (cases "active s") (simp_all add: contents.simps)

lemma contents_None:
  "contents s = None \<longleftrightarrow>
   \<not> ((\<exists>v. active s = ValObj v) \<and> m_has_val s \<or> (\<exists>e. active s = ErrObj e) \<and> \<not> m_has_val s)"
  by (cases "active s") (simp_all add: contents.simps)

lemmas contents_iff = contents_Inr contents_Inl contents_None

section \<open>Computing the exit of an operation\<close>

text \<open>
  \<open>runs m w Q\<close>: run from \<open>w\<close>, \<open>m\<close> ends with an exit and a state in \<open>Q\<close>.  The equations compute
  it from the structure of \<open>m\<close>.
\<close>

definition runs :: "('w, 'r) action \<Rightarrow> 'w \<Rightarrow> ('r exit \<Rightarrow> 'w \<Rightarrow> bool) \<Rightarrow> bool" where
  "runs m w Q = Q (fst (m w)) (snd (m w))"

named_theorems runs_simps \<open>the exit of each building block\<close>

lemma runs_mono:
  "runs m w P \<Longrightarrow> (\<And>r w'. P r w' \<Longrightarrow> Q r w') \<Longrightarrow> runs m w Q"
  by (simp add: runs_def)

lemma runs_pass [runs_simps]: "runs (pass x) w Q = Q (Done x) w"
  by (simp add: runs_def pass_def)

lemma runs_throw [runs_simps]: "runs throw w Q = Q Threw w"
  by (simp add: runs_def throw_def)

lemma runs_bnd [runs_simps]:
  "runs (bnd m f) w Q = runs m w (\<lambda>r w'.
     case r of Done x \<Rightarrow> runs (f x) w' Q | Threw \<Rightarrow> Q Threw w' | Terminated \<Rightarrow> Q Terminated w' | UB \<Rightarrow> Q UB w')"
  by (simp add: runs_def bnd_def split: exit.split prod.split)

lemma runs_noexcept [runs_simps]:
  "runs (noexcept m) w Q = runs m w (\<lambda>r w'.
     case r of Done x \<Rightarrow> Q (Done x) w' | Threw \<Rightarrow> Q Terminated w' | Terminated \<Rightarrow> Q Terminated w' | UB \<Rightarrow> Q UB w')"
  by (simp add: runs_def noexcept_def split: exit.split prod.split)

lemma runs_catch_rethrow [runs_simps]:
  "runs (catch_rethrow m h) w Q = runs m w (\<lambda>r w'.
     case r of Done x \<Rightarrow> Q (Done x) w' | Threw \<Rightarrow> runs (thn h throw) w' Q
       | Terminated \<Rightarrow> Q Terminated w' | UB \<Rightarrow> Q UB w')"
  by (simp add: runs_def catch_rethrow_def split: exit.split prod.split)

lemma runs_from_option [runs_simps]:
  "runs (from_option x) w Q = (case x of None \<Rightarrow> Q Threw w | Some v \<Rightarrow> Q (Done v) w)"
  by (simp add: from_option_def runs_pass runs_throw split: option.split)

lemma runs_returned [runs_simps]: "runs (returned ok) w Q = Q (if ok then Done () else Threw) w"
  by (simp add: returned_def runs_pass runs_throw)

lemma runs_if [runs_simps]: "runs (if b then m else n) w Q = (if b then runs m w Q else runs n w Q)"
  by simp

lemma runs_prod [runs_simps]: "runs (case p of (x, y) \<Rightarrow> f x y) w Q = runs (f (fst p) (snd p)) w Q"
  by (simp add: case_prod_beta)

lemma runs_id [runs_simps]: "runs (id m) w Q = runs m w Q"
  by simp

lemma runs_has_val [runs_simps]: "runs (has_val a) w Q = Q (Done (m_has_val (objs w a))) w"
  by (simp add: runs_def has_val_def)

lemma runs_get [runs_simps]:
  "runs (get a) w Q = (case active (objs w a) of ValObj v \<Rightarrow> Q (Done v) w | _ \<Rightarrow> Q UB w)"
  by (simp add: runs_def get_def split: slot.split)

lemma runs_geterr [runs_simps]:
  "runs (geterr a) w Q = (case active (objs w a) of ErrObj e \<Rightarrow> Q (Done e) w | _ \<Rightarrow> Q UB w)"
  by (simp add: runs_def geterr_def split: slot.split)

lemma runs_state [runs_simps]:
  "runs (write_slot a s) w Q = Q (Done ()) (put_slot a s w)"
  "runs (set_flag a b) w Q = Q (Done ()) (w\<lparr>objs := (objs w)(a := (objs w a)\<lparr>m_has_val := b\<rparr>)\<rparr>)"
  "runs (new_obj a s) w Q =
     Q (Done ()) ((put_slot a s w)\<lparr>leaked := leaked w + (if live (active (objs w a)) then 1 else 0)\<rparr>)"
  "runs (fresh a) w Q = Q (Done ()) (w\<lparr>objs := (objs w)(a := storage_no_init)\<rparr>)"
  by (simp_all add: runs_def write_slot_def set_flag_def new_obj_def fresh_def)

lemma put_slot_select [simp]:
  "objs (put_slot a s w) = (objs w)(a := (objs w a)\<lparr>active := s\<rparr>)"
  "leaked (put_slot a s w) = leaked w"
  by (simp_all add: put_slot_def)

lemmas runs_members =
  destroy_val_def destroy_err_def copy_val_def move_val_def copy_err_def move_err_def move_tmp_def
  assign_val_copy_def assign_err_copy_def assign_val_tmp_def assign_err_tmp_def
  assign_val_move_def assign_err_move_def assign_val_from_def
  construct_def construct_with_def construct_error_def if_value_replaces_error_def swap_flags_def

section \<open>Regular classes\<close>

text \<open>
  What a class promises its users: a copy and a move yield the value of their source, and the
  traits tell the truth about exceptions.
\<close>

locale regular_class =
  fixes C :: "'c cxx_class"
  assumes copy_ctor_value: "copy_ctor C x = Some y \<Longrightarrow> y = x"
    and move_ctor_value: "move_ctor C x = (Some y, x') \<Longrightarrow> y = x"
    and copy_assign_value: "copy_assign C v x = (v', True) \<Longrightarrow> v' = x"
    and move_assign_value: "move_assign C v x = (v', x', True) \<Longrightarrow> v' = x"
    and nothrow_copy_true: "nothrow_copy C \<Longrightarrow> copy_ctor C x \<noteq> None"
    and nothrow_move_true: "nothrow_move C \<Longrightarrow> fst (move_ctor C x) \<noteq> None"
    and nothrow_move_assign_true: "nothrow_move_assign C \<Longrightarrow> snd (snd (move_assign C v x))"

context regular_class begin

lemma move_ctor_fst: "fst (move_ctor C x) = Some y \<Longrightarrow> y = x"
  by (cases "move_ctor C x") (auto dest: move_ctor_value)

lemma copy_assign_fst: "snd (copy_assign C v x) \<Longrightarrow> fst (copy_assign C v x) = x"
  by (cases "copy_assign C v x") (auto dest: copy_assign_value)

lemma move_assign_fst: "snd (snd (move_assign C v x)) \<Longrightarrow> fst (move_assign C v x) = x"
  by (cases "move_assign C v x") (auto dest: move_assign_value)

text \<open>A class that never throws copies and moves values.\<close>

lemma quiet_class:
  assumes "\<not> can_throw C"
  shows "copy_ctor C x = Some x" and "fst (move_ctor C x) = Some x"
    and "fst (copy_assign C v x) = x" and "snd (copy_assign C v x)"
    and "fst (move_assign C v x) = x" and "snd (snd (move_assign C v x))"
proof -
  have "copy_ctor C x \<noteq> None" "fst (move_ctor C x) \<noteq> None" "snd (copy_assign C v x)"
    "snd (snd (move_assign C v x))"
    using assms by (auto simp: can_throw_def)
  then show "copy_ctor C x = Some x" "fst (move_ctor C x) = Some x" "fst (copy_assign C v x) = x"
    "snd (copy_assign C v x)" "fst (move_assign C v x) = x" "snd (snd (move_assign C v x))"
    by (auto dest: copy_ctor_value move_ctor_fst copy_assign_fst move_assign_fst)
qed

end

text \<open>\<^verbatim>\<open>std::string\<close>: a copy allocates, a move takes the buffer and leaves the empty string.\<close>

definition string_class :: "(string \<Rightarrow> bool) \<Rightarrow> string cxx_class" where
  "string_class alloc = \<lparr>
     copy_ctor = (\<lambda>s. if alloc s then Some s else None),
     move_ctor = (\<lambda>s. (Some s, [])),
     copy_assign = (\<lambda>t s. if alloc s then (s, True) else (t, False)),
     move_assign = (\<lambda>t s. (s, [], True)),
     nothrow_copy = False, nothrow_move = True, nothrow_move_assign = True, is_scalar = False\<rparr>"

text \<open>A class with a copy constructor only, where a move is a copy.\<close>

definition copying_class :: "('c \<Rightarrow> bool) \<Rightarrow> 'c cxx_class" where
  "copying_class alloc = \<lparr>
     copy_ctor = (\<lambda>s. if alloc s then Some s else None),
     move_ctor = (\<lambda>s. (if alloc s then Some s else None, s)),
     copy_assign = (\<lambda>t s. if alloc s then (s, True) else (t, False)),
     move_assign = (\<lambda>t s. if alloc s then (s, s, True) else (t, s, False)),
     nothrow_copy = False, nothrow_move = False, nothrow_move_assign = False, is_scalar = False\<rparr>"

text \<open>Numbers and enumerations.\<close>

definition scalar_class :: "'c cxx_class" where
  "scalar_class = \<lparr>
     copy_ctor = Some, move_ctor = (\<lambda>x. (Some x, x)),
     copy_assign = (\<lambda>t x. (x, True)), move_assign = (\<lambda>t x. (x, x, True)),
     nothrow_copy = True, nothrow_move = True, nothrow_move_assign = True, is_scalar = True\<rparr>"

interpretation string_class: regular_class "string_class alloc" for alloc
  by unfold_locales (auto simp: string_class_def split: if_splits)

interpretation copying_class: regular_class "copying_class alloc" for alloc
  by unfold_locales (auto simp: copying_class_def split: if_splits)

interpretation scalar_class: regular_class scalar_class
  by unfold_locales (auto simp: scalar_class_def)

section \<open>Exceptions in an assignment\<close>

text \<open>
  The exits of an assignment of \<open>y\<close> to \<open>a\<close>: the value is there, or an exception left an
  \<^verbatim>\<open>expected\<close> that can be used, or the program is over; nothing but \<open>a\<close> changes.
\<close>

definition assigned :: "('a, 't, 'e) world \<Rightarrow> 'a \<Rightarrow> 'e + 't \<Rightarrow> 't cxx_class \<Rightarrow> 'e cxx_class \<Rightarrow>
    unit exit \<Rightarrow> ('a, 't, 'e) world \<Rightarrow> bool" where
  "assigned w a y T E r w' = (case r of
     Done _ \<Rightarrow> contents (objs w' a) = Some y \<and> (\<forall>c. c \<noteq> a \<longrightarrow> objs w' c = objs w c) \<and> leaked w' = leaked w
   | Threw \<Rightarrow> (can_throw T \<or> can_throw E) \<and> contents (objs w' a) \<noteq> None \<and>
       m_has_val (objs w' a) = m_has_val (objs w a) \<and>
       (\<forall>c. c \<noteq> a \<longrightarrow> objs w' c = objs w c) \<and> leaked w' = leaked w
   | Terminated \<Rightarrow> can_throw T \<or> can_throw E
   | UB \<Rightarrow> False)"

lemma noexcept_assigned:
  "runs m w (assigned w0 a y T E) \<Longrightarrow> runs (noexcept m) w (assigned w0 a y T E)"
  by (auto simp: runs_def noexcept_def assigned_def split: exit.splits prod.splits)

locale expected_classes = T: regular_class T + E: regular_class E
  for T :: "'t cxx_class" and E :: "'e cxx_class"
begin

lemma assign_common_copy_exits:
  assumes "contents (objs w a) = Some x" and "contents (objs w b) = Some y"
    and "\<not> (isl x \<and> \<not> isl y)"
  shows "runs (assign_common_copy T E a b) w (assigned w a y T E)"
  using assms
  by (cases x; cases y)
    (auto simp: assign_common_copy_def runs_simps runs_members contents_iff assigned_def can_throw_def
        T.copy_assign_fst E.copy_assign_fst
      split: option.splits
      dest: E.copy_ctor_value)

lemma assign_copy_exits:
  assumes x: "contents (objs w a) = Some x" and y: "contents (objs w b) = Some y"
  shows "runs (assign_copy T E a b) w (assigned w a y T E)"
proof (cases "isl x \<and> \<not> isl y")
  case False
  then have common: "\<And>m. if_value_replaces_error a b m (assign_common_copy T E a b) w =
      assign_common_copy T E a b w"
    using x y by (cases x; cases y) (auto simp: if_value_replaces_error_def bnd_def has_val_def contents_iff)
  note c = assign_common_copy_exits [OF x y False]
  have "runs (if_value_replaces_error a b m (assign_common_copy T E a b)) w (assigned w a y T E)" for m
    using c by (simp add: runs_def common)
  then show ?thesis
    by (simp add: noexcept_assigned assign_copy_def assign_copy_nothrow_def assign_copy_then_move_def assign_copy_rollback_def)
next
  case True
  then obtain e v where [simp]: "x = Inl e" "y = Inr v" by (cases x; cases y) auto
  note [simp] = x [simplified, unfolded contents_iff] y [simplified, unfolded contents_iff]
  have "a \<noteq> b" using x y by auto
  have "runs (assign_copy_nothrow T E a b) w (assigned w a y T E)"
    using \<open>a \<noteq> b\<close>
    by (auto simp: assign_copy_nothrow_def runs_simps runs_members assigned_def can_throw_def contents_iff
      split: option.split dest: T.copy_ctor_value)
  moreover have "runs (assign_copy_then_move T E a b) w (assigned w a y T E)"
    using \<open>a \<noteq> b\<close>
    by (auto simp: assign_copy_then_move_def runs_simps runs_members assigned_def can_throw_def contents_iff
      split: option.split dest: T.copy_ctor_value T.move_ctor_fst)
  moreover have "runs (assign_copy_rollback T E a b) w (assigned w a y T E)"
    using \<open>a \<noteq> b\<close>
    by (auto simp: assign_copy_rollback_def runs_simps runs_members assigned_def can_throw_def contents_iff
      split: option.split dest: T.copy_ctor_value)
  ultimately show ?thesis by (simp add: assign_copy_def)
qed

end

section \<open>The storage refines a sum\<close>

text \<open>
  Programs over several \<^verbatim>\<open>expected\<close> objects: copy assignment, assignment of a value of \<open>T\<close> (an lvalue), of an
  lvalue and of an rvalue \<^verbatim>\<open>unexpected<E>\<close>, \<^verbatim>\<open>emplace\<close> and \<^verbatim>\<open>swap\<close>, each with the overload that the traits
  select.  \<open>op_allowed\<close> are the constraints of the overloads: a scalar \<open>T\<close> is not assigned by the template
  for values, which also needs an \<open>E\<close> that moves without throwing.
\<close>

datatype ('a, 't, 'e) exp_op =
    CopyAssign 'a 'a
  | SetValue 'a 't
  | SetError 'a 'e
  | MoveError 'a 'e
  | Emplace 'a 't
  | Swap 'a 'a

fun op_allowed :: "'t cxx_class \<Rightarrow> 'e cxx_class \<Rightarrow> ('a, 't, 'e) exp_op \<Rightarrow> bool" where
  "op_allowed T E (CopyAssign a b) = True"
| "op_allowed T E (SetValue a v) = (\<not> is_scalar T \<and> nothrow_move E)"
| "op_allowed T E (SetError a e) = nothrow_copy E"
| "op_allowed T E (MoveError a e) = (nothrow_move E \<or> nothrow_copy E)"
| "op_allowed T E (Emplace a v) = True"
| "op_allowed T E (Swap a b) = (nothrow_move T \<or> nothrow_move E)"

fun run_op :: "'t cxx_class \<Rightarrow> 'e cxx_class \<Rightarrow> ('a, 't, 'e) exp_op \<Rightarrow> (('a, 't, 'e) world, unit) action" where
  "run_op T E (CopyAssign a b) = assign_copy T E a b"
| "run_op T E (SetValue a v) =
     (if nothrow_copy T then assign_value_nothrow (from_option (copy_ctor T v)) (\<lambda>t. copy_assign T t v) a
      else assign_value_rollback E (from_option (copy_ctor T v)) (\<lambda>t. copy_assign T t v) a)"
| "run_op T E (SetError a e) = assign_unexpected_copy E e a"
| "run_op T E (MoveError a e) =
     (if nothrow_move E then assign_unexpected_move E e a else assign_unexpected_copy E e a)"
| "run_op T E (Emplace a v) =
     (if nothrow_copy T then emplace_nothrow (from_option (copy_ctor T v)) a
      else emplace E (from_option (copy_ctor T v)) a)"
| "run_op T E (Swap a b) = swap_expected T E a b"

fun run_ops :: "'t cxx_class \<Rightarrow> 'e cxx_class \<Rightarrow> ('a, 't, 'e) exp_op list \<Rightarrow> (('a, 't, 'e) world, unit) action" where
  "run_ops T E [] = pass ()"
| "run_ops T E (p # ps) = thn (run_op T E p) (run_ops T E ps)"

fun spec_op :: "('a, 't, 'e) exp_op \<Rightarrow> ('a \<Rightarrow> 'e + 't) \<Rightarrow> 'a \<Rightarrow> 'e + 't" where
  "spec_op (CopyAssign a b) \<sigma> = \<sigma>(a := \<sigma> b)"
| "spec_op (SetValue a v) \<sigma> = \<sigma>(a := Inr v)"
| "spec_op (SetError a e) \<sigma> = \<sigma>(a := Inl e)"
| "spec_op (MoveError a e) \<sigma> = \<sigma>(a := Inl e)"
| "spec_op (Emplace a v) \<sigma> = \<sigma>(a := Inr v)"
| "spec_op (Swap a b) \<sigma> = \<sigma>(a := \<sigma> b, b := \<sigma> a)"

definition holds :: "('a, 't, 'e) world \<Rightarrow> ('a \<Rightarrow> 'e + 't) \<Rightarrow> bool" where
  "holds w \<sigma> \<longleftrightarrow> (\<forall>x. contents (objs w x) = Some (\<sigma> x))"

definition stepped :: "('a, 't, 'e) world \<Rightarrow> ('a \<Rightarrow> 'e + 't) \<Rightarrow> unit exit \<Rightarrow> ('a, 't, 'e) world \<Rightarrow> bool" where
  "stepped w \<sigma> r w' \<longleftrightarrow> r = Done () \<and> holds w' \<sigma> \<and> leaked w' = leaked w"

locale quiet_classes = expected_classes T E for T :: "'t cxx_class" and E :: "'e cxx_class" +
  assumes quiet: "\<not> can_throw T" "\<not> can_throw E"
begin

lemmas quiet_simps = T.quiet_class [OF quiet(1)] E.quiet_class [OF quiet(2)]

lemma copy_assign_step:
  assumes "holds w \<sigma>"
  shows "runs (assign_copy T E a b) w (stepped w (\<sigma>(a := \<sigma> b)))"
proof (rule runs_mono [OF assign_copy_exits])
  show "contents (objs w a) = Some (\<sigma> a)" "contents (objs w b) = Some (\<sigma> b)"
    using assms by (simp_all add: holds_def)
  fix r w' assume "assigned w a (\<sigma> b) T E r w'"
  then show "stepped w (\<sigma>(a := \<sigma> b)) r w'"
    using assms quiet by (auto simp: assigned_def stepped_def holds_def split: exit.splits)
qed

lemma replace_step:
  assumes "holds w \<sigma>"
  shows "runs (run_op T E (SetValue a v)) w (stepped w (\<sigma>(a := Inr v)))"
    and "runs (run_op T E (SetError a e)) w (stepped w (\<sigma>(a := Inl e)))"
    and "runs (run_op T E (MoveError a e)) w (stepped w (\<sigma>(a := Inl e)))"
    and "runs (run_op T E (Emplace a v)) w (stepped w (\<sigma>(a := Inr v)))"
proof -
  have "contents (objs w a) = Some (\<sigma> a)" using assms by (simp add: holds_def)
  then consider t where "active (objs w a) = ValObj t" "m_has_val (objs w a)"
    | d where "active (objs w a) = ErrObj d" "\<not> m_has_val (objs w a)"
    by (cases "\<sigma> a") (auto simp: contents_iff)
  note cases = this
  show "runs (run_op T E (SetValue a v)) w (stepped w (\<sigma>(a := Inr v)))"
    using assms by (cases rule: cases)
      (simp_all add: assign_value_nothrow_def assign_value_rollback_def replace_error_def runs_simps
        runs_members quiet_simps stepped_def holds_def contents_iff)
  show "runs (run_op T E (SetError a e)) w (stepped w (\<sigma>(a := Inl e)))"
    using assms by (cases rule: cases)
      (simp_all add: assign_unexpected_copy_def runs_simps
        runs_members quiet_simps stepped_def holds_def contents_iff)
  show "runs (run_op T E (MoveError a e)) w (stepped w (\<sigma>(a := Inl e)))"
    using assms by (cases rule: cases)
      (simp_all add: assign_unexpected_copy_def assign_unexpected_move_def runs_simps
        runs_members quiet_simps stepped_def holds_def contents_iff)
  show "runs (run_op T E (Emplace a v)) w (stepped w (\<sigma>(a := Inr v)))"
    using assms by (cases rule: cases)
      (simp_all add: emplace_nothrow_def emplace_def replace_error_def runs_simps
        runs_members quiet_simps stepped_def holds_def contents_iff)
qed

lemma swap_one_step:
  assumes "holds w \<sigma>" and "m_has_val (objs w a)" and "\<not> m_has_val (objs w b)"
  shows "runs (swap_one T E a b) w (stepped w (\<sigma>(a := \<sigma> b, b := \<sigma> a)))"
proof -
  have c: "contents (objs w a) = Some (\<sigma> a)" "contents (objs w b) = Some (\<sigma> b)"
    using assms by (simp_all add: holds_def)
  obtain v where v: "\<sigma> a = Inr v" "active (objs w a) = ValObj v"
    using c(1) assms(2) by (cases "\<sigma> a") (auto simp: contents_iff)
  obtain e where e: "\<sigma> b = Inl e" "active (objs w b) = ErrObj e"
    using c(2) assms(3) by (cases "\<sigma> b") (auto simp: contents_iff)
  have "a \<noteq> b" using assms by blast
  with assms v e show ?thesis
    by (simp add: swap_one_def swap_one_nothrow_def swap_one_E_throws_def swap_one_T_throws_def
      runs_simps runs_members quiet_simps stepped_def holds_def contents_iff)
qed

lemma swap_same_kind_step:
  assumes "holds w \<sigma>"
  shows "m_has_val (objs w a) \<Longrightarrow> m_has_val (objs w b) \<Longrightarrow>
      runs (swap_vals T a b) w (stepped w (\<sigma>(a := \<sigma> b, b := \<sigma> a)))"
    and "\<not> m_has_val (objs w a) \<Longrightarrow> \<not> m_has_val (objs w b) \<Longrightarrow>
      runs (swap_errs E a b) w (stepped w (\<sigma>(a := \<sigma> b, b := \<sigma> a)))"
proof -
  have c: "contents (objs w a) = Some (\<sigma> a)" "contents (objs w b) = Some (\<sigma> b)"
    using assms by (simp_all add: holds_def)
  { assume f: "m_has_val (objs w a)" "m_has_val (objs w b)"
    obtain u v where "\<sigma> a = Inr u" "active (objs w a) = ValObj u" "\<sigma> b = Inr v" "active (objs w b) = ValObj v"
      using c f by (cases "\<sigma> a"; cases "\<sigma> b") (auto simp: contents_iff)
    with assms f show "runs (swap_vals T a b) w (stepped w (\<sigma>(a := \<sigma> b, b := \<sigma> a)))"
      by (cases "a = b")
        (simp_all add: swap_vals_def runs_simps runs_members quiet_simps stepped_def holds_def contents_iff) }
  { assume f: "\<not> m_has_val (objs w a)" "\<not> m_has_val (objs w b)"
    obtain u v where "\<sigma> a = Inl u" "active (objs w a) = ErrObj u" "\<sigma> b = Inl v" "active (objs w b) = ErrObj v"
      using c f by (cases "\<sigma> a"; cases "\<sigma> b") (auto simp: contents_iff)
    with assms f show "runs (swap_errs E a b) w (stepped w (\<sigma>(a := \<sigma> b, b := \<sigma> a)))"
      by (cases "a = b")
        (simp_all add: swap_errs_def runs_simps runs_members quiet_simps stepped_def holds_def contents_iff) }
qed

lemma noexcept_stepped:
  "runs m w (stepped w0 \<sigma>) \<Longrightarrow> runs ((if b then noexcept else id) m) w (stepped w0 \<sigma>)"
  by (auto simp: runs_def noexcept_def stepped_def split: exit.splits prod.splits)

lemma swap_step:
  assumes "holds w \<sigma>"
  shows "runs (swap_expected T E a b) w (stepped w (\<sigma>(a := \<sigma> b, b := \<sigma> a)))"
proof -
  have "\<sigma>(b := \<sigma> a, a := \<sigma> b) = \<sigma>(a := \<sigma> b, b := \<sigma> a)"
    by (cases "a = b") (simp_all add: fun_upd_twist)
  then show ?thesis
    using swap_one_step [OF assms, of a b] swap_one_step [OF assms, of b a] swap_same_kind_step [OF assms, of a b]
    unfolding swap_expected_def
    by (intro noexcept_stepped) (cases "m_has_val (objs w a)"; cases "m_has_val (objs w b)"; simp add: runs_simps)
qed

lemma run_op_step: "holds w \<sigma> \<Longrightarrow> runs (run_op T E p) w (stepped w (spec_op p \<sigma>))"
  by (cases p) (simp_all only: spec_op.simps replace_step, simp_all add: copy_assign_step swap_step)

lemma run_ops_steps: "holds w \<sigma> \<Longrightarrow> runs (run_ops T E ps) w (stepped w (fold spec_op ps \<sigma>))"
proof (induction ps arbitrary: w \<sigma>)
  case Nil
  then show ?case by (simp add: runs_simps stepped_def)
next
  case (Cons p ps)
  from run_op_step [OF Cons.prems] show ?case
    unfolding run_ops.simps runs_bnd
  proof (rule runs_mono)
    fix r w' assume "stepped w (spec_op p \<sigma>) r w'"
    then have *: "r = Done ()" "holds w' (spec_op p \<sigma>)" "leaked w' = leaked w"
      by (simp_all add: stepped_def)
    from Cons.IH [OF *(2)] have "runs (run_ops T E ps) w' (stepped w (fold spec_op (p # ps) \<sigma>))"
      by (rule runs_mono) (simp add: stepped_def *(3))
    then show "case r of Done x \<Rightarrow> runs (run_ops T E ps) w' (stepped w (fold spec_op (p # ps) \<sigma>))
        | Threw \<Rightarrow> stepped w (fold spec_op (p # ps) \<sigma>) Threw w'
        | Terminated \<Rightarrow> stepped w (fold spec_op (p # ps) \<sigma>) Terminated w'
        | UB \<Rightarrow> stepped w (fold spec_op (p # ps) \<sigma>) UB w'"
      by (simp add: *(1))
  qed
qed

end

interpretation copied_results: expected_classes "copying_class p" "string_class q" for p q
  by unfold_locales

interpretation quiet_results: quiet_classes "string_class (\<lambda>_. True)" scalar_class
  by unfold_locales (simp_all add: can_throw_def scalar_class_def string_class_def)

lemma destroy_defined:
  "contents (objs w x) \<noteq> None \<Longrightarrow> runs (destroy_storage x) w (\<lambda>r w'. r = Done () \<and> \<not> live (active (objs w' x)))"
  by (auto simp: destroy_storage_def runs_simps runs_members contents_iff)

text \<open>
  C16.  Programs over any number of \<^verbatim>\<open>expected\<close> objects made of copy assignments, assignments of
  values and of lvalue and rvalue errors, \<^verbatim>\<open>emplace\<close> and \<^verbatim>\<open>swap\<close> (aliased arguments included), for member classes
  none of whose constructors and assignments throws and for which the overloads used exist: they never run into
  undefined behaviour, an exception or termination; they return, every
  object then holds what the same program over a sum type computes, no member has been built over a
  live one, and every object can be destroyed.
\<close>

theorem expected_refines_sum:
  assumes "regular_class T" and "regular_class E" and "\<not> can_throw T" and "\<not> can_throw E"
    and "\<forall>x. contents (objs w x) = Some (\<sigma> x)" and "list_all (op_allowed T E) ps"
  shows "\<exists>w'. run_ops T E ps w = (Done (), w') \<and>
    (\<forall>x. contents (objs w' x) = Some (fold spec_op ps \<sigma> x)) \<and> leaked w' = leaked w \<and>
    (\<forall>x. fst (destroy_storage x w') = Done ())"
proof -
  have "quiet_classes T E"
    using assms by (simp add: quiet_classes_def quiet_classes_axioms_def expected_classes_def)
  from quiet_classes.run_ops_steps [OF this, of w \<sigma> ps] assms(5)
  have "runs (run_ops T E ps) w (stepped w (fold spec_op ps \<sigma>))" by (simp add: holds_def)
  then obtain w' where w': "run_ops T E ps w = (Done (), w')" "holds w' (fold spec_op ps \<sigma>)"
    "leaked w' = leaked w"
    by (cases "run_ops T E ps w") (auto simp: runs_def stepped_def)
  moreover have "fst (destroy_storage x w') = Done ()" for x
    using destroy_defined [of w' x] w'(2) by (simp add: runs_def holds_def)
  ultimately show ?thesis by (auto simp: holds_def)
qed

theorem expected_refines_sum_witness:
  "\<exists>w'. run_ops (string_class (\<lambda>_. True)) scalar_class
       [Swap 0 1, SetError 1 (8::nat), CopyAssign 2 0, Emplace 0 ''new'', Swap 2 2, SetValue 1 ''set'', MoveError 3 9]
       \<lparr>objs = (\<lambda>x::nat. if x = 0 then storage_in_place ''old'' else storage_unexpect 5), leaked = 0\<rparr> = (Done (), w') \<and>
     contents (objs w' 0) = Some (Inr ''new'') \<and> contents (objs w' 1) = Some (Inr ''set'') \<and>
     contents (objs w' 2) = Some (Inl 5) \<and> contents (objs w' 3) = Some (Inl 9) \<and> leaked w' = 0"
proof -
  let ?w = "\<lparr>objs = (\<lambda>x::nat. if x = 0 then storage_in_place ''old'' else storage_unexpect (5::nat)), leaked = 0\<rparr>"
  have "\<forall>x. contents (objs ?w x) = Some (if x = 0 then Inr ''old'' else Inl 5)"
    by (simp add: storage_in_place_def storage_unexpect_def contents.simps)
  moreover have "\<not> can_throw (scalar_class :: nat cxx_class)" "\<not> can_throw (string_class (\<lambda>_. True))"
    by (simp_all add: can_throw_def scalar_class_def string_class_def)
  moreover have "list_all (op_allowed (string_class (\<lambda>_. True)) scalar_class)
      [Swap 0 (1::nat), SetError 1 (8::nat), CopyAssign 2 0, Emplace 0 ''new'', Swap 2 2, SetValue 1 ''set'', MoveError 3 9]"
    by (simp add: scalar_class_def string_class_def)
  ultimately show ?thesis
    using expected_refines_sum [OF string_class.regular_class_axioms scalar_class.regular_class_axioms,
      of "\<lambda>_. True" ?w "\<lambda>x. if x = 0 then Inr ''old'' else Inl 5"] by fastforce
qed

definition sample_world :: "(nat, nat, string) world" where
  "sample_world = \<lparr>objs = (\<lambda>x. if x = 0 then storage_in_place 5 else storage_unexpect ''bad''), leaked = 0\<rparr>"

text \<open>
  C20.  A copy assignment between two \<^verbatim>\<open>expected\<close> objects, the same one included, never runs into
  undefined behaviour, whatever its member classes throw: the target gets the value or error of the
  source, or an exception leaves the target usable and of the same kind, or the program is
  terminated; the two latter only for classes that can throw.  No other object changes, the source
  included.
\<close>

theorem copy_assignment_exits:
  assumes "regular_class T" and "regular_class E"
    and "contents (objs w a) = Some x" and "contents (objs w b) = Some y"
  shows "case assign_copy T E a b w of
     (Done _, w') \<Rightarrow> contents (objs w' a) = Some y \<and> (\<forall>c. c \<noteq> a \<longrightarrow> objs w' c = objs w c) \<and> leaked w' = leaked w
   | (Threw, w') \<Rightarrow> (can_throw T \<or> can_throw E) \<and> contents (objs w' a) \<noteq> None \<and>
       m_has_val (objs w' a) = m_has_val (objs w a) \<and> (\<forall>c. c \<noteq> a \<longrightarrow> objs w' c = objs w c) \<and> leaked w' = leaked w
   | (Terminated, w') \<Rightarrow> can_throw T \<or> can_throw E
   | (UB, w') \<Rightarrow> False"
proof -
  have "expected_classes T E" using assms by (simp add: expected_classes_def)
  from expected_classes.assign_copy_exits [OF this assms(3,4)] show ?thesis
    by (auto simp: runs_def assigned_def split: prod.split exit.split)
qed

theorem copy_assignment_exits_witness:
  "fst (assign_copy (copying_class (\<lambda>n. n < 6)) (string_class (\<lambda>_. True)) 0 (0::nat) sample_world) = Done () \<and>
   fst (assign_copy (copying_class (\<lambda>n. n < 6)) (string_class (\<lambda>_. True)) 1 0 sample_world) \<noteq> UB"
proof -
  have c: "contents (objs sample_world 0) = Some (Inr 5)" "contents (objs sample_world 1) = Some (Inl ''bad'')"
    by (simp_all add: sample_world_def storage_in_place_def storage_unexpect_def contents.simps)
  note r = copying_class.regular_class_axioms string_class.regular_class_axioms
  have "fst (assign_copy (copying_class (\<lambda>n. n < 6)) (string_class (\<lambda>_. True)) 1 0 sample_world) \<noteq> UB"
    using copy_assignment_exits [OF r c(2,1), of "\<lambda>n. n < 6" "\<lambda>_. True"] by (auto split: prod.splits)
  then show ?thesis by (simp, code_simp)
qed

text \<open>
  The strong exception guarantee that the comments on \<^verbatim>\<open>assign\<close> promise does not exist.  Where
  an object that holds an error is assigned one whose value fails to copy, all overloads terminate
  the program: \<^verbatim>\<open>construct\<close>, inside the \<^verbatim>\<open>try\<close> block, and the second overload itself are
  \<^verbatim>\<open>noexcept\<close>.
\<close>

theorem failed_copy_terminates:
  assumes "contents (objs w a) = Some (Inl e)" and "contents (objs w b) = Some (Inr v)"
    and "copy_ctor T v = None" and "\<not> nothrow_copy T"
    and "fst (move_ctor E e) \<noteq> None"
  shows "fst (assign_copy T E a b w) = Terminated"
proof -
  have "a \<noteq> b" using assms by auto
  have "runs (assign_copy T E a b) w (\<lambda>r w'. r = Terminated)"
    using assms \<open>a \<noteq> b\<close>
    by (auto simp: assign_copy_def assign_copy_then_move_def assign_copy_rollback_def runs_simps
      runs_members contents_iff)
  then show ?thesis by (simp add: runs_def)
qed

theorem failed_copy_terminates_witness:
  "fst (assign_copy (copying_class (\<lambda>n. n < 4)) (string_class (\<lambda>_. True)) 1 (0::nat) sample_world) = Terminated \<and>
   fst (assign_copy (string_class (\<lambda>s. s = [])) scalar_class True False
     \<lparr>objs = (\<lambda>x. if x then storage_unexpect (3::nat) else storage_in_place ''body''), leaked = 0\<rparr>) = Terminated"
  by (intro conjI failed_copy_terminates [where e = "''bad''" and v = 5]
      failed_copy_terminates [where e = 3 and v = "''body''"])
    (simp_all add: sample_world_def storage_in_place_def storage_unexpect_def contents.simps
      copying_class_def string_class_def scalar_class_def)

text \<open>
  C39. The rollback of \<^verbatim>\<open>operator=\<close> and of \<^verbatim>\<open>emplace\<close> is undefined.  When the construction of the
  new value throws, the old error is moved back into an object that has just been destroyed; and
  an \<^verbatim>\<open>emplace\<close> that throws over a value lets the exception out and leaves an object that claims a
  value it has destroyed, so that the destructor is undefined.
\<close>

theorem failed_construction_undefined:
  assumes "contents (objs w a) = Some (Inl e)" and "fst (move_ctor E e) \<noteq> None"
    and "contents (objs w b) = Some (Inr v)"
  shows "fst (emplace E throw a w) = UB \<and> fst (emplace_list T E throw a w) = UB \<and>
    fst (assign_value_rollback E throw asg a w) = UB \<and>
    fst (emplace E throw b w) = Threw \<and> fst (destroy_storage b (snd (emplace E throw b w))) = UB"
proof -
  have "runs (emplace E throw a) w (\<lambda>r w'. r = UB)" "runs (assign_value_rollback E throw asg a) w (\<lambda>r w'. r = UB)"
    "runs (emplace_list T E throw a) w (\<lambda>r w'. r = UB)"
    using assms by (auto simp: emplace_def assign_value_rollback_def emplace_list_def replace_error_def
      runs_simps runs_members contents_iff)
  moreover have "runs (emplace E throw b) w (\<lambda>r w'. r = Threw \<and> runs (destroy_storage b) w' (\<lambda>r w''. r = UB))"
    using assms by (auto simp: emplace_def destroy_storage_def runs_simps runs_members contents_iff)
  ultimately show ?thesis by (simp add: runs_def)
qed

theorem failed_construction_undefined_witness:
  "fst (emplace (string_class (\<lambda>_. True)) throw 1 sample_world) = UB \<and>
   fst (destroy_storage 0 (snd (emplace (string_class (\<lambda>_. True)) throw 0 sample_world))) = UB"
  using failed_construction_undefined [of sample_world 1 "''bad''" "string_class (\<lambda>_. True)" 0 5]
  by (simp add: sample_world_def storage_in_place_def storage_unexpect_def contents.simps string_class_def)

text \<open>
  A converting constructor builds a default value first and then the converted contents over it,
  whose destructor is never run.
\<close>

lemma conversion_leaks:
  "convert_construct new (Inl (pass v)) a w = (Done (), w\<lparr>objs := (objs w)(a := storage_in_place v), leaked := Suc (leaked w)\<rparr>)"
  "convert_construct new (Inr (pass e)) a w = (Done (), w\<lparr>objs := (objs w)(a := storage_unexpect e), leaked := Suc (leaked w)\<rparr>)"
  by (simp_all add: convert_construct_def construct_def construct_error_def noexcept_def bnd_def pass_def
    new_obj_def set_flag_def put_slot_def storage_default_def storage_in_place_def storage_unexpect_def)

end
