(* ===== verification/Expected.thy ===== *)
theory Expected
  imports ExpectedStorage
begin

text \<open>
  \<^verbatim>\<open>include/simpleserv/utility/expected.hpp\<close>, what \<^verbatim>\<open>utility::expected<T, E>\<close> computes: access to
  the value and the error, \<^verbatim>\<open>and_then\<close>, \<^verbatim>\<open>map\<close>, \<^verbatim>\<open>map_error\<close>, \<^verbatim>\<open>or_else\<close> and the comparison
  operators.  An \<^verbatim>\<open>expected\<close> is the sum of its error and its value here, as in the models of the
  functions of the program that return one; \<open>ExpectedStorage\<close> relates the sum to the object.

  A callable takes a state and may change it, throw or be undefined, so that the laws below also
  say which callables run, and in which order.  \<^verbatim>\<open>void\<close> and \<^verbatim>\<open>monostate\<close> are \<^typ>\<open>unit\<close>.  The
  overloads for lvalues, rvalues and constants differ in whether the arguments are copied or
  moved, which the sum does not show.
\<close>

type_synonym ('s, 'r) callable = "'s \<Rightarrow> ('r \<times> 's) outcome"

section \<open>\<^verbatim>\<open>unexpected\<close>\<close>

datatype 'e unexpected = unexpected (unexpected_value: 'e)

definition make_unexpected :: "'e \<Rightarrow> 'e unexpected" where
  "make_unexpected e = unexpected e"

definition unexpected_eq :: "'e unexpected \<Rightarrow> 'e unexpected \<Rightarrow> bool" where
  "unexpected_eq l r = (unexpected_value l = unexpected_value r)"

definition unexpected_neq :: "'e unexpected \<Rightarrow> 'e unexpected \<Rightarrow> bool" where
  "unexpected_neq l r = (unexpected_value l \<noteq> unexpected_value r)"

definition unexpected_less :: "'e :: ord unexpected \<Rightarrow> 'e unexpected \<Rightarrow> bool" where
  "unexpected_less l r = (unexpected_value l < unexpected_value r)"

definition unexpected_less_eq :: "'e :: ord unexpected \<Rightarrow> 'e unexpected \<Rightarrow> bool" where
  "unexpected_less_eq l r = (unexpected_value l \<le> unexpected_value r)"

definition unexpected_greater :: "'e :: ord unexpected \<Rightarrow> 'e unexpected \<Rightarrow> bool" where
  "unexpected_greater l r = (unexpected_value l > unexpected_value r)"

definition unexpected_greater_eq :: "'e :: ord unexpected \<Rightarrow> 'e unexpected \<Rightarrow> bool" where
  "unexpected_greater_eq l r = (unexpected_value l \<ge> unexpected_value r)"

section \<open>Construction\<close>

definition expected_in_place :: "'t \<Rightarrow> ('t, 'e) storage" where
  "expected_in_place v = storage_in_place v"

definition expected_from_unexpected :: "'e unexpected \<Rightarrow> ('t, 'e) storage" where
  "expected_from_unexpected e = storage_unexpect (unexpected_value e)"

definition expected_unexpect :: "'e \<Rightarrow> ('t, 'e) storage" where
  "expected_unexpect e = storage_unexpect e"

definition expected_from_value :: "'t \<Rightarrow> ('t, 'e) storage" where
  "expected_from_value v = expected_in_place v"

lemma constructed_contents:
  "contents (expected_in_place v) = Some (Inr v)" "contents (expected_from_value v) = Some (Inr v)"
  "contents (expected_from_unexpected (make_unexpected e)) = Some (Inl e)"
  "contents (expected_unexpect e) = Some (Inl e)"
  by (simp_all add: expected_in_place_def expected_from_value_def expected_from_unexpected_def
      expected_unexpect_def make_unexpected_def storage_in_place_def storage_unexpect_def contents.simps)

section \<open>Access\<close>

text \<open>
  \<^verbatim>\<open>operator*\<close>, \<^verbatim>\<open>operator->\<close> and \<^verbatim>\<open>error()\<close> are guarded by an assertion only; \<^verbatim>\<open>value()\<close> throws the
  error in a \<^verbatim>\<open>bad_expected_access\<close>.
\<close>

datatype 'e bad_expected_access = bad_expected_access (access_error: 'e)

definition bad_access_what :: "'e bad_expected_access \<Rightarrow> string" where
  "bad_access_what b = ''Bad expected access''"

definition has_value :: "'e + 't \<Rightarrow> bool" where
  "has_value x = (case x of Inl e \<Rightarrow> False | Inr v \<Rightarrow> True)"

definition deref :: "'e + 't \<Rightarrow> 't outcome" where
  "deref x = (case x of Inl e \<Rightarrow> Undefined | Inr v \<Rightarrow> Returns v)"

definition error_of :: "'e + 't \<Rightarrow> 'e outcome" where
  "error_of x = (case x of Inl e \<Rightarrow> Returns e | Inr v \<Rightarrow> Undefined)"

definition value_of :: "'e + 't \<Rightarrow> 'e bad_expected_access + 't" where
  "value_of x = (case x of Inl e \<Rightarrow> Inl (bad_expected_access e) | Inr v \<Rightarrow> Inr v)"

definition value_or :: "'e + 't \<Rightarrow> 't \<Rightarrow> 't" where
  "value_or x v = (case x of Inl e \<Rightarrow> v | Inr v' \<Rightarrow> v')"

section \<open>\<^verbatim>\<open>and_then\<close>, \<^verbatim>\<open>map\<close>, \<^verbatim>\<open>map_error\<close>, \<^verbatim>\<open>or_else\<close>\<close>

text \<open>The overloads for a \<open>T\<close> of object type and for \<^verbatim>\<open>void\<close>, where the callable has no argument.\<close>

definition and_then_impl :: "'e + 't \<Rightarrow> ('t \<Rightarrow> ('s, 'e + 'u) callable) \<Rightarrow> ('s, 'e + 'u) callable" where
  "and_then_impl x f st = (case x of Inr v \<Rightarrow> f v st | Inl e \<Rightarrow> Returns (Inl e, st))"

definition and_then_impl_void :: "'e + unit \<Rightarrow> ('s, 'e + 'u) callable \<Rightarrow> ('s, 'e + 'u) callable" where
  "and_then_impl_void x f st = (case x of Inr _ \<Rightarrow> f st | Inl e \<Rightarrow> Returns (Inl e, st))"

definition expected_map_impl :: "'e + 't \<Rightarrow> ('t \<Rightarrow> ('s, 'u) callable) \<Rightarrow> ('s, 'e + 'u) callable" where
  "expected_map_impl x f st =
     (case x of
        Inr v \<Rightarrow> obind (f v st) (\<lambda>(u, st'). Returns (Inr u, st'))
      | Inl e \<Rightarrow> Returns (Inl e, st))"

definition expected_map_impl_to_void :: "'e + 't \<Rightarrow> ('t \<Rightarrow> ('s, unit) callable) \<Rightarrow> ('s, 'e + unit) callable" where
  "expected_map_impl_to_void x f st =
     (case x of
        Inr v \<Rightarrow> obind (f v st) (\<lambda>(_, st'). Returns (Inr (), st'))
      | Inl e \<Rightarrow> Returns (Inl e, st))"

definition expected_map_impl_from_void :: "'e + unit \<Rightarrow> ('s, 'u) callable \<Rightarrow> ('s, 'e + 'u) callable" where
  "expected_map_impl_from_void x f st =
     (case x of
        Inr _ \<Rightarrow> obind (f st) (\<lambda>(u, st'). Returns (Inr u, st'))
      | Inl e \<Rightarrow> Returns (Inl e, st))"

definition expected_map_impl_void :: "'e + unit \<Rightarrow> ('s, unit) callable \<Rightarrow> ('s, 'e + unit) callable" where
  "expected_map_impl_void x f st =
     (case x of
        Inr _ \<Rightarrow> obind (f st) (\<lambda>(_, st'). Returns (Inr (), st'))
      | Inl e \<Rightarrow> Returns (Inl e, st))"

definition map_error_impl :: "'e + 't \<Rightarrow> ('e \<Rightarrow> ('s, 'f) callable) \<Rightarrow> ('s, 'f + 't) callable" where
  "map_error_impl x f st =
     (case x of
        Inr v \<Rightarrow> Returns (Inr v, st)
      | Inl e \<Rightarrow> obind (f e st) (\<lambda>(e', st'). Returns (Inl e', st')))"

definition map_error_impl_to_void :: "'e + 't \<Rightarrow> ('e \<Rightarrow> ('s, unit) callable) \<Rightarrow> ('s, unit + 't) callable" where
  "map_error_impl_to_void x f st =
     (case x of
        Inr v \<Rightarrow> Returns (Inr v, st)
      | Inl e \<Rightarrow> obind (f e st) (\<lambda>(_, st'). Returns (Inl (), st')))"

definition map_error_impl_from_void :: "'e + unit \<Rightarrow> ('e \<Rightarrow> ('s, 'f) callable) \<Rightarrow> ('s, 'f + unit) callable" where
  "map_error_impl_from_void x f st =
     (case x of
        Inr _ \<Rightarrow> Returns (Inr (), st)
      | Inl e \<Rightarrow> obind (f e st) (\<lambda>(e', st'). Returns (Inl e', st')))"

definition map_error_impl_void :: "'e + unit \<Rightarrow> ('e \<Rightarrow> ('s, unit) callable) \<Rightarrow> ('s, unit + unit) callable" where
  "map_error_impl_void x f st =
     (case x of
        Inr _ \<Rightarrow> Returns (Inr (), st)
      | Inl e \<Rightarrow> obind (f e st) (\<lambda>(_, st'). Returns (Inl (), st')))"

text \<open>A handler that returns \<^verbatim>\<open>void\<close> leaves the error as it is.\<close>

definition or_else_impl :: "'e + 't \<Rightarrow> ('e \<Rightarrow> ('s, 'e + 't) callable) \<Rightarrow> ('s, 'e + 't) callable" where
  "or_else_impl x f st = (case x of Inr v \<Rightarrow> Returns (Inr v, st) | Inl e \<Rightarrow> f e st)"

definition or_else_impl_void :: "'e + 't \<Rightarrow> ('e \<Rightarrow> ('s, unit) callable) \<Rightarrow> ('s, 'e + 't) callable" where
  "or_else_impl_void x f st =
     (case x of
        Inr v \<Rightarrow> Returns (Inr v, st)
      | Inl e \<Rightarrow> obind (f e st) (\<lambda>(_, st'). Returns (Inl e, st')))"

text \<open>The member functions: each hands the object to the function above.\<close>

definition and_then :: "'e + 't \<Rightarrow> ('t \<Rightarrow> ('s, 'e + 'u) callable) \<Rightarrow> ('s, 'e + 'u) callable" where
  "and_then x f = and_then_impl x f"

definition map_expected :: "'e + 't \<Rightarrow> ('t \<Rightarrow> ('s, 'u) callable) \<Rightarrow> ('s, 'e + 'u) callable" where
  "map_expected x f = expected_map_impl x f"

definition transform :: "'e + 't \<Rightarrow> ('t \<Rightarrow> ('s, 'u) callable) \<Rightarrow> ('s, 'e + 'u) callable" where
  "transform x f = expected_map_impl x f"

definition map_error :: "'e + 't \<Rightarrow> ('e \<Rightarrow> ('s, 'f) callable) \<Rightarrow> ('s, 'f + 't) callable" where
  "map_error x f = map_error_impl x f"

definition transform_error :: "'e + 't \<Rightarrow> ('e \<Rightarrow> ('s, 'f) callable) \<Rightarrow> ('s, 'f + 't) callable" where
  "transform_error x f = map_error_impl x f"

definition or_else :: "'e + 't \<Rightarrow> ('e \<Rightarrow> ('s, 'e + 't) callable) \<Rightarrow> ('s, 'e + 't) callable" where
  "or_else x f = or_else_impl x f"

section \<open>Comparisons\<close>

definition expected_eq :: "'e + 't \<Rightarrow> 'e + 't \<Rightarrow> bool" where
  "expected_eq l r =
     (if has_value l \<noteq> has_value r then False
      else if \<not> has_value l then error_of l = error_of r else deref l = deref r)"

definition expected_neq :: "'e + 't \<Rightarrow> 'e + 't \<Rightarrow> bool" where
  "expected_neq l r =
     (if has_value l \<noteq> has_value r then True
      else if \<not> has_value l then error_of l \<noteq> error_of r else deref l \<noteq> deref r)"

definition expected_void_eq :: "'e + unit \<Rightarrow> 'e + unit \<Rightarrow> bool" where
  "expected_void_eq l r =
     (if has_value l \<noteq> has_value r then False
      else if \<not> has_value l then error_of l = error_of r else True)"

definition expected_void_neq :: "'e + unit \<Rightarrow> 'e + unit \<Rightarrow> bool" where
  "expected_void_neq l r =
     (if has_value l \<noteq> has_value r then True
      else if \<not> has_value l then error_of l = error_of r else False)"

definition eq_value :: "'e + 't \<Rightarrow> 't \<Rightarrow> bool" where
  "eq_value x v = (if has_value x then deref x = Returns v else False)"

definition value_eq :: "'t \<Rightarrow> 'e + 't \<Rightarrow> bool" where
  "value_eq v x = (if has_value x then deref x = Returns v else False)"

definition neq_value :: "'e + 't \<Rightarrow> 't \<Rightarrow> bool" where
  "neq_value x v = (if has_value x then deref x \<noteq> Returns v else True)"

definition value_neq :: "'t \<Rightarrow> 'e + 't \<Rightarrow> bool" where
  "value_neq v x = (if has_value x then deref x \<noteq> Returns v else True)"

definition eq_unexpected :: "'e + 't \<Rightarrow> 'e unexpected \<Rightarrow> bool" where
  "eq_unexpected x e = (if has_value x then False else error_of x = Returns (unexpected_value e))"

definition unexpected_eq_expected :: "'e unexpected \<Rightarrow> 'e + 't \<Rightarrow> bool" where
  "unexpected_eq_expected e x = (if has_value x then False else error_of x = Returns (unexpected_value e))"

definition neq_unexpected :: "'e + 't \<Rightarrow> 'e unexpected \<Rightarrow> bool" where
  "neq_unexpected x e = (if has_value x then True else error_of x \<noteq> Returns (unexpected_value e))"

definition unexpected_neq_expected :: "'e unexpected \<Rightarrow> 'e + 't \<Rightarrow> bool" where
  "unexpected_neq_expected e x = (if has_value x then True else error_of x \<noteq> Returns (unexpected_value e))"

lemmas comparison_defs = has_value_def deref_def error_of_def expected_eq_def expected_neq_def
  expected_void_eq_def expected_void_neq_def eq_value_def value_eq_def neq_value_def value_neq_def
  eq_unexpected_def unexpected_eq_expected_def neq_unexpected_def unexpected_neq_expected_def

text \<open>The comparisons with a value or an error are those with the \<^verbatim>\<open>expected\<close> made of it.\<close>

lemma mixed_comparisons:
  "eq_value x v = expected_eq x (Inr v)" "value_eq v x = expected_eq x (Inr v)"
  "neq_value x v = expected_neq x (Inr v)" "value_neq v x = expected_neq x (Inr v)"
  "eq_unexpected x e = expected_eq x (Inl (unexpected_value e))"
  "unexpected_eq_expected e x = expected_eq x (Inl (unexpected_value e))"
  "neq_unexpected x e = expected_neq x (Inl (unexpected_value e))"
  "unexpected_neq_expected e x = expected_neq x (Inl (unexpected_value e))"
  by (cases x; simp add: comparison_defs)+

lemma expected_eq_iff: "expected_eq x y \<longleftrightarrow> x = y"
  by (cases x; cases y) (simp_all add: comparison_defs)

text \<open>
  Equality of \<^verbatim>\<open>expected\<close> objects is equality of what they hold and \<^verbatim>\<open>!=\<close> is its negation, but
  not for \<^verbatim>\<open>expected<void, E>\<close>: two errors are unequal exactly when they are equal.
\<close>

theorem void_inequality:
  "(expected_eq x y \<longleftrightarrow> x = y) \<and> (expected_neq x y \<longleftrightarrow> x \<noteq> y) \<and>
   (expected_void_eq u v \<longleftrightarrow> u = v) \<and>
   (expected_void_neq u v \<longleftrightarrow> (if isl u \<and> isl v then u = v else u \<noteq> v))"
  by (cases x; cases y; cases u; cases v; simp add: comparison_defs)

section \<open>Laws\<close>

lemma and_then_left: "and_then (Inr v) f = f v"
  by (simp add: and_then_def and_then_impl_def fun_eq_iff)

lemma and_then_right: "and_then x (\<lambda>v st. Returns (Inr v, st)) st = Returns (x, st)"
  by (cases x) (simp_all add: and_then_def and_then_impl_def)

lemma and_then_assoc:
  "obind (and_then x f st) (\<lambda>(y, st'). and_then y g st') =
   and_then x (\<lambda>v st. obind (f v st) (\<lambda>(y, st'). and_then y g st')) st"
  by (cases x) (simp_all add: and_then_def and_then_impl_def)

text \<open>\<^verbatim>\<open>map\<close> is \<^verbatim>\<open>and_then\<close> with a callable that cannot fail; so is \<^verbatim>\<open>transform\<close>.\<close>

lemma map_is_and_then:
  "map_expected x f = and_then x (\<lambda>v st. obind (f v st) (\<lambda>(u, st'). Returns (Inr u, st')))"
  "transform x f = map_expected x f" "transform_error x g = map_error x g"
  by (cases x) (simp_all add: map_expected_def transform_def transform_error_def map_error_def
      expected_map_impl_def and_then_def and_then_impl_def fun_eq_iff)

lemma void_overloads:
  "and_then_impl_void u f = and_then_impl u (\<lambda>_. f)"
  "expected_map_impl_to_void x h = expected_map_impl x h"
  "expected_map_impl_from_void u k = expected_map_impl u (\<lambda>_. k)"
  "expected_map_impl_void u l = expected_map_impl u (\<lambda>_. l)"
  "map_error_impl_to_void x m = map_error_impl x m"
  "map_error_impl_from_void u n = map_error_impl u n"
  "map_error_impl_void u q = map_error_impl u q"
  by (cases u; cases x; simp add: fun_eq_iff and_then_impl_void_def and_then_impl_def expected_map_impl_to_void_def
      expected_map_impl_from_void_def expected_map_impl_void_def expected_map_impl_def map_error_impl_to_void_def
      map_error_impl_from_void_def map_error_impl_void_def map_error_impl_def split: prod.split)+

text \<open>
  A chain of \<^verbatim>\<open>and_then\<close> calls ended by \<^verbatim>\<open>or_else\<close>, and the code with an early return after each step
  that the parser of the program is written in.
\<close>

fun chain :: "('t \<Rightarrow> ('s, 'e + 't) callable) list \<Rightarrow> 'e + 't \<Rightarrow> ('s, 'e + 't) callable" where
  "chain [] x st = Returns (x, st)"
| "chain (f # fs) x st = obind (and_then x f st) (\<lambda>(y, st'). chain fs y st')"

fun early_returns_code :: "('t \<Rightarrow> ('s, 'e + 't) callable) list \<Rightarrow> ('e \<Rightarrow> ('s, 'e + 't) callable) \<Rightarrow> 't \<Rightarrow>
    ('s, 'e + 't) callable" where
  "early_returns_code [] h v st = Returns (Inr v, st)"
| "early_returns_code (f # fs) h v st = obind (f v st) (\<lambda>(y, st').
     case y of Inl e \<Rightarrow> h e st' | Inr v' \<Rightarrow> early_returns_code fs h v' st')"

lemma chain_error: "chain fs (Inl e) st = Returns (Inl e, st)"
  by (induction fs) (simp_all add: and_then_def and_then_impl_def)

text \<open>
  A chain of \<^verbatim>\<open>and_then\<close> calls closed by \<^verbatim>\<open>or_else\<close> computes what the code with an early return
  after each step computes: the callables run in order up to the first that fails, with its state
  and its exceptions; the handler sees that error and runs exactly then.
\<close>

theorem and_then_early_returns:
  "obind (chain fs (Inr v) st) (\<lambda>(y, st'). or_else y h st') = early_returns_code fs h v st"
proof (induction fs arbitrary: v st)
  case Nil
  then show ?case by (simp add: or_else_def or_else_impl_def)
next
  case (Cons f fs)
  have "(\<lambda>p. obind (case p of (y, st') \<Rightarrow> chain fs y st') (\<lambda>(y, st'). or_else y h st')) =
      (\<lambda>(y, st'). case y of Inl e \<Rightarrow> h e st' | Inr v' \<Rightarrow> early_returns_code fs h v' st')"
    using Cons.IH by (auto simp: fun_eq_iff chain_error or_else_def or_else_impl_def split: sum.split)
  then show ?case by (simp add: and_then_left obind_assoc)
qed

text \<open>
  What the sum says of the object: an \<^verbatim>\<open>expected\<close> that holds \<open>x\<close> in its storage answers
  \<^verbatim>\<open>has_value\<close>, \<^verbatim>\<open>operator*\<close> and \<^verbatim>\<open>error\<close> as the sum does.
\<close>

lemma storage_access:
  assumes "contents (objs w a) = Some x"
  shows "fst (has_val a w) = Done (has_value x)"
    and "fst (get a w) = (case deref x of Returns v \<Rightarrow> Done v | _ \<Rightarrow> UB)"
    and "fst (geterr a w) = (case error_of x of Returns e \<Rightarrow> Done e | _ \<Rightarrow> UB)"
  using assms
  by (cases x; simp add: has_val_def get_def geterr_def contents_iff has_value_def deref_def error_of_def)+

end
