(* ===== verification/ExpectedTraits.thy ===== *)
theory ExpectedTraits
  imports Main
begin

text \<open>
  Which special members \<^verbatim>\<open>expected<T, E>\<close> has (\<^verbatim>\<open>utility/expected.hpp\<close>): the chain of base classes that
  are chosen by the traits of \<open>T\<close> and \<open>E\<close>, each of which defaults, provides or deletes copying and
  moving, and the rules of the language for members that are defaulted.  The constraints of the
  constructor templates are in \<open>ExpectedOverloads\<close>.
\<close>

section \<open>The rules of the language\<close>

text \<open>The bodies the classes provide.\<close>

datatype body = StorageBody | CopyBase | MoveBase | CopyAssignBase | MoveAssignBase

text \<open>
  A special member is not declared, is deleted by the class (\<open>Killed\<close>), is defaulted and defined as
  deleted (\<open>Unusable\<close>), is trivial, or runs a body.
\<close>

datatype special_member = NotDeclared | Killed | Unusable | Trivial | Runs body

fun usable :: "special_member \<Rightarrow> bool" where
  "usable Trivial = True"
| "usable (Runs b) = True"
| "usable _ = False"

text \<open>Overload resolution does not see a defaulted move that is defined as deleted, and takes the copy.\<close>

definition on_rvalue :: "special_member \<Rightarrow> special_member \<Rightarrow> special_member" where
  "on_rvalue copy move = (if move = NotDeclared \<or> move = Unusable then copy else move)"

text \<open>A defaulted member does what it selects for every base, and is deleted if one of these is.\<close>

definition defaulted :: "special_member list \<Rightarrow> special_member" where
  "defaulted ms =
     (if list_all usable ms then (case filter (\<lambda>m. m \<noteq> Trivial) ms of [] \<Rightarrow> Trivial | m # _ \<Rightarrow> m) else Unusable)"

text \<open>In a union, a variant whose member is not trivial deletes it.\<close>

definition of_union :: "bool list \<Rightarrow> special_member" where
  "of_union trivial = (if list_all id trivial then Trivial else Unusable)"

record special_members =
  copy_c :: special_member
  move_c :: special_member
  copy_a :: special_member
  move_a :: special_member
  dtor :: special_member

definition from_bases :: "special_members list \<Rightarrow> special_members" where
  "from_bases bs =
     \<lparr>copy_c = defaulted (map copy_c bs), move_c = defaulted (map (\<lambda>b. on_rvalue (copy_c b) (move_c b)) bs),
      copy_a = defaulted (map copy_a bs), move_a = defaulted (map (\<lambda>b. on_rvalue (copy_a b) (move_a b)) bs),
      dtor = defaulted (map dtor bs)\<rparr>"

section \<open>The traits\<close>

text \<open>What the standard library's traits answer; \<open>is_void\<close> for \<^verbatim>\<open>expected<void, E>\<close>.\<close>

record class_traits =
  is_void :: bool
  default_constructible :: bool
  copy_constructible :: bool
  move_constructible :: bool
  copy_assignable :: bool
  move_assignable :: bool
  trivially_copy_constructible :: bool
  trivially_move_constructible :: bool
  trivially_copy_assignable :: bool
  trivially_move_assignable :: bool
  trivially_destructible :: bool

definition is_void_or :: "class_traits \<Rightarrow> bool \<Rightarrow> bool" where
  "is_void_or T b = (if is_void T then True else b)"

definition is_copy_constructible_or_void :: "class_traits \<Rightarrow> bool" where
  "is_copy_constructible_or_void T = is_void_or T (copy_constructible T)"

definition is_move_constructible_or_void :: "class_traits \<Rightarrow> bool" where
  "is_move_constructible_or_void T = is_void_or T (move_constructible T)"

definition is_copy_assignable_or_void :: "class_traits \<Rightarrow> bool" where
  "is_copy_assignable_or_void T = is_void_or T (copy_assignable T)"

definition is_move_assignable_or_void :: "class_traits \<Rightarrow> bool" where
  "is_move_assignable_or_void T = is_void_or T (move_assignable T)"

section \<open>The base classes\<close>

text \<open>
  The specialisations of the storage, by which members are trivially destructible.  Each is an
  anonymous union of the members and declares a destructor, if only as defaulted; a class that declares
  a destructor has the implicit copies and no implicit moves.
\<close>

definition union_class :: "class_traits list \<Rightarrow> special_member \<Rightarrow> special_members" where
  "union_class variants destructor =
     \<lparr>copy_c = of_union (map trivially_copy_constructible variants), move_c = NotDeclared,
      copy_a = of_union (map trivially_copy_assignable variants), move_a = NotDeclared,
      dtor = destructor\<rparr>"

definition storage_neither :: "class_traits \<Rightarrow> class_traits \<Rightarrow> special_members" where
  "storage_neither T E = union_class [T, E] (Runs StorageBody)"

definition storage_both :: "class_traits \<Rightarrow> class_traits \<Rightarrow> special_members" where
  "storage_both T E = union_class [T, E] (of_union (map trivially_destructible [T, E]))"

definition storage_T_only :: "class_traits \<Rightarrow> class_traits \<Rightarrow> special_members" where
  "storage_T_only T E = union_class [T, E] (Runs StorageBody)"

definition storage_E_only :: "class_traits \<Rightarrow> class_traits \<Rightarrow> special_members" where
  "storage_E_only T E = union_class [T, E] (Runs StorageBody)"

definition storage_void_E :: "class_traits \<Rightarrow> special_members" where
  "storage_void_E E = union_class [E] (of_union (map trivially_destructible [E]))"

definition storage_void :: "class_traits \<Rightarrow> special_members" where
  "storage_void E = union_class [E] (Runs StorageBody)"

definition expected_storage_base :: "class_traits \<Rightarrow> class_traits \<Rightarrow> special_members" where
  "expected_storage_base T E =
     (if is_void T then (if trivially_destructible E then storage_void_E E else storage_void E)
      else if trivially_destructible T then (if trivially_destructible E then storage_both T E else storage_T_only T E)
      else if trivially_destructible E then storage_E_only T E else storage_neither T E)"

definition expected_operations_base :: "class_traits \<Rightarrow> class_traits \<Rightarrow> special_members" where
  "expected_operations_base T E = from_bases [expected_storage_base T E]"

definition expected_copy_base :: "class_traits \<Rightarrow> class_traits \<Rightarrow> special_members" where
  "expected_copy_base T E =
     (if is_void_or T (trivially_copy_constructible T) \<and> trivially_copy_constructible E
      then from_bases [expected_operations_base T E]
      else (from_bases [expected_operations_base T E])\<lparr>copy_c := Runs CopyBase\<rparr>)"

definition expected_move_base :: "class_traits \<Rightarrow> class_traits \<Rightarrow> special_members" where
  "expected_move_base T E =
     (if is_void_or T (trivially_move_constructible T) \<and> trivially_move_constructible E
      then from_bases [expected_copy_base T E]
      else (from_bases [expected_copy_base T E])\<lparr>move_c := Runs MoveBase\<rparr>)"

definition expected_copy_assign_base :: "class_traits \<Rightarrow> class_traits \<Rightarrow> special_members" where
  "expected_copy_assign_base T E =
     (if is_void_or T (trivially_copy_assignable T \<and> trivially_copy_constructible T \<and> trivially_destructible T) \<and>
         trivially_copy_assignable E \<and> trivially_copy_constructible E \<and> trivially_destructible E
      then from_bases [expected_move_base T E]
      else (from_bases [expected_move_base T E])\<lparr>copy_a := Runs CopyAssignBase\<rparr>)"

definition expected_move_assign_base :: "class_traits \<Rightarrow> class_traits \<Rightarrow> special_members" where
  "expected_move_assign_base T E =
     (if is_void_or T (trivially_destructible T \<and> trivially_move_constructible T \<and> trivially_move_assignable T) \<and>
         trivially_destructible E \<and> trivially_move_constructible E \<and> trivially_move_assignable E
      then from_bases [expected_copy_assign_base T E]
      else (from_bases [expected_copy_assign_base T E])\<lparr>move_a := Runs MoveAssignBase\<rparr>)"

text \<open>The empty bases that only delete.\<close>

definition nothing_deleted :: special_members where
  "nothing_deleted = \<lparr>copy_c = Trivial, move_c = Trivial, copy_a = Trivial, move_a = Trivial, dtor = Trivial\<rparr>"

fun expected_delete_ctor_base :: "bool \<Rightarrow> bool \<Rightarrow> special_members" where
  "expected_delete_ctor_base True True = nothing_deleted"
| "expected_delete_ctor_base True False = nothing_deleted\<lparr>move_c := Killed\<rparr>"
| "expected_delete_ctor_base False True = nothing_deleted\<lparr>copy_c := Killed\<rparr>"
| "expected_delete_ctor_base False False = nothing_deleted\<lparr>copy_c := Killed, move_c := Killed\<rparr>"

fun expected_delete_assign_base :: "bool \<Rightarrow> bool \<Rightarrow> special_members" where
  "expected_delete_assign_base True True = nothing_deleted"
| "expected_delete_assign_base True False = nothing_deleted\<lparr>move_a := Killed\<rparr>"
| "expected_delete_assign_base False True = nothing_deleted\<lparr>copy_a := Killed\<rparr>"
| "expected_delete_assign_base False False = nothing_deleted\<lparr>copy_a := Killed, move_a := Killed\<rparr>"

definition enable_copy :: "class_traits \<Rightarrow> class_traits \<Rightarrow> bool" where
  "enable_copy T E \<longleftrightarrow> is_copy_constructible_or_void T \<and> copy_constructible E"

definition enable_move :: "class_traits \<Rightarrow> class_traits \<Rightarrow> bool" where
  "enable_move T E \<longleftrightarrow> is_move_constructible_or_void T \<and> move_constructible E"

definition enable_copy_assign :: "class_traits \<Rightarrow> class_traits \<Rightarrow> bool" where
  "enable_copy_assign T E \<longleftrightarrow>
     is_copy_constructible_or_void T \<and> copy_constructible E \<and> is_copy_assignable_or_void T \<and> copy_assignable E"

definition enable_move_assign :: "class_traits \<Rightarrow> class_traits \<Rightarrow> bool" where
  "enable_move_assign T E \<longleftrightarrow>
     is_move_constructible_or_void T \<and> move_constructible E \<and> is_move_assignable_or_void T \<and> move_assignable E"

text \<open>The default constructor of the empty base for it, and that of \<^verbatim>\<open>expected\<close>.\<close>

definition expected_default_ctor_base :: "class_traits \<Rightarrow> special_member" where
  "expected_default_ctor_base T = (if default_constructible T \<or> is_void T then Trivial else Killed)"

definition expected_default_ctor :: "class_traits \<Rightarrow> special_member" where
  "expected_default_ctor T = defaulted [Runs StorageBody, Trivial, Trivial, expected_default_ctor_base T]"

definition expected :: "class_traits \<Rightarrow> class_traits \<Rightarrow> special_members" where
  "expected T E = from_bases
     [expected_move_assign_base T E, expected_delete_ctor_base (enable_copy T E) (enable_move T E),
      expected_delete_assign_base (enable_copy_assign T E) (enable_move_assign T E), nothing_deleted]"

text \<open>What happens to an rvalue.\<close>

abbreviation construct_from_rvalue :: "special_members \<Rightarrow> special_member" where
  "construct_from_rvalue m \<equiv> on_rvalue (copy_c m) (move_c m)"

abbreviation assign_from_rvalue :: "special_members \<Rightarrow> special_member" where
  "assign_from_rvalue m \<equiv> on_rvalue (copy_a m) (move_a m)"

section \<open>Facts\<close>

text \<open>How the traits of one class hang together, by the definition of the trivial ones.\<close>

definition traits_ok :: "class_traits \<Rightarrow> bool" where
  "traits_ok C \<longleftrightarrow>
     (trivially_copy_constructible C \<longrightarrow> copy_constructible C \<and> trivially_destructible C) \<and>
     (trivially_move_constructible C \<longrightarrow> move_constructible C \<and> trivially_destructible C) \<and>
     (trivially_copy_assignable C \<longrightarrow> copy_assignable C) \<and>
     (trivially_move_assignable C \<longrightarrow> move_assignable C)"

lemmas member_rules = from_bases_def defaulted_def on_rvalue_def of_union_def nothing_deleted_def is_void_or_def Let_def

lemma delete_ctor_base_members:
  "copy_c (expected_delete_ctor_base c m) = (if c then Trivial else Killed)"
  "move_c (expected_delete_ctor_base c m) = (if m then Trivial else Killed)"
  "copy_a (expected_delete_ctor_base c m) = Trivial" "move_a (expected_delete_ctor_base c m) = Trivial"
  "dtor (expected_delete_ctor_base c m) = Trivial"
  by (cases c; cases m; simp add: nothing_deleted_def)+

lemma delete_assign_base_members:
  "copy_a (expected_delete_assign_base c m) = (if c then Trivial else Killed)"
  "move_a (expected_delete_assign_base c m) = (if m then Trivial else Killed)"
  "copy_c (expected_delete_assign_base c m) = Trivial" "move_c (expected_delete_assign_base c m) = Trivial"
  "dtor (expected_delete_assign_base c m) = Trivial"
  by (cases c; cases m; simp add: nothing_deleted_def)+

lemma from_one_base:
  "copy_c (from_bases [b]) = (if usable (copy_c b) then copy_c b else Unusable)"
  "copy_a (from_bases [b]) = (if usable (copy_a b) then copy_a b else Unusable)"
  "dtor (from_bases [b]) = (if usable (dtor b) then dtor b else Unusable)"
  "move_c (from_bases [b]) =
     (if usable (on_rvalue (copy_c b) (move_c b)) then on_rvalue (copy_c b) (move_c b) else Unusable)"
  "move_a (from_bases [b]) =
     (if usable (on_rvalue (copy_a b) (move_a b)) then on_rvalue (copy_a b) (move_a b) else Unusable)"
  by (auto simp: from_bases_def defaulted_def)

text \<open>A trait of both members, where \<^verbatim>\<open>void\<close> has every trait.\<close>

definition both :: "(class_traits \<Rightarrow> bool) \<Rightarrow> class_traits \<Rightarrow> class_traits \<Rightarrow> bool" where
  "both trait T E \<longleftrightarrow> is_void_or T (trait T) \<and> trait E"

lemmas storage_defs = expected_storage_base_def storage_neither_def storage_both_def storage_T_only_def
  storage_E_only_def storage_void_E_def storage_void_def union_class_def of_union_def

lemma storage_members:
  "copy_c (expected_storage_base T E) = (if both trivially_copy_constructible T E then Trivial else Unusable)"
  "copy_a (expected_storage_base T E) = (if both trivially_copy_assignable T E then Trivial else Unusable)"
  "dtor (expected_storage_base T E) = (if both trivially_destructible T E then Trivial else Runs StorageBody)"
  "move_c (expected_storage_base T E) = NotDeclared" "move_a (expected_storage_base T E) = NotDeclared"
  by (simp_all add: storage_defs both_def is_void_or_def)

text \<open>The copy constructor and the destructor, from class to class.\<close>

abbreviation triv_copy :: "class_traits \<Rightarrow> class_traits \<Rightarrow> bool" where
  "triv_copy \<equiv> both trivially_copy_constructible"

lemma chain_copy_c:
  "copy_c (expected_operations_base T E) = (if triv_copy T E then Trivial else Unusable)"
  "copy_c (expected_copy_base T E) = (if triv_copy T E then Trivial else Runs CopyBase)"
  "copy_c (expected_move_base T E) = (if triv_copy T E then Trivial else Runs CopyBase)"
  "copy_c (expected_copy_assign_base T E) = (if triv_copy T E then Trivial else Runs CopyBase)"
  "copy_c (expected_move_assign_base T E) = (if triv_copy T E then Trivial else Runs CopyBase)"
proof -
  show 1: "copy_c (expected_operations_base T E) = (if triv_copy T E then Trivial else Unusable)"
    by (simp add: expected_operations_base_def from_one_base storage_members)
  then show 2: "copy_c (expected_copy_base T E) = (if triv_copy T E then Trivial else Runs CopyBase)"
    by (simp add: expected_copy_base_def from_one_base both_def)
  then show 3: "copy_c (expected_move_base T E) = (if triv_copy T E then Trivial else Runs CopyBase)"
    by (simp add: expected_move_base_def from_one_base)
  then show 4: "copy_c (expected_copy_assign_base T E) = (if triv_copy T E then Trivial else Runs CopyBase)"
    by (simp add: expected_copy_assign_base_def from_one_base)
  then show "copy_c (expected_move_assign_base T E) = (if triv_copy T E then Trivial else Runs CopyBase)"
    by (simp add: expected_move_assign_base_def from_one_base)
qed

lemma chain_dtor:
  "dtor (expected_move_assign_base T E) = (if both trivially_destructible T E then Trivial else Runs StorageBody)"
proof -
  have "dtor (expected_operations_base T E) = dtor (expected_storage_base T E)"
    by (simp add: expected_operations_base_def from_one_base storage_members)
  then have "dtor (expected_copy_base T E) = dtor (expected_storage_base T E)"
    by (simp add: expected_copy_base_def from_one_base storage_members)
  then have "dtor (expected_move_base T E) = dtor (expected_storage_base T E)"
    by (simp add: expected_move_base_def from_one_base storage_members)
  then have "dtor (expected_copy_assign_base T E) = dtor (expected_storage_base T E)"
    by (simp add: expected_copy_assign_base_def from_one_base storage_members)
  then show ?thesis
    by (simp add: expected_move_assign_base_def from_one_base storage_members)
qed

text \<open>The copy assignment.\<close>

abbreviation triv_copy_assign :: "class_traits \<Rightarrow> class_traits \<Rightarrow> bool" where
  "triv_copy_assign T E \<equiv>
     both trivially_copy_assignable T E \<and> both trivially_copy_constructible T E \<and> both trivially_destructible T E"

lemma chain_copy_a:
  "copy_a (expected_operations_base T E) = (if both trivially_copy_assignable T E then Trivial else Unusable)"
  "copy_a (expected_copy_base T E) = (if both trivially_copy_assignable T E then Trivial else Unusable)"
  "copy_a (expected_move_base T E) = (if both trivially_copy_assignable T E then Trivial else Unusable)"
  "copy_a (expected_copy_assign_base T E) = (if triv_copy_assign T E then Trivial else Runs CopyAssignBase)"
  "copy_a (expected_move_assign_base T E) = (if triv_copy_assign T E then Trivial else Runs CopyAssignBase)"
proof -
  show 1: "copy_a (expected_operations_base T E) = (if both trivially_copy_assignable T E then Trivial else Unusable)"
    by (simp add: expected_operations_base_def from_one_base storage_members)
  then show 2: "copy_a (expected_copy_base T E) = (if both trivially_copy_assignable T E then Trivial else Unusable)"
    by (simp add: expected_copy_base_def from_one_base)
  then show 3: "copy_a (expected_move_base T E) = (if both trivially_copy_assignable T E then Trivial else Unusable)"
    by (simp add: expected_move_base_def from_one_base)
  then show 4: "copy_a (expected_copy_assign_base T E) = (if triv_copy_assign T E then Trivial else Runs CopyAssignBase)"
    by (auto simp: expected_copy_assign_base_def from_one_base both_def is_void_or_def)
  then show "copy_a (expected_move_assign_base T E) = (if triv_copy_assign T E then Trivial else Runs CopyAssignBase)"
    by (simp add: expected_move_assign_base_def from_one_base)
qed

text \<open>
  Construction from an rvalue.  No class of the chain has a move of the bytes, as the storage has no
  move: the copy of the bytes stands in where there is one.
\<close>

abbreviation triv_move :: "class_traits \<Rightarrow> class_traits \<Rightarrow> bool" where
  "triv_move \<equiv> both trivially_move_constructible"

lemma chain_construct:
  "construct_from_rvalue (expected_move_assign_base T E) =
     (if \<not> triv_move T E then Runs MoveBase else if triv_copy T E then Trivial else Runs CopyBase)"
proof -
  have 1: "move_c (expected_operations_base T E) = (if triv_copy T E then Trivial else Unusable)"
    by (simp add: expected_operations_base_def from_one_base on_rvalue_def storage_members)
  have 2: "move_c (expected_copy_base T E) = (if triv_copy T E then Trivial else Unusable)"
    by (simp add: expected_copy_base_def from_one_base on_rvalue_def 1 chain_copy_c)
  have m: "is_void_or T (trivially_move_constructible T) \<and> trivially_move_constructible E \<longleftrightarrow> triv_move T E"
    by (simp add: both_def)
  have 3: "construct_from_rvalue (expected_move_base T E) =
             (if \<not> triv_move T E then Runs MoveBase else if triv_copy T E then Trivial else Runs CopyBase)"
    unfolding expected_move_base_def m by (simp add: from_one_base on_rvalue_def 2 chain_copy_c)
  then have "construct_from_rvalue (expected_copy_assign_base T E) = construct_from_rvalue (expected_move_base T E)"
    by (simp add: expected_copy_assign_base_def from_one_base on_rvalue_def)
  then show ?thesis
    using 3 by (simp add: expected_move_assign_base_def from_one_base on_rvalue_def)
qed

text \<open>Assignment from an rvalue.\<close>

abbreviation triv_move_assign :: "class_traits \<Rightarrow> class_traits \<Rightarrow> bool" where
  "triv_move_assign T E \<equiv>
     both trivially_destructible T E \<and> both trivially_move_constructible T E \<and> both trivially_move_assignable T E"

lemma chain_assign:
  "assign_from_rvalue (expected_move_assign_base T E) =
     (if \<not> triv_move_assign T E then Runs MoveAssignBase
      else if both trivially_copy_assignable T E then Trivial else Runs CopyAssignBase)"
proof -
  let ?a = "if both trivially_copy_assignable T E then Trivial else Unusable"
  have 1: "move_a (expected_operations_base T E) = ?a"
    by (simp add: expected_operations_base_def from_one_base on_rvalue_def storage_members)
  then have 2: "move_a (expected_copy_base T E) = ?a"
    by (simp add: expected_copy_base_def from_one_base on_rvalue_def chain_copy_a)
  then have 3: "move_a (expected_move_base T E) = ?a"
    by (simp add: expected_move_base_def from_one_base on_rvalue_def chain_copy_a)
  then have 4: "move_a (expected_copy_assign_base T E) = ?a"
    by (simp add: expected_copy_assign_base_def from_one_base on_rvalue_def chain_copy_a)
  have m: "is_void_or T (trivially_destructible T \<and> trivially_move_constructible T \<and> trivially_move_assignable T) \<and>
           trivially_destructible E \<and> trivially_move_constructible E \<and> trivially_move_assignable E \<longleftrightarrow>
           triv_move_assign T E"
    by (auto simp: both_def is_void_or_def)
  show ?thesis
    unfolding expected_move_assign_base_def m by (auto simp: from_one_base on_rvalue_def 4 chain_copy_a)
qed

section \<open>The special members of \<^verbatim>\<open>expected\<close>\<close>

text \<open>The base in \<^verbatim>\<open>expected\<close> with the members, and the ones that only delete.\<close>

lemma expected_selects:
  "copy_c (expected T E) =
     (if enable_copy T E \<and> usable (copy_c (expected_move_assign_base T E))
      then copy_c (expected_move_assign_base T E) else Unusable)"
  "move_c (expected T E) =
     (if enable_move T E \<and> usable (construct_from_rvalue (expected_move_assign_base T E))
      then construct_from_rvalue (expected_move_assign_base T E) else Unusable)"
  "copy_a (expected T E) =
     (if enable_copy_assign T E \<and> usable (copy_a (expected_move_assign_base T E))
      then copy_a (expected_move_assign_base T E) else Unusable)"
  "move_a (expected T E) =
     (if enable_move_assign T E \<and> usable (assign_from_rvalue (expected_move_assign_base T E))
      then assign_from_rvalue (expected_move_assign_base T E) else Unusable)"
  "dtor (expected T E) =
     (if usable (dtor (expected_move_assign_base T E)) then dtor (expected_move_assign_base T E) else Unusable)"
  by (auto simp: expected_def from_bases_def defaulted_def delete_ctor_base_members delete_assign_base_members
      nothing_deleted_def on_rvalue_def)

lemma expected_construct:
  "construct_from_rvalue (expected T E) =
     (if \<not> enable_move T E then copy_c (expected T E)
      else if \<not> triv_move T E then Runs MoveBase else if triv_copy T E then Trivial else Runs CopyBase)"
  by (auto simp: on_rvalue_def expected_selects(2) chain_construct [unfolded on_rvalue_def])

lemma expected_assign:
  "assign_from_rvalue (expected T E) =
     (if \<not> enable_move_assign T E then copy_a (expected T E)
      else if \<not> triv_move_assign T E then Runs MoveAssignBase
      else if both trivially_copy_assignable T E then Trivial else Runs CopyAssignBase)"
  by (auto simp: on_rvalue_def expected_selects(4) chain_assign [unfolded on_rvalue_def])

text \<open>
  C22. Which special members \<^verbatim>\<open>expected<T, E>\<close> has and what each does.  It copies and moves if its
  members can, and copies the bytes of the union only if both members are copied, or moved, in that way;
  everything else runs the body written for it, with one exception: members that are trivially movable
  but not trivially copyable are moved by the body that copies, as the storage has no move.  Deleting
  only the move has no effect, for then rvalues are copied.
\<close>

theorem expected_members:
  "copy_c (expected T E) =
     (if \<not> enable_copy T E then Unusable else if triv_copy T E then Trivial else Runs CopyBase) \<and>
   construct_from_rvalue (expected T E) =
     (if \<not> enable_move T E then copy_c (expected T E)
      else if \<not> triv_move T E then Runs MoveBase else if triv_copy T E then Trivial else Runs CopyBase) \<and>
   copy_a (expected T E) =
     (if \<not> enable_copy_assign T E then Unusable
      else if triv_copy_assign T E then Trivial else Runs CopyAssignBase) \<and>
   assign_from_rvalue (expected T E) =
     (if \<not> enable_move_assign T E then copy_a (expected T E)
      else if \<not> triv_move_assign T E then Runs MoveAssignBase
      else if both trivially_copy_assignable T E then Trivial else Runs CopyAssignBase) \<and>
   dtor (expected T E) = (if both trivially_destructible T E then Trivial else Runs StorageBody) \<and>
   (usable (expected_default_ctor T) \<longleftrightarrow> default_constructible T \<or> is_void T)"
  by (simp add: expected_construct expected_assign)
    (simp add: expected_selects(1,3,5) chain_copy_c chain_copy_a chain_dtor
      expected_default_ctor_def expected_default_ctor_base_def defaulted_def)

lemma trivial_enabled:
  assumes "traits_ok T" "traits_ok E"
  shows "triv_copy T E \<Longrightarrow> enable_copy T E" "triv_move T E \<Longrightarrow> enable_move T E"
  using assms
  by (auto simp: traits_ok_def both_def is_void_or_def enable_copy_def enable_move_def
      is_copy_constructible_or_void_def is_move_constructible_or_void_def)

text \<open>
  Values that are trivially movable and cannot be copied: \<^verbatim>\<open>expected\<close> is to be movable, but moving it
  instantiates the body that copies them, which does not compile.
\<close>

theorem move_only_is_copied:
  assumes "traits_ok T" "traits_ok E" "triv_move T E" "\<not> enable_copy T E"
  shows "enable_move T E \<and> construct_from_rvalue (expected T E) = Runs CopyBase"
proof -
  have "enable_move T E" "\<not> triv_copy T E"
    using trivial_enabled [OF assms(1,2)] assms(3,4) by blast+
  then show ?thesis
    using assms(3) by (simp add: expected_construct)
qed

text \<open>The traits of \<^verbatim>\<open>std::string\<close>, of an enumeration and of an empty class that can only be moved.\<close>

definition string_traits :: class_traits where
  "string_traits = \<lparr>is_void = False, default_constructible = True, copy_constructible = True,
     move_constructible = True, copy_assignable = True, move_assignable = True,
     trivially_copy_constructible = False, trivially_move_constructible = False,
     trivially_copy_assignable = False, trivially_move_assignable = False, trivially_destructible = False\<rparr>"

definition enum_traits :: class_traits where
  "enum_traits = \<lparr>is_void = False, default_constructible = True, copy_constructible = True,
     move_constructible = True, copy_assignable = True, move_assignable = True,
     trivially_copy_constructible = True, trivially_move_constructible = True,
     trivially_copy_assignable = True, trivially_move_assignable = True, trivially_destructible = True\<rparr>"

definition token_traits :: class_traits where
  "token_traits = enum_traits\<lparr>copy_constructible := False, copy_assignable := False,
     trivially_copy_constructible := False, trivially_copy_assignable := False\<rparr>"

lemma members_of_program_types:
  "construct_from_rvalue (expected string_traits enum_traits) = Runs MoveBase"
  "copy_c (expected enum_traits enum_traits) = Trivial"
  "dtor (expected enum_traits string_traits) = Runs StorageBody"
  by (simp_all only: expected_construct)
    (simp_all add: expected_selects(1,5) chain_copy_c chain_dtor string_traits_def
      enum_traits_def both_def is_void_or_def enable_copy_def enable_move_def
      is_copy_constructible_or_void_def is_move_constructible_or_void_def)

lemma move_only_is_copied_witness:
  "enable_move token_traits enum_traits \<and>
   construct_from_rvalue (expected token_traits enum_traits) = Runs CopyBase"
  using move_only_is_copied [of token_traits enum_traits]
  by (simp add: traits_ok_def token_traits_def enum_traits_def both_def is_void_or_def enable_copy_def
      is_copy_constructible_or_void_def)

end
