(* ===== verification/ExpectedSwap.thy ===== *)
theory ExpectedSwap
  imports ExpectedStorage
begin

text \<open>
  \<^verbatim>\<open>utility/expected.hpp\<close>, swapping: the traits that say whether a type can be swapped and whether that may
  throw, when \<^verbatim>\<open>expected::swap\<close> takes part in overload resolution, and what its \<^verbatim>\<open>noexcept\<close> promises.  A class
  may bring a \<^verbatim>\<open>swap\<close> of its own; where it does not, \<^verbatim>\<open>std::swap\<close> moves three times.
\<close>

section \<open>The traits\<close>

text \<open>
  What an unqualified \<^verbatim>\<open>swap\<close> of two objects of a class finds: only the one of \<^verbatim>\<open>std\<close>, one of the class's own,
  which yields both objects afterwards and whether it returned and may be \<^verbatim>\<open>noexcept\<close>, or no usable one.
\<close>

datatype 'c found_swap =
    StdSwap
  | OwnSwap "'c \<Rightarrow> 'c \<Rightarrow> 'c \<times> 'c \<times> bool" bool
  | NoUsableSwap

record 'c swap_traits =
  found :: "'c found_swap"
  move_constructible :: bool
  move_assignable :: bool

definition can_swap :: "'c swap_traits \<Rightarrow> bool" where
  "can_swap S = (case found S of NoUsableSwap \<Rightarrow> False | _ \<Rightarrow> True)"

definition uses_std :: "'c swap_traits \<Rightarrow> bool" where
  "uses_std S = (case found S of StdSwap \<Rightarrow> True | _ \<Rightarrow> False)"

definition is_std_swap_noexcept :: "'c cxx_class \<Rightarrow> bool" where
  "is_std_swap_noexcept C \<longleftrightarrow> nothrow_move C \<and> nothrow_move_assign C"

definition is_adl_swap_noexcept :: "'c swap_traits \<Rightarrow> bool" where
  "is_adl_swap_noexcept S = (case found S of OwnSwap f n \<Rightarrow> n | _ \<Rightarrow> False)"

definition is_swappable :: "'c swap_traits \<Rightarrow> bool" where
  "is_swappable S \<longleftrightarrow> can_swap S \<and> (\<not> uses_std S \<or> (move_assignable S \<and> move_constructible S))"

definition is_nothrow_swappable :: "'c swap_traits \<Rightarrow> 'c cxx_class \<Rightarrow> bool" where
  "is_nothrow_swappable S C \<longleftrightarrow>
     is_swappable S \<and> (uses_std S \<and> is_std_swap_noexcept C \<or> \<not> uses_std S \<and> is_adl_swap_noexcept S)"

section \<open>\<^verbatim>\<open>expected::swap\<close>\<close>

definition swap_enabled :: "'t swap_traits \<Rightarrow> 'e swap_traits \<Rightarrow> 't cxx_class \<Rightarrow> 'e cxx_class \<Rightarrow> bool" where
  "swap_enabled ST SE T E \<longleftrightarrow> is_swappable ST \<and> is_swappable SE \<and> (nothrow_move T \<or> nothrow_move E)"

definition swap_noexcept :: "'t swap_traits \<Rightarrow> 'e swap_traits \<Rightarrow> 't cxx_class \<Rightarrow> 'e cxx_class \<Rightarrow> bool" where
  "swap_noexcept ST SE T E \<longleftrightarrow>
     nothrow_move T \<and> is_nothrow_swappable ST T \<and> nothrow_move E \<and> is_nothrow_swappable SE E"

text \<open>The function of the same name, for an object type \<open>T\<close>: it asks for the moves, not that one of them cannot throw.\<close>

definition free_swap_enabled :: "'t swap_traits \<Rightarrow> 'e swap_traits \<Rightarrow> bool" where
  "free_swap_enabled ST SE \<longleftrightarrow>
     move_constructible ST \<and> is_swappable ST \<and> move_constructible SE \<and> is_swappable SE"

text \<open>Two values: the swap that is found.\<close>

definition swap_where_both_have_value ::
  "'t swap_traits \<Rightarrow> 't cxx_class \<Rightarrow> 'a \<Rightarrow> 'a \<Rightarrow> (('a, 't, 'e) world, unit) action" where
  "swap_where_both_have_value ST T a b =
     (case found ST of
        OwnSwap f n \<Rightarrow> (if n then noexcept else id) (bnd (get a) (\<lambda>x. bnd (get b) (\<lambda>y. case f x y of (x', y', ok) \<Rightarrow>
          thn (write_slot a (ValObj x')) (thn (write_slot b (ValObj y')) (returned ok)))))
      | _ \<Rightarrow> swap_vals T a b)"

text \<open>
  Two errors are swapped as objects of \<^verbatim>\<open>unexpected<E>\<close>, which has no swap of its own: the swap of \<open>E\<close> does
  not take them.
\<close>

definition swap ::
  "'t swap_traits \<Rightarrow> 'e swap_traits \<Rightarrow> 't cxx_class \<Rightarrow> 'e cxx_class \<Rightarrow> 'a \<Rightarrow> 'a \<Rightarrow> (('a, 't, 'e) world, unit) action" where
  "swap ST SE T E a b = (if swap_noexcept ST SE T E then noexcept else id)
     (bnd (has_val a) (\<lambda>ha. bnd (has_val b) (\<lambda>hb.
       if ha \<and> hb then swap_where_both_have_value ST T a b
       else if \<not> ha \<and> hb then swap_one T E b a
       else if ha then swap_one T E a b
       else swap_errs E a b)))"

definition free_swap ::
  "'t swap_traits \<Rightarrow> 'e swap_traits \<Rightarrow> 't cxx_class \<Rightarrow> 'e cxx_class \<Rightarrow> 'a \<Rightarrow> 'a \<Rightarrow> (('a, 't, 'e) world, unit) action" where
  "free_swap ST SE T E lhs rhs = (if swap_noexcept ST SE T E then noexcept else id) (swap ST SE T E lhs rhs)"

lemma free_swap_is_swap: "free_swap ST SE T E = swap ST SE T E"
  by (intro ext) (simp add: free_swap_def swap_def noexcept_def split: prod.split exit.split)

text \<open>Classes without a swap of their own.\<close>

definition std_traits :: "'c swap_traits" where
  "std_traits = \<lparr>found = StdSwap, move_constructible = True, move_assignable = True\<rparr>"

lemma std_traits_simps [simp]: "found std_traits = StdSwap" "uses_std std_traits" "is_swappable std_traits"
  by (simp_all add: std_traits_def uses_std_def is_swappable_def can_swap_def)

lemma both_values_std: "swap_where_both_have_value std_traits T a b = swap_vals T a b"
  by (simp add: swap_where_both_have_value_def)

lemma swap_std: "swap std_traits std_traits T E = swap_expected T E"
  by (intro ext) (simp add: swap_def swap_expected_def swap_noexcept_def is_nothrow_swappable_def
      is_std_swap_noexcept_def both_values_std cong: if_cong)

section \<open>What the promise is worth\<close>

text \<open>
  The function can be selected where the member it calls does not exist: both classes move, neither without
  throwing.
\<close>

lemma free_swap_without_member:
  "free_swap_enabled ST SE \<and> \<not> swap_enabled ST SE T E \<longleftrightarrow>
     free_swap_enabled ST SE \<and> \<not> nothrow_move T \<and> \<not> nothrow_move E"
  by (auto simp: free_swap_enabled_def swap_enabled_def)

text \<open>A class whose own swap exchanges, and does not throw where it says so.\<close>

locale swappable_class = regular_class C
  for C :: "'c cxx_class" +
  fixes S :: "'c swap_traits"
  assumes own_exchanges: "found S = OwnSwap f n \<Longrightarrow> f x y = (x', y', True) \<Longrightarrow> x' = y \<and> y' = x"
    and own_noexcept: "found S = OwnSwap f True \<Longrightarrow> snd (snd (f x y))"

text \<open>\<^verbatim>\<open>std::string\<close> has a swap of its own.\<close>

definition string_swap :: "string swap_traits" where
  "string_swap = \<lparr>found = OwnSwap (\<lambda>x y. (y, x, True)) True, move_constructible = True, move_assignable = True\<rparr>"

text \<open>A class whose move assignment allocates, with a swap that exchanges pointers.\<close>

definition allocating_class :: "('c \<Rightarrow> bool) \<Rightarrow> 'c cxx_class" where
  "allocating_class alloc = \<lparr>
     copy_ctor = (\<lambda>s. if alloc s then Some s else None), move_ctor = (\<lambda>s. (Some s, s)),
     copy_assign = (\<lambda>t s. if alloc s then (s, True) else (t, False)),
     move_assign = (\<lambda>t s. if alloc s then (s, s, True) else (t, s, False)),
     nothrow_copy = False, nothrow_move = True, nothrow_move_assign = False, is_scalar = False\<rparr>"

definition pointer_swap :: "'c swap_traits" where
  "pointer_swap = \<lparr>found = OwnSwap (\<lambda>x y. (y, x, True)) True, move_constructible = True, move_assignable = True\<rparr>"

interpretation swappable_string: swappable_class "string_class alloc" string_swap for alloc
  by unfold_locales (auto simp: string_swap_def)

interpretation swappable_scalar: swappable_class scalar_class std_traits
  by unfold_locales auto

interpretation swappable_allocating: swappable_class "allocating_class alloc" pointer_swap for alloc
  by unfold_locales (auto simp: allocating_class_def pointer_swap_def split: if_splits)

definition exchanged :: "('a, 't, 'e) world \<Rightarrow> 'a \<Rightarrow> 'a \<Rightarrow> ('a, 't, 'e) world \<Rightarrow> bool" where
  "exchanged w a b w' \<longleftrightarrow>
     contents (objs w' a) = contents (objs w b) \<and> contents (objs w' b) = contents (objs w a) \<and>
     (\<forall>c. c \<noteq> a \<longrightarrow> c \<noteq> b \<longrightarrow> objs w' c = objs w c) \<and> leaked w' = leaked w"

lemma exchanged_iff:
  "contents (objs w a) = Some x \<Longrightarrow> contents (objs w b) = Some y \<Longrightarrow> exchanged w a b w' \<longleftrightarrow>
     contents (objs w' a) = Some y \<and> contents (objs w' b) = Some x \<and>
     (\<forall>c. c \<noteq> a \<longrightarrow> c \<noteq> b \<longrightarrow> objs w' c = objs w c) \<and> leaked w' = leaked w"
  by (simp add: exchanged_def)

locale swapping = T: swappable_class T ST + E: swappable_class E SE
  for T :: "'t cxx_class" and ST and E :: "'e cxx_class" and SE
begin

lemma one_value_exchanged:
  assumes "contents (objs w a) = Some (Inr v)" and "contents (objs w b) = Some (Inl e)"
    and "nothrow_move T" and "nothrow_move E"
  shows "runs (swap_one T E a b) w (\<lambda>r w'. r = Done () \<and> exchanged w a b w')"
proof -
  from assms(1,2) have "a \<noteq> b" by auto
  obtain v' e' where m: "move_ctor T v = (Some v, v')" "move_ctor E e = (Some e, e')"
    using T.nothrow_move_true [OF assms(3), of v] E.nothrow_move_true [OF assms(4), of e]
      T.move_ctor_value [of v] E.move_ctor_value [of e]
    by (cases "move_ctor T v"; cases "move_ctor E e") fastforce
  with assms \<open>a \<noteq> b\<close> show ?thesis
    by (simp add: swap_one_def swap_one_nothrow_def runs_simps runs_members contents_iff exchanged_iff [OF assms(1,2)])
qed

lemma values_exchanged:
  assumes "contents (objs w a) = Some (Inr v)" and "contents (objs w b) = Some (Inr u)" and "a \<noteq> b"
    and "nothrow_move T" and "is_nothrow_swappable ST T"
  shows "runs (swap_where_both_have_value ST T a b) w (\<lambda>r w'. r = Done () \<and> exchanged w a b w')"
proof (cases "found ST")
  case (OwnSwap f n)
  with assms(5) have n: n by (simp add: is_nothrow_swappable_def uses_std_def is_adl_swap_noexcept_def)
  obtain v' u' where "f v u = (v', u', True)"
    using T.own_noexcept [of f v u] OwnSwap n by (cases "f v u") auto
  with T.own_exchanges [OF OwnSwap this] assms OwnSwap n show ?thesis
    by (simp add: swap_where_both_have_value_def runs_simps contents_iff exchanged_iff [OF assms(1,2)])
next
  case StdSwap
  with assms(5) have "nothrow_move_assign T"
    by (simp add: is_nothrow_swappable_def uses_std_def is_std_swap_noexcept_def)
  note moves = T.nothrow_move_assign_true [OF this] T.nothrow_move_true [OF assms(4)]
  obtain v' where 1: "move_ctor T v = (Some v, v')"
    using moves(2) [of v] T.move_ctor_value [of v] by (cases "move_ctor T v") fastforce
  obtain u' where 2: "move_assign T v' u = (u, u', True)"
    using moves(1) [of v' u] T.move_assign_value [of v' u] by (cases "move_assign T v' u") auto
  obtain v'' where "move_assign T u' v = (v, v'', True)"
    using moves(1) [of u' v] T.move_assign_value [of u' v] by (cases "move_assign T u' v") auto
  with 1 2 assms StdSwap show ?thesis
    by (simp add: swap_where_both_have_value_def swap_vals_def runs_simps runs_members contents_iff exchanged_iff [OF assms(1,2)])
next
  case NoUsableSwap
  with assms(5) show ?thesis by (simp add: is_nothrow_swappable_def is_swappable_def can_swap_def)
qed

text \<open>Two errors: the moves of \<open>E\<close> do it, and only the assignments can fail.\<close>

lemma errors_exchanged:
  assumes "contents (objs w a) = Some (Inl e)" and "contents (objs w b) = Some (Inl d)" and "a \<noteq> b" and "nothrow_move E"
  shows "runs (swap_errs E a b) w (\<lambda>r w'. r = Done () \<and> exchanged w a b w' \<or> r = Threw \<and> \<not> nothrow_move_assign E)"
proof -
  obtain e' where 1: "move_ctor E e = (Some e, e')"
    using E.nothrow_move_true [OF assms(4), of e] E.move_ctor_value [of e] by (cases "move_ctor E e") fastforce
  obtain d1 d' ok where 2: "move_assign E e' d = (d1, d', ok)" by (cases "move_assign E e' d")
  obtain e1 e2 ok' where 3: "move_assign E d' e = (e1, e2, ok')" by (cases "move_assign E d' e")
  have "ok \<Longrightarrow> d1 = d" "ok' \<Longrightarrow> e1 = e" using E.move_assign_value 2 3 by auto
  moreover have "nothrow_move_assign E \<Longrightarrow> ok \<and> ok'"
    using E.nothrow_move_assign_true [of e' d] E.nothrow_move_assign_true [of d' e] 2 3 by auto
  ultimately show ?thesis using assms 1 2 3
    by (cases ok; cases ok') (auto simp: swap_errs_def runs_simps runs_members contents_iff exchanged_iff [OF assms(1,2)])
qed

lemma swap_exits:
  assumes promise: "swap_noexcept ST SE T E" and ab: "a \<noteq> b"
    and x: "contents (objs w a) = Some x" and y: "contents (objs w b) = Some y"
  shows "runs (swap ST SE T E a b) w (\<lambda>r w'.
    r = Done () \<and> exchanged w a b w' \<or> r = Terminated \<and> isl x \<and> isl y \<and> \<not> nothrow_move_assign E)"
proof -
  from promise have nt: "nothrow_move T" "nothrow_move E" "is_nothrow_swappable ST T" by (simp_all add: swap_noexcept_def)
  have turn: "exchanged w b a = exchanged w a b" by (intro ext) (auto simp: exchanged_def)
  have quiet: "runs (noexcept m) w (\<lambda>r w'. r = Done () \<and> exchanged w a b w' \<or> P r)"
    if "runs m w (\<lambda>r w'. r = Done () \<and> exchanged w a b w')" for m :: "(_, unit) action" and P
    using that by (auto simp: runs_def noexcept_def split: prod.split)
  let ?body = "bnd (has_val a) (\<lambda>ha. bnd (has_val b) (\<lambda>hb.
       if ha \<and> hb then swap_where_both_have_value ST T a b
       else if \<not> ha \<and> hb then swap_one T E b a
       else if ha then swap_one T E a b
       else swap_errs E a b))"
  have body: "swap ST SE T E a b = noexcept ?body" using promise by (simp add: swap_def)
  show ?thesis
  proof (cases "isl x \<and> isl y")
    case False
    have "runs ?body w (\<lambda>r w'. r = Done () \<and> exchanged w a b w')"
    proof (cases x; cases y)
      fix v u assume "x = Inr v" "y = Inr u"
      with values_exchanged [of w a v b u] x y ab nt show ?thesis by (simp add: runs_simps contents_iff)
    next
      fix v e assume "x = Inr v" "y = Inl e"
      with one_value_exchanged [of w a v b e] x y nt show ?thesis by (simp add: runs_simps contents_iff)
    next
      fix e v assume "x = Inl e" "y = Inr v"
      with one_value_exchanged [of w b v a e] x y nt show ?thesis by (simp add: runs_simps contents_iff turn)
    qed (use False in auto)
    from quiet [OF this] show ?thesis unfolding body .
  next
    case True
    then obtain e d where "x = Inl e" "y = Inl d" by (cases x; cases y) auto
    with errors_exchanged [of w a e b d] x y ab nt(2)
    have "runs ?body w (\<lambda>r w'. r = Done () \<and> exchanged w a b w' \<or> r = Threw \<and> \<not> nothrow_move_assign E)"
      by (simp add: runs_simps contents_iff)
    with True show ?thesis unfolding body by (auto simp: runs_def noexcept_def split: prod.split)
  qed
qed

end

interpretation swapping_strings: swapping "string_class alloc" string_swap scalar_class std_traits for alloc ..

text \<open>
  C23. What \<^verbatim>\<open>noexcept(swap)\<close> is worth.  Where \<^verbatim>\<open>expected::swap\<close> promises not to throw, the two objects are
  exchanged, nothing else changes and nothing leaks, whatever they hold and whichever swaps the classes
  bring; with one exception: two errors are swapped not by the swap of \<open>E\<close> that the promise rests on but by its
  moves, and if \<open>E\<close> has its own swap and a move assignment that throws, the program is terminated.
\<close>

theorem noexcept_swap:
  assumes "swappable_class T ST" and "swappable_class E SE" and "swap_noexcept ST SE T E" and "a \<noteq> b"
    and "contents (objs w a) = Some x" and "contents (objs w b) = Some y"
  shows "runs (swap ST SE T E a b) w (\<lambda>r w'.
    r = Done () \<and> exchanged w a b w' \<or>
    r = Terminated \<and> isl x \<and> isl y \<and> \<not> nothrow_move_assign E \<and> \<not> uses_std SE)"
proof -
  have "nothrow_move_assign E" if "uses_std SE"
    using assms(3) that by (simp add: swap_noexcept_def is_nothrow_swappable_def is_std_swap_noexcept_def)
  then show ?thesis
    using swapping.swap_exits [OF swapping.intro [OF assms(1,2)] assms(3-6)] by (auto intro: runs_mono)
qed

text \<open>
  A string and an error are exchanged; two errors whose assignment cannot allocate are not.
\<close>

definition swap_world :: "string + string \<Rightarrow> string + string \<Rightarrow> (nat, string, string) world" where
  "swap_world x y =
     \<lparr>objs = (\<lambda>n. case (if n = 0 then x else y) of Inl e \<Rightarrow> storage_unexpect e | Inr v \<Rightarrow> storage_in_place v), leaked = 0\<rparr>"

theorem noexcept_swap_witness:
  "(let w = swap_world (Inr ''value'') (Inl ''error'') in
     runs (swap string_swap pointer_swap (string_class (\<lambda>_. False)) (allocating_class (\<lambda>_. False)) 0 1) w
       (\<lambda>r w'. r = Done () \<and> exchanged w 0 1 w')) \<and>
   fst (swap string_swap pointer_swap (string_class (\<lambda>_. False)) (allocating_class (\<lambda>_. False)) 0 1
     (swap_world (Inl ''one'') (Inl ''two''))) = Terminated"
proof
  let ?T = "string_class (\<lambda>_. False)" and ?E = "allocating_class (\<lambda>_. False) :: string cxx_class"
  let ?w = "swap_world (Inr ''value'') (Inl ''error'')"
  have "swap_noexcept string_swap pointer_swap ?T ?E"
    by (simp add: swap_noexcept_def is_nothrow_swappable_def is_swappable_def can_swap_def uses_std_def
        is_adl_swap_noexcept_def string_swap_def pointer_swap_def string_class_def allocating_class_def)
  moreover have "contents (objs ?w 0) = Some (Inr ''value'')" "contents (objs ?w 1) = Some (Inl ''error'')"
    by (simp_all add: swap_world_def storage_in_place_def storage_unexpect_def contents.simps)
  ultimately show "let w = ?w in runs (swap string_swap pointer_swap ?T ?E 0 1) w (\<lambda>r w'. r = Done () \<and> exchanged w 0 1 w')"
    using noexcept_swap [OF swappable_string.swappable_class_axioms swappable_allocating.swappable_class_axioms,
        of _ _ 0 1 ?w "Inr ''value''" "Inl ''error''"] by (simp add: Let_def)
  show "fst (swap string_swap pointer_swap ?T ?E 0 1 (swap_world (Inl ''one'') (Inl ''two''))) = Terminated"
    by code_simp
qed

end
