(* ===== verification/ExpectedOverloads.thy ===== *)
theory ExpectedOverloads
  imports Expected
begin

text \<open>
  \<^verbatim>\<open>utility/expected.hpp\<close>, construction of an \<^verbatim>\<open>expected<T, E>\<close> from one argument: the constraints of the
  constructor templates, and the choice the language makes among those that are left, by how an argument
  of a type and a value category binds to the parameter and by how special the template is.
\<close>

section \<open>Types, arguments, constructors\<close>

text \<open>
  The object types the constraints distinguish: \<^verbatim>\<open>in_place_t\<close>, \<^verbatim>\<open>unexpect_t\<close>, the instances of
  \<^verbatim>\<open>unexpected\<close> and \<^verbatim>\<open>expected\<close>, and the other classes.
\<close>

datatype 'c cxx_type =
    Class 'c
  | InPlaceT
  | UnexpectT
  | Unexp "'c cxx_type"
  | Exp "'c cxx_type" "'c cxx_type"

datatype value_category = Lvalue | ConstLvalue | Rvalue | ConstRvalue

text \<open>
  What the traits of the standard library answer: \<^verbatim>\<open>is_constructible\<close> from no argument,
  \<^verbatim>\<open>is_constructible\<close> and \<^verbatim>\<open>is_convertible\<close> from an argument of a type and a category.
\<close>

record 'c conversions =
  constructible_empty :: "'c cxx_type \<Rightarrow> bool"
  constructible :: "'c cxx_type \<Rightarrow> 'c cxx_type \<Rightarrow> value_category \<Rightarrow> bool"
  convertible :: "'c cxx_type \<Rightarrow> 'c cxx_type \<Rightarrow> value_category \<Rightarrow> bool"

text \<open>The constructors that take one argument; the flag of a pair of templates is \<^verbatim>\<open>explicit\<close>.\<close>

datatype constructor =
    CopyCtor
  | MoveCtor
  | InPlaceCtor
  | UnexpectCtor
  | UnexpectedCopy (explicit_of: bool)
  | UnexpectedMove (explicit_of: bool)
  | ConvertCopy (explicit_of: bool)
  | ConvertMove (explicit_of: bool)
  | ValueCtor (explicit_of: bool)

fun is_explicit :: "constructor \<Rightarrow> bool" where
  "is_explicit CopyCtor = False"
| "is_explicit MoveCtor = False"
| "is_explicit InPlaceCtor = False"
| "is_explicit UnexpectCtor = True"
| "is_explicit k = explicit_of k"

section \<open>The constraints\<close>

definition expected_enable_forward_value ::
  "'c conversions \<Rightarrow> 'c cxx_type \<Rightarrow> 'c cxx_type \<Rightarrow> 'c cxx_type \<Rightarrow> value_category \<Rightarrow> bool" where
  "expected_enable_forward_value L T E U c \<longleftrightarrow>
     constructible L T U c \<and> U \<noteq> InPlaceT \<and> U \<noteq> Exp T E \<and> U \<noteq> Unexp E"

definition expected_enable_from_other ::
  "'c conversions \<Rightarrow> 'c cxx_type \<Rightarrow> 'c cxx_type \<Rightarrow> 'c cxx_type \<Rightarrow> 'c cxx_type \<Rightarrow> value_category \<Rightarrow> bool" where
  "expected_enable_from_other L T E U G c \<longleftrightarrow>
     constructible L T U c \<and> constructible L E G c \<and>
     \<not> constructible L T (Exp U G) Lvalue \<and> \<not> constructible L T (Exp U G) Rvalue \<and>
     \<not> constructible L T (Exp U G) ConstLvalue \<and> \<not> constructible L T (Exp U G) ConstRvalue \<and>
     \<not> convertible L T (Exp U G) Lvalue \<and> \<not> convertible L T (Exp U G) Rvalue \<and>
     \<not> convertible L T (Exp U G) ConstLvalue \<and> \<not> convertible L T (Exp U G) ConstRvalue"

text \<open>
  The constructors that take part for an argument of a type, before the category is looked at.  A deleted
  move constructor is ignored.  A template that deduces its parameter's type from the argument sees the
  category.
\<close>

definition special_ctors :: "'c conversions \<Rightarrow> 'c cxx_type \<Rightarrow> 'c cxx_type \<Rightarrow> constructor list" where
  "special_ctors L T E =
     CopyCtor # (if constructible L T T Rvalue \<and> constructible L E E Rvalue then [MoveCtor] else [])"

definition in_place_ctor :: "'c conversions \<Rightarrow> 'c cxx_type \<Rightarrow> constructor list" where
  "in_place_ctor L T = (if constructible_empty L T then [InPlaceCtor] else [])"

definition unexpect_ctor :: "'c conversions \<Rightarrow> 'c cxx_type \<Rightarrow> constructor list" where
  "unexpect_ctor L E = (if constructible_empty L E then [UnexpectCtor] else [])"

definition unexpected_copy_ctors :: "'c conversions \<Rightarrow> 'c cxx_type \<Rightarrow> 'c cxx_type \<Rightarrow> constructor list" where
  "unexpected_copy_ctors L E G =
     (if constructible L E G ConstLvalue \<and> \<not> convertible L E G ConstLvalue then [UnexpectedCopy True] else []) @
     (if constructible L E G ConstLvalue \<and> convertible L E G ConstLvalue then [UnexpectedCopy False] else [])"

definition unexpected_move_ctors :: "'c conversions \<Rightarrow> 'c cxx_type \<Rightarrow> 'c cxx_type \<Rightarrow> constructor list" where
  "unexpected_move_ctors L E G =
     (if constructible L E G Rvalue \<and> \<not> convertible L E G Rvalue then [UnexpectedMove True] else []) @
     (if constructible L E G Rvalue \<and> convertible L E G Rvalue then [UnexpectedMove False] else [])"

definition convert_copy_ctors ::
  "'c conversions \<Rightarrow> 'c cxx_type \<Rightarrow> 'c cxx_type \<Rightarrow> 'c cxx_type \<Rightarrow> 'c cxx_type \<Rightarrow> constructor list" where
  "convert_copy_ctors L T E U G =
     (if \<not> (convertible L T U ConstLvalue \<and> convertible L E G ConstLvalue) \<and>
         expected_enable_from_other L T E U G ConstLvalue then [ConvertCopy True] else []) @
     (if convertible L T U ConstLvalue \<and> convertible L E G ConstLvalue \<and>
         expected_enable_from_other L T E U G ConstLvalue then [ConvertCopy False] else [])"

definition convert_move_ctors ::
  "'c conversions \<Rightarrow> 'c cxx_type \<Rightarrow> 'c cxx_type \<Rightarrow> 'c cxx_type \<Rightarrow> 'c cxx_type \<Rightarrow> constructor list" where
  "convert_move_ctors L T E U G =
     (if \<not> (convertible L T U Rvalue \<and> convertible L E G Rvalue) \<and>
         expected_enable_from_other L T E U G Rvalue then [ConvertMove True] else []) @
     (if convertible L T U Rvalue \<and> convertible L E G Rvalue \<and>
         expected_enable_from_other L T E U G Rvalue then [ConvertMove False] else [])"

definition value_ctors ::
  "'c conversions \<Rightarrow> 'c cxx_type \<Rightarrow> 'c cxx_type \<Rightarrow> 'c cxx_type \<Rightarrow> value_category \<Rightarrow> constructor list" where
  "value_ctors L T E U c =
     (if \<not> convertible L T U c \<and> expected_enable_forward_value L T E U c then [ValueCtor True] else []) @
     (if convertible L T U c \<and> expected_enable_forward_value L T E U c then [ValueCtor False] else [])"

definition declared_ctors ::
  "'c conversions \<Rightarrow> 'c cxx_type \<Rightarrow> 'c cxx_type \<Rightarrow> 'c cxx_type \<Rightarrow> value_category \<Rightarrow> constructor list" where
  "declared_ctors L T E X c =
     (case X of
        Class _ \<Rightarrow> []
      | InPlaceT \<Rightarrow> in_place_ctor L T
      | UnexpectT \<Rightarrow> unexpect_ctor L E
      | Unexp G \<Rightarrow> unexpected_copy_ctors L E G @ unexpected_move_ctors L E G
      | Exp U G \<Rightarrow> (if X = Exp T E then special_ctors L T E else []) @
          convert_copy_ctors L T E U G @ convert_move_ctors L T E U G) @
     value_ctors L T E X c"

section \<open>Overload resolution\<close>

text \<open>
  A parameter is a reference to constant, a reference to rvalue, a reference that takes the category of the
  argument, or an object of the argument's class.
\<close>

datatype parameter = ConstRef | RvalueRef | ForwardingRef | ByValue

fun parameter_of :: "constructor \<Rightarrow> parameter" where
  "parameter_of CopyCtor = ConstRef"
| "parameter_of MoveCtor = RvalueRef"
| "parameter_of InPlaceCtor = ByValue"
| "parameter_of UnexpectCtor = ByValue"
| "parameter_of (UnexpectedCopy x) = ConstRef"
| "parameter_of (UnexpectedMove x) = RvalueRef"
| "parameter_of (ConvertCopy x) = ConstRef"
| "parameter_of (ConvertMove x) = RvalueRef"
| "parameter_of (ValueCtor x) = ForwardingRef"

fun accepts :: "parameter \<Rightarrow> value_category \<Rightarrow> bool" where
  "accepts RvalueRef c = (c = Rvalue)"
| "accepts p c = True"

text \<open>
  A reference to constant is the worse binding of an rvalue, and of an lvalue that is not constant.
\<close>

fun binds_better :: "value_category \<Rightarrow> parameter \<Rightarrow> parameter \<Rightarrow> bool" where
  "binds_better c RvalueRef ConstRef = True"
| "binds_better c ForwardingRef ConstRef = (c \<noteq> ConstLvalue)"
| "binds_better c p q = False"

text \<open>A constructor that is no template goes before a template, and one for a class template before one for any type.\<close>

fun specificity :: "constructor \<Rightarrow> nat" where
  "specificity CopyCtor = 2"
| "specificity MoveCtor = 2"
| "specificity (ValueCtor x) = 0"
| "specificity k = 1"

definition better :: "value_category \<Rightarrow> constructor \<Rightarrow> constructor \<Rightarrow> bool" where
  "better c k l \<longleftrightarrow>
     binds_better c (parameter_of k) (parameter_of l) \<or>
     \<not> binds_better c (parameter_of l) (parameter_of k) \<and> specificity l < specificity k"

text \<open>\<^verbatim>\<open>expected<T, E> x = arg\<close> (\<open>copy_init\<close>) does not see explicit constructors, \<^verbatim>\<open>expected<T, E> x(arg)\<close> does.\<close>

definition viable ::
  "'c conversions \<Rightarrow> 'c cxx_type \<Rightarrow> 'c cxx_type \<Rightarrow> 'c cxx_type \<Rightarrow> value_category \<Rightarrow> bool \<Rightarrow> constructor list" where
  "viable L T E X c copy_init =
     filter (\<lambda>k. accepts (parameter_of k) c \<and> (copy_init \<longrightarrow> \<not> is_explicit k)) (declared_ctors L T E X c)"

datatype selection = NoConstructor | Ambiguous | Selects constructor

definition select :: "value_category \<Rightarrow> constructor list \<Rightarrow> selection" where
  "select c ks =
     (if ks = [] then NoConstructor
      else case filter (\<lambda>k. list_all (\<lambda>l. l = k \<or> better c k l) ks) ks of
        [] \<Rightarrow> Ambiguous
      | k # _ \<Rightarrow> Selects k)"

definition overload ::
  "'c conversions \<Rightarrow> 'c cxx_type \<Rightarrow> 'c cxx_type \<Rightarrow> 'c cxx_type \<Rightarrow> value_category \<Rightarrow> bool \<Rightarrow> selection" where
  "overload L T E X c copy_init = select c (viable L T E X c copy_init)"

section \<open>What is built\<close>

text \<open>
  How an argument is read: whether it is an \<^verbatim>\<open>expected\<close> with a value, the \<open>T\<close> and the \<open>E\<close> that it converts to.
\<close>

record ('x, 't, 'e) argument =
  arg_has_value :: "'x \<Rightarrow> bool"
  to_value :: "'x \<Rightarrow> 't"
  to_error :: "'x \<Rightarrow> 'e"

abbreviation just :: "('t, 'e) storage \<Rightarrow> (unit, 't, 'e) world" where
  "just st \<equiv> \<lparr>objs = (\<lambda>_. st), leaked = 0\<rparr>"

text \<open>
  The object after a constructor that returns.  The converting constructors build a default \<open>T\<close> (\<open>new\<close>) first
  and the value or error over it.
\<close>

fun built :: "constructor \<Rightarrow> 't \<Rightarrow> ('x, 't, 'e) argument \<Rightarrow> 'x \<Rightarrow> (unit, 't, 'e) world" where
  "built InPlaceCtor new A x = just (expected_in_place (to_value A x))"
| "built UnexpectCtor new A x = just (expected_unexpect (to_error A x))"
| "built (UnexpectedCopy _) new A x = just (expected_from_unexpected (unexpected (to_error A x)))"
| "built (UnexpectedMove _) new A x = just (expected_from_unexpected (unexpected (to_error A x)))"
| "built (ValueCtor _) new A x = just (expected_from_value (to_value A x))"
| "built (ConvertCopy _) new A x = snd (convert_construct new
     (if arg_has_value A x then Inl (pass (to_value A x)) else Inr (pass (to_error A x))) () (just (storage_default new)))"
| "built (ConvertMove _) new A x = snd (convert_construct new
     (if arg_has_value A x then Inl (pass (to_value A x)) else Inr (pass (to_error A x))) () (just (storage_default new)))"
| "built _ new A x = just (if arg_has_value A x then storage_in_place (to_value A x) else storage_unexpect (to_error A x))"

lemmas built_flags = expected_in_place_def expected_unexpect_def expected_from_unexpected_def
  expected_from_value_def storage_in_place_def storage_unexpect_def

text \<open>Whether the object has a value afterwards, and whether an object was built over a live one.\<close>

fun has_value_after :: "constructor \<Rightarrow> ('x, 't, 'e) argument \<Rightarrow> 'x \<Rightarrow> bool" where
  "has_value_after InPlaceCtor A x = True"
| "has_value_after (ValueCtor _) A x = True"
| "has_value_after UnexpectCtor A x = False"
| "has_value_after (UnexpectedCopy _) A x = False"
| "has_value_after (UnexpectedMove _) A x = False"
| "has_value_after k A x = arg_has_value A x"

fun converting :: "constructor \<Rightarrow> bool" where
  "converting (ConvertCopy _) = True"
| "converting (ConvertMove _) = True"
| "converting k = False"

lemma built_object:
  "contents (objs (built k new A x) ()) = Some (if has_value_after k A x then Inr (to_value A x) else Inl (to_error A x)) \<and>
   leaked (built k new A x) = (if converting k then 1 else 0)"
  by (cases k) (simp_all add: built_flags contents.simps conversion_leaks)

section \<open>Facts\<close>

text \<open>Of the two templates of a pair at most one takes part.\<close>

lemma one_of_each_pair:
  "unexpected_copy_ctors L E G = (if constructible L E G ConstLvalue then [UnexpectedCopy (\<not> convertible L E G ConstLvalue)] else [])"
  "unexpected_move_ctors L E G = (if constructible L E G Rvalue then [UnexpectedMove (\<not> convertible L E G Rvalue)] else [])"
  "convert_copy_ctors L T E U G = (if expected_enable_from_other L T E U G ConstLvalue
     then [ConvertCopy (\<not> (convertible L T U ConstLvalue \<and> convertible L E G ConstLvalue))] else [])"
  "convert_move_ctors L T E U G = (if expected_enable_from_other L T E U G Rvalue
     then [ConvertMove (\<not> (convertible L T U Rvalue \<and> convertible L E G Rvalue))] else [])"
  "value_ctors L T E U c = (if expected_enable_forward_value L T E U c then [ValueCtor (\<not> convertible L T U c)] else [])"
  by (auto simp: unexpected_copy_ctors_def unexpected_move_ctors_def convert_copy_ctors_def
      convert_move_ctors_def value_ctors_def)

text \<open>A converting constructor and the one from a value never both take part.\<close>

lemma convert_or_value:
  "expected_enable_from_other L T E U G d \<Longrightarrow> \<not> expected_enable_forward_value L T E (Exp U G) c"
  by (cases c) (auto simp: expected_enable_from_other_def expected_enable_forward_value_def)

text \<open>Without a move constructor nothing else moves.\<close>

lemma same_type_move:
  "expected_enable_from_other L T E T E Rvalue \<Longrightarrow> constructible L T T Rvalue \<and> constructible L E E Rvalue"
  by (simp add: expected_enable_from_other_def)

lemmas overload_rules = overload_def viable_def declared_ctors_def one_of_each_pair select_def better_def

text \<open>Three templates, and which one is selected.\<close>

abbreviation seen :: "value_category \<Rightarrow> bool \<Rightarrow> constructor list \<Rightarrow> constructor list" where
  "seen c copy_init \<equiv> filter (\<lambda>k. accepts (parameter_of k) c \<and> (copy_init \<longrightarrow> \<not> is_explicit k))"

lemma seen_one: "seen c i (if p then [k] else []) = (if p \<and> accepts (parameter_of k) c \<and> (i \<longrightarrow> \<not> is_explicit k) then [k] else [])"
  by simp

lemma select_unexpected:
  "select c ((if p then [UnexpectedCopy a] else []) @ (if q \<and> c = Rvalue then [UnexpectedMove b] else []) @
       (if r then [ValueCtor d] else [])) =
     (if c = Rvalue \<and> q then Selects (UnexpectedMove b)
      else if p \<and> (c = ConstLvalue \<or> \<not> r) then Selects (UnexpectedCopy a)
      else if r then Selects (ValueCtor d) else NoConstructor)"
  by (cases c; cases p; cases q; cases r; simp add: select_def better_def)

lemma select_convert:
  "\<not> (p \<and> r) \<Longrightarrow> \<not> (q \<and> r) \<Longrightarrow>
   select c ((if p then [ConvertCopy a] else []) @ (if q \<and> c = Rvalue then [ConvertMove b] else []) @
       (if r then [ValueCtor d] else [])) =
     (if c = Rvalue \<and> q then Selects (ConvertMove b) else if p then Selects (ConvertCopy a)
      else if r then Selects (ValueCtor d) else NoConstructor)"
  by (cases c; cases p; cases q; cases r; simp add: select_def better_def)

text \<open>What is selected, by the type of the argument.\<close>

lemma overload_class:
  "overload L T E (Class k) c i =
     (if constructible L T (Class k) c \<and> (i \<longrightarrow> convertible L T (Class k) c)
      then Selects (ValueCtor (\<not> convertible L T (Class k) c)) else NoConstructor)"
  by (simp add: overload_rules expected_enable_forward_value_def)

lemma overload_in_place:
  "overload L T E InPlaceT c i = (if constructible_empty L T then Selects InPlaceCtor else NoConstructor)"
  by (simp add: overload_rules in_place_ctor_def expected_enable_forward_value_def)

lemma overload_unexpect:
  "overload L T E UnexpectT c i =
     (if constructible_empty L E \<and> \<not> i then Selects UnexpectCtor
      else if constructible L T UnexpectT c \<and> (i \<longrightarrow> convertible L T UnexpectT c)
      then Selects (ValueCtor (\<not> convertible L T UnexpectT c)) else NoConstructor)"
  by (simp add: overload_rules unexpect_ctor_def expected_enable_forward_value_def)

text \<open>Whether one class is built from an argument of another, by the kind of initialisation.\<close>

definition initialises :: "'c conversions \<Rightarrow> 'c cxx_type \<Rightarrow> 'c cxx_type \<Rightarrow> value_category \<Rightarrow> bool \<Rightarrow> bool" where
  "initialises L C X c copy_init \<longleftrightarrow> constructible L C X c \<and> (copy_init \<longrightarrow> convertible L C X c)"

lemma overload_unexpected:
  "overload L T E (Unexp G) c i =
     (let as_value = G \<noteq> E \<and> initialises L T (Unexp G) c i
      in if c = Rvalue \<and> initialises L E G Rvalue i then Selects (UnexpectedMove (\<not> convertible L E G Rvalue))
         else if initialises L E G ConstLvalue i \<and> (c = ConstLvalue \<or> \<not> as_value)
         then Selects (UnexpectedCopy (\<not> convertible L E G ConstLvalue))
         else if as_value then Selects (ValueCtor (\<not> convertible L T (Unexp G) c)) else NoConstructor)"
proof -
  have "viable L T E (Unexp G) c i =
     (if initialises L E G ConstLvalue i then [UnexpectedCopy (\<not> convertible L E G ConstLvalue)] else []) @
     (if initialises L E G Rvalue i \<and> c = Rvalue then [UnexpectedMove (\<not> convertible L E G Rvalue)] else []) @
     (if G \<noteq> E \<and> initialises L T (Unexp G) c i then [ValueCtor (\<not> convertible L T (Unexp G) c)] else [])"
    unfolding viable_def declared_ctors_def cxx_type.case one_of_each_pair filter_append seen_one
    by (auto simp: initialises_def expected_enable_forward_value_def)
  then show ?thesis by (simp only: overload_def select_unexpected Let_def)
qed

lemma overload_same:
  "overload L T E (Exp T E) c i =
     Selects (if c = Rvalue \<and> constructible L T T Rvalue \<and> constructible L E E Rvalue then MoveCtor else CopyCtor)"
  using same_type_move [of L T E]
  by (cases c) (auto simp: overload_rules special_ctors_def expected_enable_forward_value_def)

text \<open>The converting constructors that are seen.\<close>

definition converts ::
  "'c conversions \<Rightarrow> 'c cxx_type \<Rightarrow> 'c cxx_type \<Rightarrow> 'c cxx_type \<Rightarrow> 'c cxx_type \<Rightarrow> value_category \<Rightarrow> bool \<Rightarrow> bool" where
  "converts L T E U G c copy_init \<longleftrightarrow>
     expected_enable_from_other L T E U G c \<and> (copy_init \<longrightarrow> convertible L T U c \<and> convertible L E G c)"

lemma not_both:
  "converts L T E U G d i \<Longrightarrow> Exp U G \<noteq> Exp T E \<Longrightarrow> \<not> initialises L T (Exp U G) c i"
  using convert_or_value [of L T E U G d c]
  by (auto simp: converts_def initialises_def expected_enable_forward_value_def)

lemma overload_other:
  assumes "Exp U G \<noteq> Exp T E"
  shows "overload L T E (Exp U G) c i =
     (if c = Rvalue \<and> converts L T E U G Rvalue i
      then Selects (ConvertMove (\<not> (convertible L T U Rvalue \<and> convertible L E G Rvalue)))
      else if converts L T E U G ConstLvalue i
      then Selects (ConvertCopy (\<not> (convertible L T U ConstLvalue \<and> convertible L E G ConstLvalue)))
      else if initialises L T (Exp U G) c i then Selects (ValueCtor (\<not> convertible L T (Exp U G) c))
      else NoConstructor)"
proof -
  have d: "declared_ctors L T E (Exp U G) c =
     convert_copy_ctors L T E U G @ convert_move_ctors L T E U G @ value_ctors L T E (Exp U G) c"
    using assms by (auto simp: declared_ctors_def)
  have v: "expected_enable_forward_value L T E (Exp U G) c \<longleftrightarrow> constructible L T (Exp U G) c"
    using assms by (auto simp: expected_enable_forward_value_def)
  note e = not_both [OF _ assms]
  have seen: "viable L T E (Exp U G) c i =
     (if converts L T E U G ConstLvalue i
      then [ConvertCopy (\<not> (convertible L T U ConstLvalue \<and> convertible L E G ConstLvalue))] else []) @
     (if converts L T E U G Rvalue i \<and> c = Rvalue
      then [ConvertMove (\<not> (convertible L T U Rvalue \<and> convertible L E G Rvalue))] else []) @
     (if initialises L T (Exp U G) c i then [ValueCtor (\<not> convertible L T (Exp U G) c)] else [])"
    unfolding viable_def d one_of_each_pair filter_append seen_one
    by (auto simp: converts_def initialises_def v)
  from e show ?thesis
    unfolding overload_def seen by (intro select_convert) blast+
qed

section \<open>What construction from one argument comes to\<close>

text \<open>
  No construction of an \<^verbatim>\<open>expected<T, E>\<close> from one argument is ambiguous, whatever \<open>T\<close>, \<open>E\<close> and the argument
  are, of whatever category, and for both kinds of initialisation: the pairs of templates exclude each
  other, the converting constructors exclude the one from a value, and the others differ in how the argument
  binds or in how special they are.
\<close>

theorem construction_unambiguous: "overload L T E X c copy_init \<noteq> Ambiguous"
proof (cases X)
  case (Exp U G)
  then show ?thesis
    by (cases "Exp U G = Exp T E") (simp_all add: overload_same overload_other)
qed (simp_all add: overload_class overload_in_place overload_unexpect overload_unexpected Let_def)

text \<open>
  C24. Which constructor an \<^verbatim>\<open>unexpected<G>\<close> and an \<^verbatim>\<open>expected<U, G>\<close> select, for arguments of every category and
  both kinds of initialisation, and what it builds when no construction throws.  An rvalue goes to the constructor
  that moves where it is viable, else to the one that copies, explicit exactly where the conversion of the argument is not
  implicit; of an \<^verbatim>\<open>unexpected<G>\<close> with \<open>G\<close> other than \<open>E\<close> from which a \<open>T\<close> can be built, an lvalue that is not
  constant and an rvalue that is go to the value constructor instead, although an \<open>E\<close> can be built from the
  \<open>G\<close>.  An \<^verbatim>\<open>expected<U, G>\<close> from which as a whole a \<open>T\<close> can be built always yields a value, so that its error
  becomes one (with \<^verbatim>\<open>bool\<close> for \<open>T\<close>, \<^verbatim>\<open>false\<close>).  The object holds the value or the error read from the argument;
  the converting constructors, and only they, build it over a default \<open>T\<close> that is never destroyed.
\<close>

theorem value_or_error:
  "overload L T E (Unexp G) c copy_init =
     (if c = Rvalue \<and> initialises L E G Rvalue copy_init then Selects (UnexpectedMove (\<not> convertible L E G Rvalue))
      else if initialises L E G ConstLvalue copy_init \<and>
        (c = ConstLvalue \<or> G = E \<or> \<not> initialises L T (Unexp G) c copy_init)
      then Selects (UnexpectedCopy (\<not> convertible L E G ConstLvalue))
      else if G \<noteq> E \<and> initialises L T (Unexp G) c copy_init
      then Selects (ValueCtor (\<not> convertible L T (Unexp G) c)) else NoConstructor) \<and>
   overload L T E (Exp T E) c copy_init =
     Selects (if c = Rvalue \<and> constructible L T T Rvalue \<and> constructible L E E Rvalue then MoveCtor else CopyCtor) \<and>
   (Exp U G \<noteq> Exp T E \<longrightarrow> overload L T E (Exp U G) c copy_init =
     (if initialises L T (Exp U G) c copy_init then Selects (ValueCtor (\<not> convertible L T (Exp U G) c))
      else if c = Rvalue \<and> converts L T E U G Rvalue copy_init
      then Selects (ConvertMove (\<not> (convertible L T U Rvalue \<and> convertible L E G Rvalue)))
      else if converts L T E U G ConstLvalue copy_init
      then Selects (ConvertCopy (\<not> (convertible L T U ConstLvalue \<and> convertible L E G ConstLvalue)))
      else NoConstructor)) \<and>
   contents (objs (built k new A x) ()) =
     Some (if has_value_after k A x then Inr (to_value A x) else Inl (to_error A x)) \<and>
   leaked (built k new A x) = (if converting k then 1 else 0)"
  using built_object [of k new A x] not_both [of L T E U G _ copy_init c]
  by (auto simp: overload_unexpected overload_same overload_other Let_def simp del: cxx_type.inject)

text \<open>
  A class that anything converts to, like \<^verbatim>\<open>std::any\<close>, and \<^verbatim>\<open>bool\<close>, which is built from every \<^verbatim>\<open>expected\<close> but
  only explicitly; a literal converts to a string.
\<close>

definition sample_conversions :: "string conversions" where
  "sample_conversions =
     \<lparr>constructible_empty = (\<lambda>C. True),
      constructible = (\<lambda>C X c. C = X \<or> C = Class ''any'' \<or> C = Class ''string'' \<and> X = Class ''literal'' \<or>
         C = Class ''bool'' \<and> (case X of Exp U G \<Rightarrow> True | _ \<Rightarrow> False)),
      convertible = (\<lambda>C X c. C = X \<or> C = Class ''any'' \<or> C = Class ''string'' \<and> X = Class ''literal'')\<rparr>"

definition sample_argument :: "(string + string, string, string) argument" where
  "sample_argument =
     \<lparr>arg_has_value = (\<lambda>x. \<not> isl x), to_value = (\<lambda>x. case x of Inl e \<Rightarrow> ''whole'' | Inr v \<Rightarrow> v),
      to_error = (\<lambda>x. case x of Inl e \<Rightarrow> e | Inr v \<Rightarrow> v)\<rparr>"

theorem value_or_error_witness:
  "overload sample_conversions (Class ''any'') (Class ''string'') (Unexp (Class ''literal'')) Lvalue True =
     Selects (ValueCtor False) \<and>
   overload sample_conversions (Class ''any'') (Class ''string'') (Unexp (Class ''literal'')) ConstLvalue True =
     Selects (UnexpectedCopy False) \<and>
   overload sample_conversions (Class ''bool'') (Class ''string'') (Exp (Class ''int'') (Class ''literal'')) Lvalue False =
     Selects (ValueCtor True) \<and>
   contents (objs (built (ValueCtor True) ''default'' sample_argument (Inl ''not found'')) ()) = Some (Inr ''whole'')"
proof -
  let ?L = sample_conversions
  have facts: "initialises ?L (Class ''any'') (Unexp (Class ''literal'')) Lvalue True"
      "initialises ?L (Class ''string'') (Class ''literal'') ConstLvalue True"
      "initialises ?L (Class ''bool'') (Exp (Class ''int'') (Class ''literal'')) Lvalue False"
      "convertible ?L (Class ''any'') (Unexp (Class ''literal'')) Lvalue"
      "convertible ?L (Class ''string'') (Class ''literal'') ConstLvalue"
      "\<not> convertible ?L (Class ''bool'') (Exp (Class ''int'') (Class ''literal'')) Lvalue"
      "Class ''literal'' \<noteq> Class ''string''"
      "Exp (Class ''int'') (Class ''literal'') \<noteq> Exp (Class ''bool'') (Class ''string'')"
    by code_simp+
  have holds: "has_value_after (ValueCtor True) sample_argument (Inl ''not found'')"
    "to_value sample_argument (Inl ''not found'') = ''whole''" by (simp_all add: sample_argument_def)
  note law = value_or_error [of ?L _ "Class ''string''" _ _ _ _ "ValueCtor True" "''default''" sample_argument "Inl ''not found''"]
  from law [of "Class ''any''" "Class ''literal''" Lvalue True] facts
  have "overload ?L (Class ''any'') (Class ''string'') (Unexp (Class ''literal'')) Lvalue True = Selects (ValueCtor False)"
    by (simp only: value_category.simps simp_thms if_True if_False)
  moreover from law [of "Class ''any''" "Class ''literal''" ConstLvalue True] facts
  have "overload ?L (Class ''any'') (Class ''string'') (Unexp (Class ''literal'')) ConstLvalue True = Selects (UnexpectedCopy False)"
    by (simp only: value_category.simps simp_thms if_True if_False)
  moreover from law [of "Class ''bool''" "Class ''literal''" Lvalue False "Class ''int''"] facts
  have "overload ?L (Class ''bool'') (Class ''string'') (Exp (Class ''int'') (Class ''literal'')) Lvalue False = Selects (ValueCtor True)"
    by (simp only: value_category.simps simp_thms if_True if_False)
  moreover from law holds
  have "contents (objs (built (ValueCtor True) ''default'' sample_argument (Inl ''not found'')) ()) = Some (Inr ''whole'')"
    by (simp only: simp_thms if_True)
  ultimately show ?thesis by blast
qed

end
