(* ===== verification/ExpectedLifetime.thy ===== *)
theory ExpectedLifetime
  imports ExpectedStorage
begin

text \<open>
  \<^verbatim>\<open>utility/expected.hpp\<close>, the six specialisations of \<^verbatim>\<open>expected_storage_base\<close> as they are written: each has
  constructors of its own and a destructor that ends the members it knows not to be trivially
  destructible.  Which one is used is decided by the traits of the members.
\<close>

section \<open>The specialisations\<close>

text \<open>
  A specialisation: its default constructor (from the \<^verbatim>\<open>T{}\<close> it makes), the ones for \<^verbatim>\<open>no_init\<close>,
  \<^verbatim>\<open>in_place\<close> and \<^verbatim>\<open>unexpect\<close> (from the object that the arguments make), and its destructor.
\<close>

record ('a, 't, 'e) specialisation =
  from_default :: "'t \<Rightarrow> ('t, 'e) storage"
  from_no_init :: "('t, 'e) storage"
  from_in_place :: "'t \<Rightarrow> ('t, 'e) storage"
  from_unexpect :: "'e \<Rightarrow> ('t, 'e) storage"
  destructor :: "'a \<Rightarrow> (('a, 't, 'e) world, unit) action"

definition neither_trivial :: "('a, 't, 'e) specialisation" where
  "neither_trivial = \<lparr>
     from_default = storage_default,
     from_no_init = storage_no_init,
     from_in_place = storage_in_place,
     from_unexpect = storage_unexpect,
     destructor = destroy_storage\<rparr>"

definition both_trivial :: "('a, 't, 'e) specialisation" where
  "both_trivial = \<lparr>
     from_default = (\<lambda>new. \<lparr>active = ValObj new, m_has_val = True\<rparr>),
     from_no_init = \<lparr>active = NoInit, m_has_val = False\<rparr>,
     from_in_place = (\<lambda>v. \<lparr>active = ValObj v, m_has_val = True\<rparr>),
     from_unexpect = (\<lambda>e. \<lparr>active = ErrObj e, m_has_val = False\<rparr>),
     destructor = destroy_storage_trivial\<rparr>"

definition T_trivial :: "('a, 't, 'e) specialisation" where
  "T_trivial = \<lparr>
     from_default = (\<lambda>new. \<lparr>active = ValObj new, m_has_val = True\<rparr>),
     from_no_init = \<lparr>active = NoInit, m_has_val = False\<rparr>,
     from_in_place = (\<lambda>v. \<lparr>active = ValObj v, m_has_val = True\<rparr>),
     from_unexpect = (\<lambda>e. \<lparr>active = ErrObj e, m_has_val = False\<rparr>),
     destructor = destroy_storage_T_trivial\<rparr>"

definition E_trivial :: "('a, 't, 'e) specialisation" where
  "E_trivial = \<lparr>
     from_default = (\<lambda>new. \<lparr>active = ValObj new, m_has_val = True\<rparr>),
     from_no_init = \<lparr>active = NoInit, m_has_val = False\<rparr>,
     from_in_place = (\<lambda>v. \<lparr>active = ValObj v, m_has_val = True\<rparr>),
     from_unexpect = (\<lambda>e. \<lparr>active = ErrObj e, m_has_val = False\<rparr>),
     destructor = destroy_storage_E_trivial\<rparr>"

text \<open>
  With \<^verbatim>\<open>void\<close> the union holds an error or a dummy, which counts as nothing.
\<close>

definition void_E_trivial :: "('a, unit, 'e) specialisation" where
  "void_E_trivial = \<lparr>
     from_default = (\<lambda>_. \<lparr>active = NoInit, m_has_val = True\<rparr>),
     from_no_init = \<lparr>active = NoInit, m_has_val = False\<rparr>,
     from_in_place = (\<lambda>_. \<lparr>active = NoInit, m_has_val = True\<rparr>),
     from_unexpect = (\<lambda>e. \<lparr>active = ErrObj e, m_has_val = False\<rparr>),
     destructor = (\<lambda>a. pass ())\<rparr>"

definition void_neither :: "('a, unit, 'e) specialisation" where
  "void_neither = \<lparr>
     from_default = (\<lambda>_. void_default),
     from_no_init = \<lparr>active = NoInit, m_has_val = False\<rparr>,
     from_in_place = (\<lambda>_. \<lparr>active = NoInit, m_has_val = True\<rparr>),
     from_unexpect = (\<lambda>e. \<lparr>active = ErrObj e, m_has_val = False\<rparr>),
     destructor = destroy_void\<rparr>"

text \<open>By whether \<open>T\<close> and \<open>E\<close> are trivially destructible.\<close>

fun storage_for :: "bool \<Rightarrow> bool \<Rightarrow> ('a, 't, 'e) specialisation" where
  "storage_for False False = neither_trivial"
| "storage_for True True = both_trivial"
| "storage_for True False = T_trivial"
| "storage_for False True = E_trivial"

fun void_storage_for :: "bool \<Rightarrow> ('a, unit, 'e) specialisation" where
  "void_storage_for True = void_E_trivial"
| "void_storage_for False = void_neither"

section \<open>An object's life\<close>

datatype ('t, 'e) initialiser = ByDefault 't | ByNoInit | InPlace 't | ByUnexpect 'e

fun init_storage :: "('a, 't, 'e) specialisation \<Rightarrow> ('t, 'e) initialiser \<Rightarrow> ('t, 'e) storage" where
  "init_storage S (ByDefault new) = from_default S new"
| "init_storage S ByNoInit = from_no_init S"
| "init_storage S (InPlace v) = from_in_place S v"
| "init_storage S (ByUnexpect e) = from_unexpect S e"

definition life ::
  "('a, 't, 'e) specialisation \<Rightarrow> ('t, 'e) initialiser \<Rightarrow> 'a \<Rightarrow> (('a, 't, 'e) world, unit) action" where
  "life S i a = thn (\<lambda>w. (Done (), w\<lparr>objs := (objs w)(a := init_storage S i)\<rparr>)) (destructor S a)"

text \<open>What may be left of an object: members whose destructor does nothing.\<close>

fun only_trivial :: "bool \<Rightarrow> bool \<Rightarrow> ('t, 'e) slot \<Rightarrow> bool" where
  "only_trivial t e (ValObj v) = t"
| "only_trivial t e (ErrObj x) = e"
| "only_trivial t e NoInit = True"
| "only_trivial t e Ended = True"

lemmas specialisation_defs = neither_trivial_def both_trivial_def T_trivial_def E_trivial_def void_E_trivial_def
  void_neither_def storage_default_def storage_no_init_def storage_in_place_def storage_unexpect_def
  destroy_storage_def destroy_storage_trivial_def destroy_storage_T_trivial_def
  destroy_storage_E_trivial_def destroy_void_def void_default_def

text \<open>The outcome of one life, whatever the specialisation.\<close>

abbreviation destroyed ::
  "bool \<Rightarrow> bool \<Rightarrow> ('t, 'e) initialiser \<Rightarrow> 'a \<Rightarrow> ('a, 't, 'e) world \<Rightarrow> unit exit \<Rightarrow> ('a, 't, 'e) world \<Rightarrow> bool" where
  "destroyed t e i a w r w' \<equiv>
     (if i = ByNoInit \<and> \<not> e then r = UB
      else r = Done () \<and> only_trivial t e (active (objs w' a)) \<and> leaked w' = leaked w \<and>
        objs w' = (objs w)(a := objs w' a))"

lemma object_life: "runs (life (storage_for t e) i a) w (destroyed t e i a w)"
  by (cases t; cases e; cases i; simp add: life_def runs_def specialisation_defs bnd_def has_val_def pass_def
      destroy_val_def destroy_err_def get_def geterr_def write_slot_def put_slot_def)

lemma void_life: "runs (life (void_storage_for e) i a) w (destroyed True e i a w)"
  by (cases e; cases i; simp add: life_def runs_def specialisation_defs bnd_def has_val_def pass_def
      destroy_err_def geterr_def write_slot_def put_slot_def)

text \<open>The constructors that start from \<^verbatim>\<open>no_init\<close> end or terminate the program.\<close>

lemma noexcept_not_threw: "fst (noexcept m w) \<noteq> Threw"
  by (auto simp: noexcept_def split: prod.split exit.split)

lemma construct_not_threw:
  "fst (construct_with mk a w) \<noteq> Threw" "fst (construct_error mk' a w) \<noteq> Threw"
  by (simp_all add: construct_with_def construct_error_def noexcept_not_threw)

lemma copies_do_not_throw: "fst (copy_construct T E a b w) \<noteq> Threw" "fst (move_construct T E a b w) \<noteq> Threw"
  by (simp_all add: copy_construct_def move_construct_def bnd_def fresh_def has_val_def construct_not_threw)

text \<open>
  The storage of every specialisation can be built by each of its constructors and destroyed: nothing
  is used that does not live, and the members left without a destructor call are those whose destructor does
  nothing.  The exception is the constructor that leaves the union without a member: to destroy that object
  is undefined where the error has a destructor, for the flag says that there is an error.  The copy and move
  constructors, which start from it, are never left by an exception.
\<close>

theorem built_then_destroyed:
  "runs (life (storage_for t e) i a) w (\<lambda>r w'.
     if i = ByNoInit \<and> \<not> e then r = UB
     else r = Done () \<and> only_trivial t e (active (objs w' a)) \<and> leaked w' = leaked w \<and>
       objs w' = (objs w)(a := objs w' a)) \<and>
   runs (life (void_storage_for e) j a) v (\<lambda>r v'.
     if j = ByNoInit \<and> \<not> e then r = UB
     else r = Done () \<and> only_trivial True e (active (objs v' a)) \<and> leaked v' = leaked v \<and>
       objs v' = (objs v)(a := objs v' a)) \<and>
   fst (copy_construct T E a b u) \<noteq> Threw \<and> fst (move_construct T E a b u) \<noteq> Threw"
  by (intro conjI object_life void_life copies_do_not_throw)

end
