(* ===== verification/QueueWeak.thy ===== *)
theory QueueWeak
  imports QueueDelivery
begin

text \<open>
  The queue under the memory model of C++: the accesses of \<open>QueueConcurrent\<close> with the orders that
  \<^verbatim>\<open>utility/lock_free_queue.hpp\<close> gives them.  An atomic counter has a history of messages; a load may read an
  old one, as long as the thread does not know a newer one; a message written with release carries what its
  writer knew, and a load with acquire learns it.  The slots are not atomic: to access one without knowing the
  last access to it is a data race, which is undefined behaviour.

  Counters that no one loads (\<^verbatim>\<open>size_\<close>) pass on nothing.  Stores to the head are read-modify-writes and
  those to the tail come from one thread, so that each history grows at its end.
\<close>

section \<open>Messages and knowledge\<close>

text \<open>
  What a thread knows: how far it has come in the two histories, and for each slot how many of the accesses
  to it happened before.
\<close>

record knowledge =
  k_head :: nat
  k_tail :: nat
  k_slots :: "nat \<Rightarrow> nat"

record message =
  m_value :: u32
  m_carries :: knowledge

datatype memory_order = Relaxed | Acquire

definition nothing_known :: knowledge where
  "nothing_known = \<lparr>k_head = 0, k_tail = 0, k_slots = (\<lambda>_. 0)\<rparr>"

definition learn :: "knowledge \<Rightarrow> knowledge \<Rightarrow> knowledge" where
  "learn k l = \<lparr>k_head = max (k_head k) (k_head l), k_tail = max (k_tail k) (k_tail l),
     k_slots = (\<lambda>i. max (k_slots k i) (k_slots l i))\<rparr>"

text \<open>\<open>w_shared\<close> has the newest values and where each thread is, as under sequential consistency.\<close>

record 't weak =
  w_shared :: "'t shared"
  heads :: "message list"
  tails :: "message list"
  versions :: "nat list"
  producer_knows :: knowledge
  consumers_know :: "knowledge list"

text \<open>The constructor has run before any thread uses the queue.\<close>

definition new_weak :: "nat \<Rightarrow> nat \<Rightarrow> 't \<Rightarrow> 't weak" where
  "new_weak c workers d =
     \<lparr>w_shared = new_shared c workers d,
      heads = [\<lparr>m_value = 0, m_carries = nothing_known\<rparr>], tails = [\<lparr>m_value = 0, m_carries = nothing_known\<rparr>],
      versions = replicate c 0, producer_knows = nothing_known, consumers_know = replicate workers nothing_known\<rparr>"

definition load_head :: "memory_order \<Rightarrow> nat \<Rightarrow> message list \<Rightarrow> knowledge \<Rightarrow> (u32 \<times> knowledge) option" where
  "load_head ord n hist k =
     (if k_head k \<le> n \<and> n < length hist
      then Some (m_value (hist ! n),
        (case ord of Acquire \<Rightarrow> learn k (m_carries (hist ! n)) | Relaxed \<Rightarrow> k)\<lparr>k_head := n\<rparr>)
      else None)"

definition load_tail :: "memory_order \<Rightarrow> nat \<Rightarrow> message list \<Rightarrow> knowledge \<Rightarrow> (u32 \<times> knowledge) option" where
  "load_tail ord n hist k =
     (if k_tail k \<le> n \<and> n < length hist
      then Some (m_value (hist ! n),
        (case ord of Acquire \<Rightarrow> learn k (m_carries (hist ! n)) | Relaxed \<Rightarrow> k)\<lparr>k_tail := n\<rparr>)
      else None)"

definition races :: "'t weak \<Rightarrow> knowledge \<Rightarrow> u32 \<Rightarrow> bool" where
  "races s k i \<longleftrightarrow> \<not> unat i < length (versions s) \<or> k_slots k (unat i) \<noteq> versions s ! unat i"

text \<open>An access to a slot is known to the thread that made it.\<close>

definition touch :: "u32 \<Rightarrow> 't weak \<Rightarrow> 't weak" where
  "touch i s = s\<lparr>versions := (versions s)[unat i := Suc (versions s ! unat i)]\<rparr>"

definition touched :: "u32 \<Rightarrow> 't weak \<Rightarrow> knowledge \<Rightarrow> knowledge" where
  "touched i s k = k\<lparr>k_slots := (k_slots k)(unat i := Suc (versions s ! unat i))\<rparr>"

section \<open>The accesses\<close>

text \<open>
  The numbers say which messages are read.  A weak exchange succeeds on the newest message only and
  fails on any, whether or not the value agrees.
\<close>

datatype 't weak_access =
    WLoadTail 't nat
  | WWriteSlot
  | WStoreTail
  | WIncSize
  | WLoadHead nat nat
  | WCompareTail nat nat
  | WExchange nat
  | WExchangeFails nat nat
  | WMoveSlot nat
  | WDecSize nat

definition knows :: "nat \<Rightarrow> 't weak \<Rightarrow> knowledge" where
  "knows i s = consumers_know s ! i"

definition moves_on :: "nat \<Rightarrow> 't consumer \<Rightarrow> knowledge \<Rightarrow> 't weak \<Rightarrow> 't weak" where
  "moves_on i pc k s = s\<lparr>w_shared := goto i pc (w_shared s), consumers_know := (consumers_know s)[i := k]\<rparr>"

text \<open>
  \<open>None\<close> where the thread is not at that access or may not read that message.  The order of the load of the
  head is a parameter; in the code it is \<open>Relaxed\<close>.
\<close>

fun weak_step ::
  "nat \<Rightarrow> memory_order \<Rightarrow> ('t \<Rightarrow> 't) \<Rightarrow> 't weak_access \<Rightarrow> 't weak \<Rightarrow> 't weak outcome option" where
  "weak_step c ord moved (WLoadTail x n) s =
     (case sh_producer (w_shared s) of
        PIdle \<Rightarrow>
          (case load_tail Acquire n (tails s) (producer_knows s) of
             None \<Rightarrow> None
           | Some (t, k) \<Rightarrow> Some (Returns (s\<lparr>
               w_shared := (w_shared s)\<lparr>sh_producer := PLoaded x t, started := started (w_shared s) @ [x]\<rparr>,
               producer_knows := k\<rparr>)))
      | _ \<Rightarrow> None)"
| "weak_step c ord moved WWriteSlot s =
     (case sh_producer (w_shared s) of
        PLoaded x t \<Rightarrow>
          if races s (producer_knows s) t then Some Undefined
          else (case access c moved WriteSlot (w_shared s) of
                  None \<Rightarrow> None
                | Some s' \<Rightarrow> Some (Returns ((touch t s)\<lparr>w_shared := s', producer_knows := touched t s (producer_knows s)\<rparr>)))
      | _ \<Rightarrow> None)"
| "weak_step c ord moved WStoreTail s =
     (case access c moved StoreTail (w_shared s) of
        None \<Rightarrow> None
      | Some s' \<Rightarrow>
          let k = (producer_knows s)\<lparr>k_tail := length (tails s)\<rparr>
          in Some (Returns (s\<lparr>w_shared := s', producer_knows := k,
               tails := tails s @ [\<lparr>m_value = q_tail (sh_queue s'), m_carries = k\<rparr>]\<rparr>)))"
| "weak_step c ord moved WIncSize s =
     (case access c moved IncSize (w_shared s) of
        None \<Rightarrow> None | Some s' \<Rightarrow> Some (Returns (s\<lparr>w_shared := s'\<rparr>)))"
| "weak_step c ord moved (WLoadHead i n) s =
     (case at (w_shared s) i of
        Some CIdle \<Rightarrow>
          (case load_head ord n (heads s) (knows i s) of
             None \<Rightarrow> None
           | Some (h, k) \<Rightarrow> Some (Returns (moves_on i (CHead h) k s)))
      | _ \<Rightarrow> None)"
| "weak_step c ord moved (WCompareTail i n) s =
     (case at (w_shared s) i of
        Some (CHead h) \<Rightarrow>
          (case load_tail Acquire n (tails s) (knows i s) of
             None \<Rightarrow> None
           | Some (t, k) \<Rightarrow> Some (Returns (moves_on i (if h = t then CIdle else CNonEmpty h) k s)))
      | _ \<Rightarrow> None)"
| "weak_step c ord moved (WExchange i) s =
     (case at (w_shared s) i of
        Some (CNonEmpty h) \<Rightarrow>
          if m_value (last (heads s)) = h then
            (case access c moved (Exchange i False) (w_shared s) of
               None \<Rightarrow> None
             | Some s' \<Rightarrow>
                 let k = (knows i s)\<lparr>k_head := length (heads s)\<rparr>
                 in Some (Returns (s\<lparr>w_shared := s', consumers_know := (consumers_know s)[i := k],
                      heads := heads s @ [\<lparr>m_value = q_head (sh_queue s'), m_carries = learn k (m_carries (last (heads s)))\<rparr>]\<rparr>)))
          else None
      | _ \<Rightarrow> None)"
| "weak_step c ord moved (WExchangeFails i n) s =
     (case at (w_shared s) i of
        Some (CNonEmpty h) \<Rightarrow>
          (case load_head Relaxed n (heads s) (knows i s) of
             None \<Rightarrow> None
           | Some (h', k) \<Rightarrow> Some (Returns (moves_on i CIdle k s)))
      | _ \<Rightarrow> None)"
| "weak_step c ord moved (WMoveSlot i) s =
     (case at (w_shared s) i of
        Some (CWon h) \<Rightarrow>
          if races s (knows i s) h then Some Undefined
          else (case access c moved (MoveSlot i) (w_shared s) of
                  None \<Rightarrow> None
                | Some s' \<Rightarrow> Some (Returns ((touch h s)\<lparr>w_shared := s',
                    consumers_know := (consumers_know s)[i := touched h s (knows i s)]\<rparr>)))
      | _ \<Rightarrow> None)"
| "weak_step c ord moved (WDecSize i) s =
     (case access c moved (DecSize i) (w_shared s) of
        None \<Rightarrow> None | Some s' \<Rightarrow> Some (Returns (s\<lparr>w_shared := s'\<rparr>)))"

inductive weak_steps :: "nat \<Rightarrow> memory_order \<Rightarrow> ('t \<Rightarrow> 't) \<Rightarrow> 't weak \<Rightarrow> 't weak \<Rightarrow> bool"
  for c ord moved s where
  refl: "weak_steps c ord moved s s"
| step: "weak_steps c ord moved s s' \<Longrightarrow> weak_step c ord moved a s' = Some (Returns s'') \<Longrightarrow>
    weak_steps c ord moved s s''"

fun weak_schedule ::
  "nat \<Rightarrow> memory_order \<Rightarrow> ('t \<Rightarrow> 't) \<Rightarrow> 't weak_access list \<Rightarrow> 't weak \<Rightarrow> 't weak outcome option" where
  "weak_schedule c ord moved [] s = Some (Returns s)"
| "weak_schedule c ord moved (a # as) s =
     (case weak_step c ord moved a s of
        Some (Returns s') \<Rightarrow> weak_schedule c ord moved as s'
      | r \<Rightarrow> r)"

lemma weak_schedule_steps:
  assumes "weak_steps c ord moved s0 s" and "weak_schedule c ord moved as s = Some (Returns s')"
  shows "weak_steps c ord moved s0 s'"
  using assms by (induction as arbitrary: s) (auto split: option.splits outcome.splits intro: weak_steps.step)

section \<open>What every run keeps\<close>

text \<open>No one knows of more accesses to a slot than there were.\<close>

definition version :: "'t weak \<Rightarrow> nat \<Rightarrow> nat" where
  "version s i = (if i < length (versions s) then versions s ! i else 0)"

definition known_by :: "'t weak \<Rightarrow> knowledge set" where
  "known_by s = insert (producer_knows s) (set (consumers_know s) \<union> m_carries ` set (heads s) \<union> m_carries ` set (tails s))"

definition producer_side :: "'t weak \<Rightarrow> knowledge set" where
  "producer_side s = insert (producer_knows s) (m_carries ` set (tails s))"

lemma version_touch: "version s i \<le> version (touch t s) i"
  by (cases "unat t < length (versions s)") (auto simp: version_def touch_def nth_list_update list_update_beyond)

lemma learn_slots: "k_slots (learn k l) i = max (k_slots k i) (k_slots l i)"
  by (simp add: learn_def)

lemma load_head_slots:
  "load_head ord n hist k = Some (v, k') \<Longrightarrow> v = m_value (hist ! n) \<and> n < length hist \<and> k_head k \<le> n \<and> k_head k' = n \<and>
     k' = (case ord of Acquire \<Rightarrow> learn k (m_carries (hist ! n)) | Relaxed \<Rightarrow> k)\<lparr>k_head := n\<rparr>"
  by (auto simp: load_head_def split: if_splits)

lemma load_tail_slots:
  "load_tail ord n hist k = Some (v, k') \<Longrightarrow> v = m_value (hist ! n) \<and> n < length hist \<and> k_tail k \<le> n \<and> k_tail k' = n \<and>
     k' = (case ord of Acquire \<Rightarrow> learn k (m_carries (hist ! n)) | Relaxed \<Rightarrow> k)\<lparr>k_tail := n\<rparr>"
  by (auto simp: load_tail_def split: if_splits)

text \<open>Where the knowledge of the producer and of its messages comes from.\<close>

lemma producer_side_step:
  assumes "weak_step c ord moved a s = Some (Returns s')" and "\<And>k. k \<in> producer_side s \<Longrightarrow> k_slots k i < v"
    and "v \<le> version s i" and "k \<in> producer_side s'"
  shows "k_slots k i < v"
proof (cases a)
  case (WLoadTail x n)
  with assms(1) obtain t k' where "load_tail Acquire n (tails s) (producer_knows s) = Some (t, k')"
    and s': "producer_knows s' = k'" "tails s' = tails s"
    by (auto split: producer.splits option.splits)
  from load_tail_slots [OF this(1)] have "n < length (tails s)"
    "k_slots k' i = max (k_slots (producer_knows s) i) (k_slots (m_carries (tails s ! n)) i)"
    by (simp_all add: learn_slots)
  with s' assms(2,4) show ?thesis by (auto simp: producer_side_def)
next
  case WWriteSlot
  with assms(1) obtain x t where t: "\<not> races s (producer_knows s) t"
    "producer_knows s' = touched t s (producer_knows s)" "tails s' = tails s"
    by (auto simp: touch_def split: producer.splits option.splits if_splits)
  have "unat t \<noteq> i"
    using t(1) assms(2) [of "producer_knows s"] assms(3) by (auto simp: races_def version_def producer_side_def)
  with t assms(2,4) show ?thesis by (auto simp: producer_side_def touched_def)
next
  case WStoreTail
  with assms(1,2,4) show ?thesis by (auto simp: producer_side_def Let_def simp del: access.simps split: option.splits)
next
  case (WExchange j)
  with assms(1,2,4) show ?thesis
    by (auto simp: producer_side_def Let_def simp del: access.simps split: option.splits consumer.splits if_splits)
next
  case (WMoveSlot j)
  with assms(1,2,4) show ?thesis
    by (auto simp: producer_side_def touch_def simp del: access.simps split: option.splits consumer.splits if_splits)
qed (use assms(1,2,4) in \<open>auto simp: producer_side_def moves_on_def simp del: access.simps
    split: option.splits consumer.splits\<close>)

lemma version_step:
  "weak_step c ord moved a s = Some (Returns s') \<Longrightarrow> version s i \<le> version s' i \<and> length (versions s') = length (versions s)"
  using version_touch [of s i]
  by (cases a) (auto simp: moves_on_def touch_def version_def Let_def simp del: access.simps
      split: producer.splits option.splits consumer.splits if_splits)

definition bounded :: "'t weak \<Rightarrow> knowledge \<Rightarrow> bool" where
  "bounded s k \<longleftrightarrow> (\<forall>i. k_slots k i \<le> version s i)"

lemma bounded_learn: "bounded s k \<Longrightarrow> bounded s l \<Longrightarrow> bounded s (learn k l)"
  by (simp add: bounded_def learn_slots)

lemma bounded_counters [simp]: "bounded s (k\<lparr>k_head := n\<rparr>) = bounded s k" "bounded s (k\<lparr>k_tail := n\<rparr>) = bounded s k"
  by (simp_all add: bounded_def)

lemma bounded_versions: "versions s' = versions s \<Longrightarrow> bounded s' k = bounded s k"
  by (simp add: bounded_def version_def)

lemma bounded_updates [simp]:
  "bounded (s\<lparr>w_shared := v\<rparr>) k = bounded s k" "bounded (s\<lparr>heads := hs\<rparr>) k = bounded s k"
  "bounded (s\<lparr>tails := ts\<rparr>) k = bounded s k" "bounded (s\<lparr>producer_knows := l\<rparr>) k = bounded s k"
  "bounded (s\<lparr>consumers_know := ls\<rparr>) k = bounded s k"
  by (rule bounded_versions, simp)+

lemma bounded_touch: "bounded s k \<Longrightarrow> versions s' = versions (touch t s) \<Longrightarrow> bounded s' k"
  using version_touch [of s _ t] bounded_versions [of s' "touch t s" k] by (auto simp: bounded_def intro: le_trans)

lemma bounded_touched: "bounded s k \<Longrightarrow> \<not> races s l t \<Longrightarrow> versions s' = versions (touch t s) \<Longrightarrow> bounded s' (touched t s k)"
  using version_touch [of s _ t]
  by (auto simp: bounded_def version_def touched_def touch_def races_def nth_list_update split: if_splits)

definition sound :: "'t weak \<Rightarrow> bool" where
  "sound s \<longleftrightarrow> Ball (known_by s) (bounded s) \<and> heads s \<noteq> [] \<and> tails s \<noteq> [] \<and>
     length (consumers_know s) = length (sh_consumers (w_shared s))"

lemma soundI:
  "bounded s (producer_knows s) \<Longrightarrow> (\<And>m. m \<in> set (heads s) \<Longrightarrow> bounded s (m_carries m)) \<Longrightarrow>
   (\<And>m. m \<in> set (tails s) \<Longrightarrow> bounded s (m_carries m)) \<Longrightarrow> (\<And>k. k \<in> set (consumers_know s) \<Longrightarrow> bounded s k) \<Longrightarrow>
   heads s \<noteq> [] \<Longrightarrow> tails s \<noteq> [] \<Longrightarrow> length (consumers_know s) = length (sh_consumers (w_shared s)) \<Longrightarrow> sound s"
  by (auto simp: sound_def known_by_def)

lemma soundD:
  assumes "sound s"
  shows "bounded s (producer_knows s)" "m \<in> set (heads s) \<Longrightarrow> bounded s (m_carries m)"
    "m \<in> set (tails s) \<Longrightarrow> bounded s (m_carries m)" "k \<in> set (consumers_know s) \<Longrightarrow> bounded s k"
    "heads s \<noteq> []" "tails s \<noteq> []" "length (consumers_know s) = length (sh_consumers (w_shared s))"
  using assms by (auto simp: sound_def known_by_def)

lemma sound_new: "sound (new_weak c workers d)"
  by (rule soundI) (auto simp: new_weak_def new_shared_def bounded_def nothing_known_def version_def)

lemma at_knows: "sound s \<Longrightarrow> at (w_shared s) i = Some pc \<Longrightarrow> bounded s (knows i s)"
  by (metis at_Some knows_def nth_mem soundD(4,7))

lemma load_head_bounded:
  "sound s \<Longrightarrow> bounded s k \<Longrightarrow> load_head ord n (heads s) k = Some (v, k') \<Longrightarrow> bounded s k'"
  by (auto simp: load_head_def intro!: bounded_learn soundD(2) split: if_splits memory_order.splits)

lemma load_tail_bounded:
  "sound s \<Longrightarrow> bounded s k \<Longrightarrow> load_tail ord n (tails s) k = Some (v, k') \<Longrightarrow> bounded s k'"
  by (auto simp: load_tail_def intro!: bounded_learn soundD(3) split: if_splits memory_order.splits)

lemma sound_moves_on: "sound s \<Longrightarrow> bounded s k \<Longrightarrow> sound (moves_on i pc k s)"
  by (rule soundI) (auto simp: moves_on_def goto_def dest: soundD dest!: set_update_subset_insert [THEN subsetD])

lemma sound_step:
  assumes "weak_step c ord moved a s = Some (Returns s')" and s: "sound s"
  shows "sound s'"
proof (cases a)
  case (WLoadTail x n)
  with assms(1) obtain t k where "load_tail Acquire n (tails s) (producer_knows s) = Some (t, k)"
    and s': "s' = s\<lparr>w_shared := (w_shared s)\<lparr>sh_producer := PLoaded x t, started := started (w_shared s) @ [x]\<rparr>, producer_knows := k\<rparr>"
    by (auto split: producer.splits option.splits)
  from load_tail_bounded [OF s soundD(1) [OF s] this(1)] s show ?thesis
    unfolding s' by (intro soundI) (auto simp: soundD)
next
  case WWriteSlot
  with assms(1) obtain x t s1 where r: "\<not> races s (producer_knows s) t" "access c moved WriteSlot (w_shared s) = Some s1"
    and s': "s' = (touch t s)\<lparr>w_shared := s1, producer_knows := touched t s (producer_knows s)\<rparr>"
    by (auto simp del: access.simps split: producer.splits option.splits if_splits)
  have "versions s' = versions (touch t s)" by (simp add: s')
  note up = bounded_touch [OF _ this] bounded_touched [OF _ r(1) this]
  show ?thesis
    by (rule soundI) (use s up access_consumers [OF r(2)] in \<open>auto simp: s' touch_def soundD\<close>)
next
  case WStoreTail
  with assms(1) obtain s1 where "access c moved StoreTail (w_shared s) = Some s1" and
    "s' = s\<lparr>w_shared := s1, producer_knows := (producer_knows s)\<lparr>k_tail := length (tails s)\<rparr>,
      tails := tails s @ [\<lparr>m_value = q_tail (sh_queue s1), m_carries = (producer_knows s)\<lparr>k_tail := length (tails s)\<rparr>\<rparr>]\<rparr>"
    by (auto simp: Let_def simp del: access.simps split: option.splits)
  with s access_consumers [OF this(1)] show ?thesis
    by (intro soundI) (auto simp: soundD)
next
  case WIncSize
  with assms(1) obtain s1 where "access c moved IncSize (w_shared s) = Some s1" "s' = s\<lparr>w_shared := s1\<rparr>"
    by (auto simp del: access.simps split: option.splits)
  with s access_consumers [OF this(1)] show ?thesis by (intro soundI) (auto simp: soundD)
next
  case (WLoadHead i n)
  with assms(1) obtain h k where "at (w_shared s) i = Some CIdle" "load_head ord n (heads s) (knows i s) = Some (h, k)"
    "s' = moves_on i (CHead h) k s"
    by (auto split: option.splits consumer.splits)
  with s show ?thesis using load_head_bounded at_knows sound_moves_on by metis
next
  case (WCompareTail i n)
  with assms(1) obtain h t k where "at (w_shared s) i = Some (CHead h)"
    "load_tail Acquire n (tails s) (knows i s) = Some (t, k)" "s' = moves_on i (if h = t then CIdle else CNonEmpty h) k s"
    by (auto split: option.splits consumer.splits)
  with s show ?thesis using load_tail_bounded at_knows sound_moves_on by metis
next
  case (WExchange i)
  with assms(1) obtain h s1 k where k: "at (w_shared s) i = Some (CNonEmpty h)" "k = (knows i s)\<lparr>k_head := length (heads s)\<rparr>"
    "access c moved (Exchange i False) (w_shared s) = Some s1"
    "s' = s\<lparr>w_shared := s1, consumers_know := (consumers_know s)[i := k],
       heads := heads s @ [\<lparr>m_value = q_head (sh_queue s1), m_carries = learn k (m_carries (last (heads s)))\<rparr>]\<rparr>"
    by (auto simp: Let_def simp del: access.simps split: option.splits consumer.splits if_splits)
  have "bounded s k" using at_knows [OF s k(1)] by (simp add: k(2))
  moreover have "bounded s (m_carries (last (heads s)))" by (metis s last_in_set soundD(2,5))
  ultimately show ?thesis
    using s access_consumers [OF k(3)]
    by (intro soundI) (auto simp: k(4) soundD bounded_learn dest!: set_update_subset_insert [THEN subsetD])
next
  case (WExchangeFails i n)
  with assms(1) obtain h v k where "at (w_shared s) i = Some (CNonEmpty h)"
    "load_head Relaxed n (heads s) (knows i s) = Some (v, k)" "s' = moves_on i CIdle k s"
    by (auto split: option.splits consumer.splits)
  with s show ?thesis using load_head_bounded at_knows sound_moves_on by metis
next
  case (WMoveSlot i)
  with assms(1) obtain h s1 where r: "at (w_shared s) i = Some (CWon h)" "\<not> races s (knows i s) h"
    "access c moved (MoveSlot i) (w_shared s) = Some s1"
    and s': "s' = (touch h s)\<lparr>w_shared := s1, consumers_know := (consumers_know s)[i := touched h s (knows i s)]\<rparr>"
    by (auto simp del: access.simps split: option.splits consumer.splits if_splits)
  have "versions s' = versions (touch h s)" by (simp add: s')
  note up = bounded_touch [OF _ this] bounded_touched [OF at_knows [OF s r(1)] r(2) this]
  show ?thesis
    by (rule soundI) (use s up access_consumers [OF r(3)] in
      \<open>auto simp: s' touch_def soundD dest!: set_update_subset_insert [THEN subsetD]\<close>)
next
  case (WDecSize i)
  with assms(1) obtain s1 where "access c moved (DecSize i) (w_shared s) = Some s1" "s' = s\<lparr>w_shared := s1\<rparr>"
    by (auto simp del: access.simps split: option.splits)
  with s access_consumers [OF this(1)] show ?thesis by (intro soundI) (auto simp: soundD)
qed

lemma sound_steps: "weak_steps c ord moved s s' \<Longrightarrow> sound s \<Longrightarrow> sound s'"
  by (induction rule: weak_steps.induct) (auto intro: sound_step)

text \<open>Undisturbed operations, with the messages they read, and the evaluation of runs.\<close>

definition push_weakly :: "'t \<Rightarrow> nat \<Rightarrow> 't weak_access list" where
  "push_weakly x n = [WLoadTail x n, WWriteSlot, WStoreTail, WIncSize]"

definition pop_weakly :: "nat \<Rightarrow> nat \<Rightarrow> nat \<Rightarrow> 't weak_access list" where
  "pop_weakly i h t = [WLoadHead i h, WCompareTail i t, WExchange i, WMoveSlot i, WDecSize i]"

lemmas queue_eval = new_weak_def new_shared_def new_queue_def at_def goto_def knows_def moves_on_def races_def touch_def touched_def
  load_head_def load_tail_def learn_def nothing_known_def next_index_def array_at_def
  SMALL_INTEGER_OPTIMISATION_LIMIT_def upt_rec replicate_small push_weakly_def pop_weakly_def

section \<open>A slot is not used twice\<close>

lemma producer_side_steps:
  assumes "weak_steps c ord moved s s'" and "\<And>k. k \<in> producer_side s \<Longrightarrow> k_slots k i < v" and "v \<le> version s i"
    and "k \<in> producer_side s'"
  shows "k_slots k i < v"
proof -
  have "(\<forall>k \<in> producer_side s'. k_slots k i < v) \<and> v \<le> version s' i"
    using assms(1)
  proof (induction rule: weak_steps.induct)
    case refl
    with assms(2,3) show ?case by blast
  next
    case (step s' a s'')
    with producer_side_step [OF step.hyps(2), of i v] version_step [OF step.hyps(2), of i] show ?case
      by (blast intro: le_trans)
  qed
  with assms(4) show ?thesis by blast
qed

text \<open>
  C13. No slot is used for a second push.  Nothing that a consumer does comes to the knowledge of the
  producer, which loads only the tail: once a consumer has moved an element out of a slot, the next write of
  the producer to that slot is a data race with it, and the behaviour is undefined, however long before
  the element was taken, however empty the queue is, and with every order for the load of the head.
\<close>

theorem reuse_races:
  assumes "weak_steps c ord moved (new_weak c workers d) s" and "at (w_shared s) i = Some (CWon h)"
    and "weak_step c ord moved (WMoveSlot i) s = Some (Returns s1)"
    and "weak_steps c ord moved s1 s2" and "sh_producer (w_shared s2) = PLoaded x h"
  shows "weak_step c ord moved WWriteSlot s2 = Some Undefined"
proof -
  have s: "sound s" by (rule sound_steps [OF assms(1) sound_new])
  from assms(2,3) obtain sh where r: "\<not> races s (knows i s) h" and
    s1: "s1 = (touch h s)\<lparr>w_shared := sh, consumers_know := (consumers_know s)[i := touched h s (knows i s)]\<rparr>"
    by (auto simp del: access.simps split: option.splits if_splits)
  have v: "version s1 (unat h) = Suc (version s (unat h))"
    using r by (simp add: s1 races_def version_def touch_def)
  have "k_slots k (unat h) < Suc (version s (unat h))" if "k \<in> producer_side s1" for k
  proof -
    from that have "k \<in> known_by s" by (auto simp: s1 touch_def producer_side_def known_by_def)
    with s show ?thesis by (auto simp: sound_def bounded_def less_Suc_eq_le)
  qed
  from producer_side_steps [OF assms(4) this, of "producer_knows s2"] v
  have "k_slots (producer_knows s2) (unat h) < Suc (version s (unat h))" by (simp add: producer_side_def)
  moreover have "Suc (version s (unat h)) \<le> version s2 (unat h)"
    using assms(4) v by (induction rule: weak_steps.induct) (auto dest: version_step intro: le_trans)
  ultimately have "races s2 (producer_knows s2) h" by (auto simp: races_def version_def split: if_splits)
  with assms(5) show ?thesis by simp
qed

text \<open>The fourth push into a queue of three slots, from which everything has been popped.\<close>

theorem reuse_races_witness:
  "\<exists>s. weak_steps 3 Relaxed id (new_weak 3 1 '''') s \<and> delivered (w_shared s) = [''a'', ''b'', ''c''] \<and>
     sh_producer (w_shared s) = PLoaded ''d'' 0 \<and> weak_step 3 Relaxed id WWriteSlot s = Some Undefined"
proof -
  let ?before = "push_weakly ''a'' 0 @ [WLoadHead 0 0, WCompareTail 0 1, WExchange 0]"
  let ?after = "[WDecSize 0] @ push_weakly ''b'' 1 @ pop_weakly 0 1 2 @ push_weakly ''c'' 2 @ pop_weakly 0 2 3 @ [WLoadTail ''d'' 3]"
  have "\<exists>s s1 s2. weak_schedule 3 Relaxed id ?before (new_weak 3 1 '''') = Some (Returns s) \<and> at (w_shared s) 0 = Some (CWon 0) \<and>
      weak_step 3 Relaxed id (WMoveSlot 0) s = Some (Returns s1) \<and> weak_schedule 3 Relaxed id ?after s1 = Some (Returns s2) \<and>
      delivered (w_shared s2) = [''a'', ''b'', ''c''] \<and> sh_producer (w_shared s2) = PLoaded ''d'' 0"
    by (simp add: queue_eval Let_def)
  then obtain s s1 s2 where run: "weak_schedule 3 Relaxed id ?before (new_weak 3 1 '''') = Some (Returns s)"
      "at (w_shared s) 0 = Some (CWon 0)" "weak_step 3 Relaxed id (WMoveSlot 0) s = Some (Returns s1)"
      "weak_schedule 3 Relaxed id ?after s1 = Some (Returns s2)"
    and fin: "delivered (w_shared s2) = [''a'', ''b'', ''c'']" "sh_producer (w_shared s2) = PLoaded ''d'' 0" by blast
  note steps = weak_schedule_steps [OF weak_steps.refl run(1)]
  have "weak_steps 3 Relaxed id (new_weak 3 1 '''') s2"
    by (rule weak_schedule_steps [OF weak_steps.step [OF steps run(3)] run(4)])
  moreover have "weak_step 3 Relaxed id WWriteSlot s2 = Some Undefined"
    by (rule reuse_races [OF steps run(2,3) weak_schedule_steps [OF weak_steps.refl run(4)] fin(2)])
  ultimately show ?thesis using fin by blast
qed

section \<open>An old tail\<close>

definition stale_tail_run :: "'t \<Rightarrow> 't weak_access list" where
  "stale_tail_run x = push_weakly x 0 @ pop_weakly 0 0 1 @ pop_weakly 1 1 0"

text \<open>
  An old tail.  Two of the consumers and a single push are enough for the queue to deliver what was never
  pushed, in a ring of any size: the second consumer loads the head that the first has advanced, with a
  relaxed load that brings no knowledge of the push, and compares it with the tail from before the push;
  they differ, its exchange succeeds on the empty queue, and it delivers what the constructor left in the
  next slot.  The head is then ahead of the tail, and the size has gone below zero.
\<close>

theorem old_tail_delivers:
  assumes "2 < c" and "c \<le> 100" and "1 < workers"
  shows "\<exists>s. weak_schedule c Relaxed moved (stale_tail_run x) (new_weak c workers d) = Some (Returns s) \<and>
     started (w_shared s) = [x] \<and> delivered (w_shared s) = [x, d] \<and>
     q_head (sh_queue (w_shared s)) = 2 \<and> q_tail (sh_queue (w_shared s)) = 1 \<and> q_size (sh_queue (w_shared s)) = - 1"
proof -
  have ok: "queue_ok c (new_queue c d)"
    using assms by (intro new_queue_ok) (simp_all add: SMALL_INTEGER_OPTIMISATION_LIMIT_def)
  have nxt: "next_index c q (word_of_nat n) = Returns (word_of_nat (Suc n))"
    if q: "q_next q = q_next (new_queue c d)" and n: "Suc n < c" for q n
  proof -
    have small: "unat (word_of_nat n :: u32) = n" "unat (word_of_nat (Suc n) :: u32) = Suc n"
      using n assms by (simp_all add: unat_small del: of_nat_Suc)
    have "next_index c q (word_of_nat n) = next_index c (new_queue c d) (word_of_nat n)"
      using q by (simp add: next_index_def)
    moreover from next_index_ring [OF ok, of "word_of_nat n"] small(1) n obtain m where
      m: "next_index c (new_queue c d) (word_of_nat n) = Returns m" "unat m = Suc n" by auto
    moreover from m(2) small(2) have "m = word_of_nat (Suc n)" by (simp only: unat_same [symmetric])
    ultimately show ?thesis by simp
  qed
  have next01: "next_index c q 0 = Returns 1" "next_index c q 1 = Returns 2" if "q_next q = q_next (new_queue c d)" for q
    using nxt [OF that, of 0] nxt [OF that, of 1] assms by simp_all
  have new: "q_head (new_queue c d) = 0" "q_tail (new_queue c d) = 0" "q_size (new_queue c d) = 0"
    "q_arr (new_queue c d) = replicate c d" by (simp_all add: new_queue_def)
  show ?thesis
    using assms
    by (simp add: stale_tail_run_def push_weakly_def pop_weakly_def new_weak_def new_shared_def new next01
        at_def goto_def knows_def moves_on_def races_def touch_def touched_def load_head_def load_tail_def learn_def
        nothing_known_def replicate_small nth_list_update Let_def)
qed

theorem old_tail_delivers_witness:
  "\<exists>s. weak_schedule 100 Relaxed id (stale_tail_run ''a'') (new_weak 100 4 '''') = Some (Returns s) \<and>
     started (w_shared s) = [''a''] \<and> delivered (w_shared s) = [''a'', '''']"
  using old_tail_delivers [of 100 4 id "''a''" "''''"] by auto

end
