(* ===== verification/QueueWeakDelivery.thy ===== *)
theory QueueWeakDelivery
  imports QueueWeak
begin

text \<open>
  What the orders of \<^verbatim>\<open>utility/lock_free_queue.hpp\<close> are enough for.  While fewer elements than slots have been
  pushed in all, and either one consumer works or the load of the head is an acquire, no access of the
  queue races and every element is delivered at most once, none invented and none lost.  The invariant of
  \<open>QueueDelivery\<close> is kept, with claims that may be old, and says which thread knows what.
\<close>

section \<open>The invariant\<close>

definition learned :: "nat \<Rightarrow> nat \<Rightarrow> knowledge \<Rightarrow> bool" where
  "learned H T k \<longleftrightarrow> k_head k \<le> H \<and> k_tail k \<le> T \<and> (\<forall>n < k_tail k. 1 \<le> k_slots k n)"

text \<open>What a consumer knows of the element it is after.\<close>

fun entitled :: "nat list \<Rightarrow> knowledge \<Rightarrow> 't consumer \<Rightarrow> nat option \<Rightarrow> bool" where
  "entitled vs k (CHead h) (Some m) \<longleftrightarrow> m \<le> k_tail k"
| "entitled vs k (CNonEmpty h) (Some m) \<longleftrightarrow> m < k_tail k"
| "entitled vs k (CWon h) (Some m) \<longleftrightarrow> m < k_tail k \<and> vs ! m \<le> 1"
| "entitled vs k pc cl = True"

definition up_to_date :: "memory_order \<Rightarrow> nat \<Rightarrow> 't weak \<Rightarrow> bool" where
  "up_to_date ord H s \<longleftrightarrow>
     ord = Acquire \<or> length (consumers_know s) = 1 \<and> k_head (knows 0 s) = H \<and> H \<le> k_tail (knows 0 s)"

definition unwritten :: "'t shared \<Rightarrow> nat \<Rightarrow> bool" where
  "unwritten sh n \<longleftrightarrow> (case sh_producer sh of PWritten t \<Rightarrow> stored sh < n | _ \<Rightarrow> stored sh \<le> n)"

definition producer_ok :: "'t shared \<Rightarrow> knowledge \<Rightarrow> bool" where
  "producer_ok sh k \<longleftrightarrow> k_tail k = stored sh \<and> (\<forall>t. sh_producer sh = PWritten t \<longrightarrow> 1 \<le> k_slots k (stored sh))"

definition weak_ok :: "nat \<Rightarrow> memory_order \<Rightarrow> 't weak \<Rightarrow> history \<Rightarrow> bool" where
  "weak_ok c ord s g \<longleftrightarrow>
     delivery_ok c (w_shared s) g \<and> sound s \<and> length (versions s) = c \<and>
     length (heads s) = Suc (popped g) \<and> length (tails s) = Suc (stored (w_shared s)) \<and>
     (\<forall>n \<le> popped g. m_value (heads s ! n) = word_of_nat n \<and> n \<le> k_tail (m_carries (heads s ! n))) \<and>
     (\<forall>n \<le> stored (w_shared s). m_value (tails s ! n) = word_of_nat n \<and> k_tail (m_carries (tails s ! n)) = n) \<and>
     (\<forall>k \<in> known_by s. learned (popped g) (stored (w_shared s)) k) \<and>
     producer_ok (w_shared s) (producer_knows s) \<and>
     (\<forall>n < c. unwritten (w_shared s) n \<longrightarrow> versions s ! n = 0) \<and>
     (\<forall>n < c. popped g \<le> n \<longrightarrow> versions s ! n \<le> 1) \<and>
     (\<forall>j < length (sh_consumers (w_shared s)).
        entitled (versions s) (knows j s) (sh_consumers (w_shared s) ! j) (claims g ! j)) \<and>
     up_to_date ord (popped g) s"

lemma weak_okD:
  assumes "weak_ok c ord s g"
  shows "delivery_ok c (w_shared s) g" "sound s" "length (versions s) = c"
    "length (heads s) = Suc (popped g)" "length (tails s) = Suc (stored (w_shared s))"
    "n \<le> popped g \<Longrightarrow> m_value (heads s ! n) = word_of_nat n" "n \<le> popped g \<Longrightarrow> n \<le> k_tail (m_carries (heads s ! n))"
    "n \<le> stored (w_shared s) \<Longrightarrow> m_value (tails s ! n) = word_of_nat n"
    "n \<le> stored (w_shared s) \<Longrightarrow> k_tail (m_carries (tails s ! n)) = n"
    "k \<in> known_by s \<Longrightarrow> learned (popped g) (stored (w_shared s)) k"
    "producer_ok (w_shared s) (producer_knows s)"
    "n < c \<Longrightarrow> unwritten (w_shared s) n \<Longrightarrow> versions s ! n = 0"
    "n < c \<Longrightarrow> popped g \<le> n \<Longrightarrow> versions s ! n \<le> 1"
    "j < length (sh_consumers (w_shared s)) \<Longrightarrow>
      entitled (versions s) (knows j s) (sh_consumers (w_shared s) ! j) (claims g ! j)"
    "up_to_date ord (popped g) s"
  using assms by (simp_all add: weak_ok_def)

lemma learned_mono: "learned H T k \<Longrightarrow> H \<le> H' \<Longrightarrow> T \<le> T' \<Longrightarrow> learned H' T' k"
  by (auto simp: learned_def)

lemma learned_learn: "learned H T k \<Longrightarrow> learned H T l \<Longrightarrow> learned H T (learn k l)"
  by (auto simp: learned_def learn_def less_max_iff_disj intro: le_trans)

lemma learned_head: "learned H T k \<Longrightarrow> n \<le> H \<Longrightarrow> learned H T (k\<lparr>k_head := n\<rparr>)"
  by (simp add: learned_def)

lemma learn_tail: "k_tail (learn k l) = max (k_tail k) (k_tail l)"
  by (simp add: learn_def)

lemma knows_known: "sound s \<Longrightarrow> at (w_shared s) i = Some pc \<Longrightarrow> knows i s \<in> known_by s"
  by (simp add: sound_def known_by_def knows_def at_Some)

lemma message_known: "n < length (heads s) \<Longrightarrow> m_carries (heads s ! n) \<in> known_by s"
  "n < length (tails s) \<Longrightarrow> m_carries (tails s ! n) \<in> known_by s"
  by (auto simp: known_by_def)

text \<open>What a load brings.\<close>

lemma load_head_learned:
  assumes ok: "weak_ok c ord s g" and k: "k \<in> known_by s" and load: "load_head o' n (heads s) k = Some (v, k')"
  shows "n \<le> popped g" "v = word_of_nat n" "learned (popped g) (stored (w_shared s)) k'" "k_tail k \<le> k_tail k'"
    "k_head k' = n" "k_head k \<le> n" "o' = Acquire \<Longrightarrow> n \<le> k_tail k'"
proof -
  note w = weak_okD [OF ok] and l = load_head_slots [OF load]
  show n: "n \<le> popped g" using l w(4) by simp
  show "v = word_of_nat n" using l w(6) n by simp
  have "learned (popped g) (stored (w_shared s)) (m_carries (heads s ! n))"
    using l by (intro w(10) message_known) simp
  then show "learned (popped g) (stored (w_shared s)) k'"
    using l w(10) [OF k] n by (cases o') (metis learned_head learned_learn memory_order.case)+
  show "k_tail k \<le> k_tail k'" "k_head k' = n" "k_head k \<le> n" using l by (cases o'; simp add: learn_tail)+
  show "o' = Acquire \<Longrightarrow> n \<le> k_tail k'" using l w(7) [OF n] by (simp add: learn_tail le_max_iff_disj)
qed

lemma load_tail_learned:
  assumes ok: "weak_ok c ord s g" and k: "k \<in> known_by s" and load: "load_tail Acquire n (tails s) k = Some (v, k')"
  shows "n \<le> stored (w_shared s)" "v = word_of_nat n" "learned (popped g) (stored (w_shared s)) k'" "k_tail k \<le> n"
    "k_tail k' = n" "k_head k \<le> k_head k'"
proof -
  note w = weak_okD [OF ok] and l = load_tail_slots [OF load]
  show n: "n \<le> stored (w_shared s)" using l w(5) by simp
  show "v = word_of_nat n" "k_tail k \<le> n" "k_tail k' = n" "k_head k \<le> k_head k'" using l w(8) n by (auto simp: learn_def)
  have "learned (popped g) (stored (w_shared s)) (learn k (m_carries (tails s ! n)))"
    using l by (intro learned_learn w(10) k message_known) simp
  moreover have "k_tail (learn k (m_carries (tails s ! n))) = n" using l w(9) [OF n] by (simp add: learn_tail)
  then have "k' = learn k (m_carries (tails s ! n))" using l by (metis (no_types) knowledge.surjective knowledge.update_convs(2) knowledge.ext_inject memory_order.case(2) knowledge.select_convs(2))
  ultimately show "learned (popped g) (stored (w_shared s)) k'" by simp
qed

section \<open>Each access keeps it\<close>

lemma weak_okI:
  assumes "delivery_ok c (w_shared s) g" "sound s" "length (versions s) = c"
    "length (heads s) = Suc (popped g)" "length (tails s) = Suc (stored (w_shared s))"
    "\<And>n. n \<le> popped g \<Longrightarrow> m_value (heads s ! n) = word_of_nat n \<and> n \<le> k_tail (m_carries (heads s ! n))"
    "\<And>n. n \<le> stored (w_shared s) \<Longrightarrow> m_value (tails s ! n) = word_of_nat n \<and> k_tail (m_carries (tails s ! n)) = n"
    "\<And>k. k \<in> known_by s \<Longrightarrow> learned (popped g) (stored (w_shared s)) k"
    "producer_ok (w_shared s) (producer_knows s)"
    "\<And>n. n < c \<Longrightarrow> unwritten (w_shared s) n \<Longrightarrow> versions s ! n = 0"
    "\<And>n. n < c \<Longrightarrow> popped g \<le> n \<Longrightarrow> versions s ! n \<le> 1"
    "\<And>j. j < length (sh_consumers (w_shared s)) \<Longrightarrow>
      entitled (versions s) (knows j s) (sh_consumers (w_shared s) ! j) (claims g ! j)"
    "up_to_date ord (popped g) s"
  shows "weak_ok c ord s g"
  using assms by (simp add: weak_ok_def)

lemma small_index: "n < 100 \<Longrightarrow> unat (word_of_nat n :: u32) = n"
  by (simp add: unat_small)

lemma index_eq: "unat (i :: u32) = n \<Longrightarrow> n < 100 \<Longrightarrow> i = word_of_nat n"
  by (simp only: small_index unat_same [symmetric])

text \<open>The newest head and tail, while the ring has not gone round.\<close>

lemma newest:
  assumes "weak_ok c ord s g" and "length (started (w_shared s)) < c" and "c \<le> 100"
  shows "unat (q_head (sh_queue (w_shared s))) = popped g" "unat (q_tail (sh_queue (w_shared s))) = stored (w_shared s)"
    "q_tail (sh_queue (w_shared s)) = word_of_nat (stored (w_shared s))"
    "q_head (sh_queue (w_shared s)) = word_of_nat (popped g)"
    "popped g \<le> stored (w_shared s)" "stored (w_shared s) < c"
proof -
  note d = delivery_okD [OF weak_okD(1) [OF assms(1)]]
  show st: "stored (w_shared s) < c" using stored_le [of "w_shared s"] assms(2) by simp
  show p: "popped g \<le> stored (w_shared s)" by (rule d(3))
  show h: "unat (q_head (sh_queue (w_shared s))) = popped g"
    and t: "unat (q_tail (sh_queue (w_shared s))) = stored (w_shared s)" using d(5,6) st p by simp_all
  show "q_tail (sh_queue (w_shared s)) = word_of_nat (stored (w_shared s))" by (rule index_eq [OF t]) (use st assms(3) in simp)
  show "q_head (sh_queue (w_shared s)) = word_of_nat (popped g)" by (rule index_eq [OF h]) (use st p assms(3) in simp)
qed

text \<open>A consumer that only loads.\<close>

lemma moves_on_simps [simp]:
  "w_shared (moves_on i pc k s) = goto i pc (w_shared s)" "heads (moves_on i pc k s) = heads s"
  "tails (moves_on i pc k s) = tails s" "versions (moves_on i pc k s) = versions s"
  "producer_knows (moves_on i pc k s) = producer_knows s" "consumers_know (moves_on i pc k s) = (consumers_know s)[i := k]"
  by (simp_all add: moves_on_def)

lemma unwritten_goto [simp]: "unwritten (goto i pc sh) n = unwritten sh n"
  by (simp add: unwritten_def split: producer.split)

lemma producer_ok_goto [simp]: "producer_ok (goto i pc sh) k = producer_ok sh k"
  by (simp add: producer_ok_def)

lemma known_moves_on: "k' \<in> known_by (moves_on i pc k s) \<Longrightarrow> k' = k \<or> k' \<in> known_by s"
  by (auto simp: known_by_def dest!: set_update_subset_insert [THEN subsetD])

lemma weak_moves_on:
  assumes ok: "weak_ok c ord s g" and at: "at (w_shared s) i = Some old" and k: "learned (popped g) (stored (w_shared s)) k"
    and s': "sound (moves_on i pc k s)" and d: "delivery_ok c (goto i pc (w_shared s)) (g\<lparr>claims := (claims g)[i := cl]\<rparr>)"
    and e: "entitled (versions s) k pc cl"
    and u: "ord = Acquire \<or> k_head k = k_head (knows i s) \<and> k_tail (knows i s) \<le> k_tail k"
  shows "weak_ok c ord (moves_on i pc k s) (g\<lparr>claims := (claims g)[i := cl]\<rparr>)"
proof -
  note w = weak_okD [OF ok]
  have len: "length (consumers_know s) = length (sh_consumers (w_shared s))" "i < length (sh_consumers (w_shared s))"
    "length (claims g) = length (sh_consumers (w_shared s))"
    using at soundD(7) [OF w(2)] delivery_okD(2) [OF w(1)] by (simp_all add: at_Some)
  have kn: "knows j (moves_on i pc k s) = (if j = i then k else knows j s)" for j
    using len by (simp add: knows_def nth_list_update)
  show ?thesis
  proof (rule weak_okI)
    show "\<And>j. j < length (sh_consumers (w_shared (moves_on i pc k s))) \<Longrightarrow>
      entitled (versions (moves_on i pc k s)) (knows j (moves_on i pc k s))
        (sh_consumers (w_shared (moves_on i pc k s)) ! j) (claims (g\<lparr>claims := (claims g)[i := cl]\<rparr>) ! j)"
      subgoal for j using w(14) [of j] e len by (cases "j = i") (simp_all add: kn)
      done
    show "up_to_date ord (popped (g\<lparr>claims := (claims g)[i := cl]\<rparr>)) (moves_on i pc k s)"
      using w(15) u len by (auto simp: up_to_date_def kn)
    show "\<And>k'. k' \<in> known_by (moves_on i pc k s) \<Longrightarrow>
      learned (popped (g\<lparr>claims := (claims g)[i := cl]\<rparr>)) (stored (w_shared (moves_on i pc k s))) k'"
      using w(10) k by (auto dest: known_moves_on)
  qed (use w s' d in simp_all)
qed

lemma weak_load_head:
  assumes ok: "weak_ok c ord s g" and acc: "weak_step c ord moved (WLoadHead i n) s = Some (Returns s')"
    and few: "length (started (w_shared s)) < c" "c \<le> 100"
  shows "\<exists>g'. weak_ok c ord s' g'"
proof -
  note w = weak_okD [OF ok]
  from acc obtain h k where at: "at (w_shared s) i = Some CIdle" and load: "load_head ord n (heads s) (knows i s) = Some (h, k)"
    and s': "s' = moves_on i (CHead h) k s"
    by (auto split: option.splits consumer.splits)
  note l = load_head_learned [OF ok knows_known [OF w(2) at] load]
  note nw = newest [OF ok few]
  have one: "k_head (knows i s) = popped g \<and> popped g \<le> k_tail (knows i s)" if "ord \<noteq> Acquire"
  proof -
    have "i = 0" using w(15) that at soundD(7) [OF w(2)] by (simp add: up_to_date_def at_Some)
    with w(15) that show ?thesis by (simp add: up_to_date_def)
  qed
  have n: "n \<le> k_tail k" using l(1,4,7) one by (cases "ord = Acquire") (blast intro: le_trans)+
  have "unat h = n mod c" using l(1,2) nw(5,6) few(2) small_index [of n] by simp
  then have "delivery_ok c (goto i (CHead h) (w_shared s)) (g\<lparr>claims := (claims g)[i := Some n]\<rparr>)"
    by (intro consumer_moves [OF w(1) at]) (use few(1) l(1) in auto)
  from weak_moves_on [OF ok at l(3) _ this] show ?thesis
    using sound_step [OF acc w(2)] n one l(1,4,5,6) unfolding s' by fastforce
qed

lemma weak_compare_tail:
  assumes ok: "weak_ok c ord s g" and acc: "weak_step c ord moved (WCompareTail i n) s = Some (Returns s')"
    and few: "length (started (w_shared s)) < c" "c \<le> 100"
  shows "\<exists>g'. weak_ok c ord s' g'"
proof -
  note w = weak_okD [OF ok]
  from acc obtain h t k where at: "at (w_shared s) i = Some (CHead h)" and load: "load_tail Acquire n (tails s) (knows i s) = Some (t, k)"
    and s': "s' = moves_on i (if h = t then CIdle else CNonEmpty h) k s"
    by (auto split: option.splits consumer.splits)
  have ii: "i < length (sh_consumers (w_shared s))" "sh_consumers (w_shared s) ! i = CHead h" using at by (simp_all add: at_Some)
  note l = load_tail_learned [OF ok knows_known [OF w(2) at] load]
  note nw = newest [OF ok few]
  from delivery_okD(10) [OF w(1) ii(1)] ii(2) obtain m where
    m: "claims g ! i = Some m" "unat h = m mod c" "m \<le> popped g" by auto
  have mk: "m \<le> k_tail (knows i s)" using w(14) [OF ii(1)] ii(2) m(1) by simp
  have h: "h = word_of_nat m" by (rule index_eq) (use m nw few(2) in simp_all)
  have s1: "sound (moves_on i pc k s)" for pc
    using sound_moves_on [OF w(2) load_tail_bounded [OF w(2) at_knows [OF w(2) at] load]] .
  have kh: "k_head k = k_head (knows i s) \<and> k_tail (knows i s) \<le> k_tail k" if "ord \<noteq> Acquire"
  proof -
    have "i = 0" using w(15) that ii soundD(7) [OF w(2)] by (simp add: up_to_date_def)
    with w(15) that l(3,4,5,6) show ?thesis by (simp add: up_to_date_def learned_def)
  qed
  show ?thesis
  proof (cases "h = t")
    case True
    have "delivery_ok c (goto i CIdle (w_shared s)) (g\<lparr>claims := (claims g)[i := None]\<rparr>)"
      by (rule consumer_moves [OF w(1) at]) simp_all
    from weak_moves_on [OF ok at l(3) s1 this] kh True show ?thesis unfolding s' by fastforce
  next
    case False
    with h l(2,4) mk have mn: "m < n" by (metis le_neq_implies_less le_trans)
    with m l(1) few(1) nw have "delivery_ok c (goto i (CNonEmpty h) (w_shared s)) (g\<lparr>claims := (claims g)[i := Some m]\<rparr>)"
      by (intro consumer_moves [OF w(1) at]) auto
    from weak_moves_on [OF ok at l(3) s1 this] kh False mn l(5) show ?thesis unfolding s' by fastforce
  qed
qed

lemma weak_exchange_fails:
  assumes ok: "weak_ok c ord s g" and acc: "weak_step c ord moved (WExchangeFails i n) s = Some (Returns s')"
  shows "\<exists>g'. weak_ok c ord s' g'"
proof -
  note w = weak_okD [OF ok]
  from acc obtain h v k where at: "at (w_shared s) i = Some (CNonEmpty h)"
    and load: "load_head Relaxed n (heads s) (knows i s) = Some (v, k)" and s': "s' = moves_on i CIdle k s"
    by (auto split: option.splits consumer.splits)
  note l = load_head_learned [OF ok knows_known [OF w(2) at] load]
  have kh: "k_head k = k_head (knows i s) \<and> k_tail (knows i s) \<le> k_tail k" if "ord \<noteq> Acquire"
  proof -
    have "i = 0" using w(15) that at soundD(7) [OF w(2)] by (simp add: up_to_date_def at_Some)
    with w(15) that l(1,4,5,6) show ?thesis by (simp add: up_to_date_def)
  qed
  have "delivery_ok c (goto i CIdle (w_shared s)) (g\<lparr>claims := (claims g)[i := None]\<rparr>)"
    by (rule consumer_moves [OF w(1) at]) simp_all
  from weak_moves_on [OF ok at l(3) _ this] sound_step [OF acc w(2)] kh show ?thesis unfolding s' by fastforce
qed

lemma weak_exchange:
  assumes ok: "weak_ok c ord s g" and acc: "weak_step c ord moved (WExchange i) s = Some (Returns s')"
    and few: "length (started (w_shared s)) < c" "c \<le> 100"
  shows "\<exists>g'. weak_ok c ord s' g'"
proof -
  note w = weak_okD [OF ok] and nw = newest [OF ok few]
  from acc obtain h sh where at: "at (w_shared s) i = Some (CNonEmpty h)" and v: "m_value (last (heads s)) = h"
    and sh: "access c moved (Exchange i False) (w_shared s) = Some sh"
    and s': "s' = s\<lparr>w_shared := sh, consumers_know := (consumers_know s)[i := (knows i s)\<lparr>k_head := length (heads s)\<rparr>],
       heads := heads s @ [\<lparr>m_value = q_head (sh_queue sh),
         m_carries = learn ((knows i s)\<lparr>k_head := length (heads s)\<rparr>) (m_carries (last (heads s)))\<rparr>]\<rparr>"
    by (auto simp: Let_def simp del: access.simps split: option.splits consumer.splits if_splits)
  have ii: "i < length (sh_consumers (w_shared s))" "sh_consumers (w_shared s) ! i = CNonEmpty h" using at by (simp_all add: at_Some)
  have len: "length (consumers_know s) = length (sh_consumers (w_shared s))" by (rule soundD(7) [OF w(2)])
  have last: "last (heads s) = heads s ! popped g" using w(4) by (simp add: last_conv_nth soundD(5) [OF w(2)])
  from v have h: "h = q_head (sh_queue (w_shared s))" using last w(6) nw(4) by simp
  from sh at h obtain n where sh': "sh = goto i (CWon h) ((w_shared s)\<lparr>sh_queue := (sh_queue (w_shared s))\<lparr>q_head := n\<rparr>\<rparr>)"
    by (auto simp: Let_def split: outcome.splits)
  have won: "at sh i = Some (CWon h)" using ii by (simp add: sh' at_Some goto_def)
  let ?g = "g\<lparr>popped := Suc (popped g)\<rparr>"
  have d: "delivery_ok c sh ?g" using exchange_step [OF w(1) sh] won by simp
  have same: "stored sh = stored (w_shared s)" "sh_producer sh = sh_producer (w_shared s)"
    "sh_consumers sh = (sh_consumers (w_shared s))[i := CWon h]"
    by (simp_all add: sh' stored_def split: producer.split)
  from delivery_okD(10) [OF w(1) ii(1)] ii(2) obtain m where
    m: "claims g ! i = Some m" "unat h = m mod c" "m \<le> popped g" "m < stored (w_shared s)" by auto
  have mh: "m = popped g" using m h nw by simp
  have mk: "m < k_tail (knows i s)" using w(14) [OF ii(1)] ii(2) m(1) by simp
  have q: "unat (q_head (sh_queue sh)) = Suc (popped g)" using delivery_okD(5) [OF d] m(4) mh nw(6) by simp
  have qv: "q_head (sh_queue sh) = word_of_nat (Suc (popped g))"
    by (rule index_eq [OF q]) (use m(4) mh nw(6) few(2) in simp)
  have kn: "knows j s' = (if j = i then (knows i s)\<lparr>k_head := length (heads s)\<rparr> else knows j s)" for j
    using ii(1) len by (simp add: knows_def s' nth_list_update)
  let ?k = "(knows i s)\<lparr>k_head := length (heads s)\<rparr>"
  have lk: "learned (Suc (popped g)) (stored (w_shared s)) ?k"
    using w(10) [OF knows_known [OF w(2) at]] w(4) by (simp add: learned_def)
  have lm: "learned (Suc (popped g)) (stored (w_shared s)) k'" if "k' \<in> known_by s'" for k'
  proof -
    from that have "k' = ?k \<or> k' = learn ?k (m_carries (last (heads s))) \<or> k' \<in> known_by s"
      by (auto simp: s' known_by_def dest!: set_update_subset_insert [THEN subsetD])
    moreover have "m_carries (last (heads s)) \<in> known_by s" using last w(4) by (simp add: message_known)
    ultimately show ?thesis using lk w(10) by (blast intro: learned_learn learned_mono le_SucI)
  qed
  have "weak_ok c ord s' ?g"
  proof (rule weak_okI)
    show "\<And>n. n \<le> popped ?g \<Longrightarrow> m_value (heads s' ! n) = word_of_nat n \<and> n \<le> k_tail (m_carries (heads s' ! n))"
      subgoal for n using w(4,6,7) qv mk mh
        by (cases "n = Suc (popped g)") (simp_all add: s' nth_append learn_tail del: of_nat_Suc)
      done
    show "\<And>j. j < length (sh_consumers (w_shared s')) \<Longrightarrow>
      entitled (versions s') (knows j s') (sh_consumers (w_shared s') ! j) (claims ?g ! j)"
      subgoal for j
      proof (cases "j = i")
        case True
        then show ?thesis using w(13) [of m] mh nw(5,6) m mk ii(1) by (simp add: kn) (simp add: s' same)
      next
        case False
        then show "j < length (sh_consumers (w_shared s')) \<Longrightarrow> ?thesis" using w(14) [of j] by (simp add: kn) (simp add: s' same)
      qed
      done
    show "up_to_date ord (popped ?g) s'"
      using w(4,15) len ii(1) mk mh by (auto simp: up_to_date_def kn) (auto simp: s')
    show "\<And>k. k \<in> known_by s' \<Longrightarrow> learned (popped ?g) (stored (w_shared s')) k" using lm by (simp add: s' same)
    show "producer_ok (w_shared s') (producer_knows s')" using w(11) by (simp add: s' same producer_ok_def)
    have "unwritten sh n = unwritten (w_shared s) n" for n by (simp only: unwritten_def same)
    then show "\<And>n. n < c \<Longrightarrow> unwritten (w_shared s') n \<Longrightarrow> versions s' ! n = 0" using w(12) by (simp add: s')
    show "\<And>n. n < c \<Longrightarrow> popped ?g \<le> n \<Longrightarrow> versions s' ! n \<le> 1" using w(13) by (simp add: s')
    show "delivery_ok c (w_shared s') ?g" using d by (simp add: s')
  qed (use w same sound_step [OF acc w(2)] in \<open>simp_all add: s'\<close>)
  then show ?thesis by blast
qed

lemma weak_move_slot:
  assumes ok: "weak_ok c ord s g" and acc: "weak_step c ord moved (WMoveSlot i) s = Some (Returns s')"
    and few: "length (started (w_shared s)) < c" "c \<le> 100"
  shows "\<exists>g'. weak_ok c ord s' g'"
proof -
  note w = weak_okD [OF ok] and nw = newest [OF ok few]
  from acc obtain h sh where at: "at (w_shared s) i = Some (CWon h)" and r: "\<not> races s (knows i s) h"
    and sh: "access c moved (MoveSlot i) (w_shared s) = Some sh"
    and s': "s' = (touch h s)\<lparr>w_shared := sh, consumers_know := (consumers_know s)[i := touched h s (knows i s)]\<rparr>"
    by (auto simp del: access.simps split: option.splits consumer.splits if_splits)
  have ii: "i < length (sh_consumers (w_shared s))" "sh_consumers (w_shared s) ! i = CWon h" using at by (simp_all add: at_Some)
  have len: "length (consumers_know s) = length (sh_consumers (w_shared s))" "length (claims g) = length (sh_consumers (w_shared s))"
    by (rule soundD(7) [OF w(2)], rule delivery_okD(2) [OF w(1)])
  obtain m where m: "claims g ! i = Some m" "unat h = m mod c" "m < popped g" "m < length (started (w_shared s))"
    by (rule won_claim [OF w(1) ii])
  have hm: "unat h = m" using m nw(5,6) by simp
  from sh at obtain q x where sh': "sh = goto i (CTaken x) ((w_shared s)\<lparr>sh_queue := q\<rparr>)"
    by (auto simp: Let_def split: if_splits)
  have same: "stored sh = stored (w_shared s)" "sh_producer sh = sh_producer (w_shared s)"
    "sh_consumers sh = (sh_consumers (w_shared s))[i := CTaken x]"
    by (simp_all add: sh' stored_def split: producer.split)
  let ?g = "g\<lparr>claims := (claims g)[i := None]\<rparr>"
  have d: "delivery_ok c sh ?g" using move_slot_step [OF w(1) sh] by simp
  have kn: "knows j s' = (if j = i then touched h s (knows i s) else knows j s)" for j
    using ii(1) len by (simp add: knows_def s' touch_def nth_list_update)
  have vs: "versions s' ! n = versions s ! n" if "n \<noteq> m" for n using that hm by (simp add: s' touch_def)
  have lt: "learned H T (touched h s k)" if "learned H T k" for H T k using that by (simp add: learned_def touched_def)
  have "weak_ok c ord s' ?g"
  proof (rule weak_okI)
    show "\<And>j. j < length (sh_consumers (w_shared s')) \<Longrightarrow>
      entitled (versions s') (knows j s') (sh_consumers (w_shared s') ! j) (claims ?g ! j)"
      subgoal for j
      proof (cases "j = i")
        case True
        then show ?thesis using ii(1) len by (simp add: s' same)
      next
        case False
        show "j < length (sh_consumers (w_shared s')) \<Longrightarrow> ?thesis"
        proof -
          assume "j < length (sh_consumers (w_shared s'))"
          then have j: "j < length (sh_consumers (w_shared s))" by (simp add: s' same)
          have "m' \<noteq> m" if "sh_consumers (w_shared s) ! j = CWon h'" "claims g ! j = Some m'" for h' m'
            using delivery_okD(11) [OF w(1) j ii(1) that(1) ii(2)] that(2) m(1) False by auto
          then have "entitled (versions s') (knows j s) (sh_consumers (w_shared s) ! j) (claims g ! j)"
            using w(14) [OF j] vs by (cases "sh_consumers (w_shared s) ! j"; cases "claims g ! j") auto
          then show ?thesis using False by (simp add: kn) (simp add: s' same)
        qed
      qed
      done
    show "up_to_date ord (popped ?g) s'"
      using w(15) len ii(1) by (auto simp: up_to_date_def kn touched_def) (auto simp: s' touch_def)
    show "\<And>k. k \<in> known_by s' \<Longrightarrow> learned (popped ?g) (stored (w_shared s')) k"
    proof -
      fix k assume "k \<in> known_by s'"
      then have "k = touched h s (knows i s) \<or> k \<in> known_by s"
        by (auto simp: s' touch_def known_by_def dest!: set_update_subset_insert [THEN subsetD])
      then show "learned (popped ?g) (stored (w_shared s')) k"
        using w(10) lt knows_known [OF w(2) at] by (auto simp: s' same)
    qed
    show "producer_ok (w_shared s') (producer_knows s')" using w(11) by (simp add: s' touch_def same producer_ok_def)
    have "unwritten sh n = unwritten (w_shared s) n" for n by (simp only: unwritten_def same)
    moreover have "\<not> unwritten (w_shared s) m" using m(3) nw(5) by (simp add: unwritten_def split: producer.split)
    ultimately show "\<And>n. n < c \<Longrightarrow> unwritten (w_shared s') n \<Longrightarrow> versions s' ! n = 0" using w(12) vs by (simp add: s') metis
    show "\<And>n. n < c \<Longrightarrow> popped ?g \<le> n \<Longrightarrow> versions s' ! n \<le> 1" using w(13) vs m(3) by simp
    show "delivery_ok c (w_shared s') ?g" using d by (simp add: s')
  qed (use w same sound_step [OF acc w(2)] in \<open>simp_all add: s' touch_def\<close>)
  then show ?thesis by blast
qed

lemma weak_dec_size:
  assumes ok: "weak_ok c ord s g" and acc: "weak_step c ord moved (WDecSize i) s = Some (Returns s')"
  shows "\<exists>g'. weak_ok c ord s' g'"
proof -
  note w = weak_okD [OF ok]
  from acc obtain sh where sh: "access c moved (DecSize i) (w_shared s) = Some sh" and s': "s' = s\<lparr>w_shared := sh\<rparr>"
    by (auto simp del: access.simps split: option.splits)
  then obtain x q ds where at: "at (w_shared s) i = Some (CTaken x)"
    and sh': "sh = goto i CIdle ((w_shared s)\<lparr>sh_queue := q, delivered := ds\<rparr>)"
    by (auto simp: Let_def goto_def split: option.splits consumer.splits)
  have same: "stored sh = stored (w_shared s)" "sh_producer sh = sh_producer (w_shared s)"
    "sh_consumers sh = (sh_consumers (w_shared s))[i := CIdle]"
    by (simp_all add: sh' stored_def split: producer.split)
  have un: "unwritten sh n = unwritten (w_shared s) n" for n by (simp only: unwritten_def same)
  have d: "delivery_ok c sh g" using dec_size_step [OF w(1) sh] by simp
  have "weak_ok c ord s' g"
  proof (rule weak_okI)
    show "\<And>j. j < length (sh_consumers (w_shared s')) \<Longrightarrow>
      entitled (versions s') (knows j s') (sh_consumers (w_shared s') ! j) (claims g ! j)"
      subgoal for j using w(14) [of j] by (cases "j = i") (simp_all add: s' same knows_def)
      done
  qed (use d w same un sound_step [OF acc w(2)] in \<open>simp_all add: s' known_by_def up_to_date_def knows_def producer_ok_def\<close>)
  then show ?thesis by blast
qed

text \<open>The producer; a consumer's part of the invariant is about the slots it has claimed, which are behind the producer.\<close>

lemma weak_producer:
  assumes ok: "weak_ok c ord s g" and d: "delivery_ok c (w_shared s') g" and snd: "sound s'"
    and same: "sh_consumers (w_shared s') = sh_consumers (w_shared s)" "heads s' = heads s" "consumers_know s' = consumers_know s"
    and len: "length (versions s') = c" "length (tails s') = Suc (stored (w_shared s'))"
    and tails: "\<And>n. n \<le> stored (w_shared s') \<Longrightarrow> m_value (tails s' ! n) = word_of_nat n \<and> k_tail (m_carries (tails s' ! n)) = n"
    and known: "\<And>k. k \<in> known_by s' \<Longrightarrow> k \<in> known_by s \<or> learned (popped g) (stored (w_shared s')) k"
    and p: "producer_ok (w_shared s') (producer_knows s')" and st: "stored (w_shared s) \<le> stored (w_shared s')"
    and un: "\<And>n. n < c \<Longrightarrow> unwritten (w_shared s') n \<Longrightarrow> versions s' ! n = 0"
    and vs: "\<And>n. n < stored (w_shared s) \<Longrightarrow> versions s' ! n = versions s ! n" "\<And>n. n < c \<Longrightarrow> stored (w_shared s) \<le> n \<Longrightarrow> versions s' ! n \<le> 1"
  shows "weak_ok c ord s' g"
proof -
  note w = weak_okD [OF ok]
  have le: "popped g \<le> stored (w_shared s)" by (rule delivery_okD(3) [OF w(1)])
  show ?thesis
  proof (rule weak_okI)
    show "\<And>n. n < c \<Longrightarrow> popped g \<le> n \<Longrightarrow> versions s' ! n \<le> 1"
      subgoal for n using w(13) [of n] vs [of n] by (cases "n < stored (w_shared s)") auto
      done
    show "\<And>j. j < length (sh_consumers (w_shared s')) \<Longrightarrow>
      entitled (versions s') (knows j s') (sh_consumers (w_shared s') ! j) (claims g ! j)"
    proof -
      fix j assume "j < length (sh_consumers (w_shared s'))"
      then have j: "j < length (sh_consumers (w_shared s))" by (simp add: same)
      have "versions s' ! m = versions s ! m" if "sh_consumers (w_shared s) ! j = CWon h" "claims g ! j = Some m" for h m
        using delivery_okD(10) [OF w(1) j] that le by (intro vs(1)) auto
      then show "entitled (versions s') (knows j s') (sh_consumers (w_shared s') ! j) (claims g ! j)"
        using w(14) [OF j]
        by (cases "sh_consumers (w_shared s) ! j"; cases "claims g ! j") (auto simp: same knows_def)
    qed
    show "\<And>k. k \<in> known_by s' \<Longrightarrow> learned (popped g) (stored (w_shared s')) k"
      using known w(10) st learned_mono by blast
    show "up_to_date ord (popped g) s'" using w(15) by (simp add: up_to_date_def same knows_def)
  qed (use w same d snd len tails p un in simp_all)
qed

lemma weak_load_tail:
  assumes ok: "weak_ok c ord s g" and acc: "weak_step c ord moved (WLoadTail x n) s = Some (Returns s')"
    and few: "length (started (w_shared s')) < c" "c \<le> 100"
  shows "\<exists>g'. weak_ok c ord s' g'"
proof -
  note w = weak_okD [OF ok]
  from acc obtain t k where pc: "sh_producer (w_shared s) = PIdle"
    and load: "load_tail Acquire n (tails s) (producer_knows s) = Some (t, k)"
    and s': "s' = s\<lparr>w_shared := (w_shared s)\<lparr>sh_producer := PLoaded x t, started := started (w_shared s) @ [x]\<rparr>, producer_knows := k\<rparr>"
    by (auto split: producer.splits option.splits)
  have few': "length (started (w_shared s)) < c" using few(1) by (simp add: s')
  note nw = newest [OF ok few' few(2)]
  have "producer_knows s \<in> known_by s" by (simp add: known_by_def)
  note l = load_tail_learned [OF ok this load]
  have n: "n = stored (w_shared s)" using l(1,4) w(11) by (simp add: producer_ok_def)
  then have t: "t = q_tail (sh_queue (w_shared s))" using l(2) nw(3) by simp
  have sc: "access c moved (LoadTail x) (w_shared s) = Some (w_shared s')" using pc t by (simp add: s')
  have "unlapped c (w_shared s) g" using few(1) by (auto simp: unlapped_def list_all_iff s' split: option.split)
  from load_tail_step [OF w(1) sc this] have d: "delivery_ok c (w_shared s') g" by simp
  have st: "stored (w_shared s') = stored (w_shared s)" "unwritten (w_shared s') m = unwritten (w_shared s) m" for m
    by (simp_all add: s' pc stored_def unwritten_def)
  have "weak_ok c ord s' g"
  proof (rule weak_producer [OF ok d sound_step [OF acc w(2)]])
    show "\<And>k'. k' \<in> known_by s' \<Longrightarrow> k' \<in> known_by s \<or> learned (popped g) (stored (w_shared s')) k'"
      unfolding st using l(3) by (auto simp: s' known_by_def)
    show "producer_ok (w_shared s') (producer_knows s')" using l(5) n st by (simp add: producer_ok_def s')
    show "\<And>m. m < c \<Longrightarrow> unwritten (w_shared s') m \<Longrightarrow> versions s' ! m = 0" unfolding st using w(12) by (simp add: s')
    show "\<And>m. m < c \<Longrightarrow> stored (w_shared s) \<le> m \<Longrightarrow> versions s' ! m \<le> 1" using w(13) nw(5) by (simp add: s')
    show "\<And>m. m \<le> stored (w_shared s') \<Longrightarrow> m_value (tails s' ! m) = word_of_nat m \<and> k_tail (m_carries (tails s' ! m)) = m"
      unfolding st using w(8,9) by (simp add: s')
    show "length (tails s') = Suc (stored (w_shared s'))" unfolding st using w(5) by (simp add: s')
    show "stored (w_shared s) \<le> stored (w_shared s')" by (simp add: st)
  qed (use w(3) in \<open>simp_all add: s'\<close>)
  then show ?thesis by blast
qed

lemma weak_write_slot:
  assumes ok: "weak_ok c ord s g" and acc: "weak_step c ord moved WWriteSlot s = Some (Returns s')"
    and few: "length (started (w_shared s)) < c" "c \<le> 100"
  shows "\<exists>g'. weak_ok c ord s' g'"
proof -
  note w = weak_okD [OF ok] and nw = newest [OF ok few]
  from acc obtain x t sh where pc: "sh_producer (w_shared s) = PLoaded x t" and r: "\<not> races s (producer_knows s) t"
    and sh: "access c moved WriteSlot (w_shared s) = Some sh"
    and s': "s' = (touch t s)\<lparr>w_shared := sh, producer_knows := touched t s (producer_knows s)\<rparr>"
    by (auto simp del: access.simps split: producer.splits option.splits if_splits)
  from sh pc have sh': "sh_producer sh = PWritten t" "sh_consumers sh = sh_consumers (w_shared s)" "started sh = started (w_shared s)"
    by (auto simp: Let_def split: if_splits)
  have t: "unat t = stored (w_shared s)"
    using delivery_okD(8) [OF w(1)] pc few(1) by (simp add: stored_def)
  have st: "stored sh = stored (w_shared s)" by (simp add: stored_def sh' pc)
  have d: "delivery_ok c sh g" using write_slot_step [OF w(1) sh] by simp
  have vs: "versions s' = (versions s)[stored (w_shared s) := Suc (versions s ! stored (w_shared s))]"
    by (simp add: s' touch_def t)
  have z: "versions s ! stored (w_shared s) = 0" by (rule w(12) [OF nw(6)]) (simp add: unwritten_def pc)
  have "weak_ok c ord s' g"
  proof (rule weak_producer [OF ok])
    show "\<And>k. k \<in> known_by s' \<Longrightarrow> k \<in> known_by s \<or> learned (popped g) (stored (w_shared s')) k"
    proof -
      fix k assume "k \<in> known_by s'"
      then have "k = touched t s (producer_knows s) \<or> k \<in> known_by s" by (auto simp: s' touch_def known_by_def)
      moreover have "learned (popped g) (stored (w_shared s)) (producer_knows s)" by (rule w(10)) (simp add: known_by_def)
      ultimately show "k \<in> known_by s \<or> learned (popped g) (stored (w_shared s')) k"
        by (auto simp: s' st learned_def touched_def)
    qed
    show "producer_ok (w_shared s') (producer_knows s')"
      using w(11) by (simp add: producer_ok_def s' st t touched_def)
    show "\<And>m. m < c \<Longrightarrow> unwritten (w_shared s') m \<Longrightarrow> versions s' ! m = 0"
    proof -
      fix m assume m: "m < c" "unwritten (w_shared s') m"
      then have "stored (w_shared s) < m" by (simp add: unwritten_def s' sh' st)
      moreover from this have "unwritten (w_shared s) m" by (simp add: unwritten_def pc)
      ultimately show "versions s' ! m = 0" using w(12) m(1) by (simp add: vs)
    qed
    show "\<And>m. m < c \<Longrightarrow> stored (w_shared s) \<le> m \<Longrightarrow> versions s' ! m \<le> 1"
      subgoal for m using w(3) w(13) [of m] nw(5) z by (cases "m = stored (w_shared s)") (simp_all add: vs)
      done
  qed (use d w(3,5,8,9) sound_step [OF acc w(2)] st sh' in \<open>simp_all add: s' touch_def t\<close>)
  then show ?thesis by blast
qed

lemma weak_store_tail:
  assumes ok: "weak_ok c ord s g" and acc: "weak_step c ord moved WStoreTail s = Some (Returns s')"
    and few: "length (started (w_shared s)) < c" "c \<le> 100"
  shows "\<exists>g'. weak_ok c ord s' g'"
proof -
  note w = weak_okD [OF ok] and nw = newest [OF ok few]
  let ?k = "(producer_knows s)\<lparr>k_tail := length (tails s)\<rparr>"
  from acc obtain sh where sh: "access c moved StoreTail (w_shared s) = Some sh"
    and s': "s' = s\<lparr>w_shared := sh, producer_knows := ?k, tails := tails s @ [\<lparr>m_value = q_tail (sh_queue sh), m_carries = ?k\<rparr>]\<rparr>"
    by (auto simp: Let_def simp del: access.simps split: option.splits)
  from sh obtain t where pc: "sh_producer (w_shared s) = PWritten t" and
    sh': "sh_producer sh = PStored" "sh_consumers sh = sh_consumers (w_shared s)" "started sh = started (w_shared s)"
    by (auto simp: Let_def split: producer.splits outcome.splits)
  have ne: "started (w_shared s) \<noteq> []" using delivery_okD(8) [OF w(1)] pc by simp
  then have st: "stored sh = Suc (stored (w_shared s))" by (cases "started (w_shared s)" rule: rev_cases) (simp_all add: stored_def sh' pc)
  have d: "delivery_ok c sh g" using store_tail_step [OF w(1) sh] by simp
  have few'': "stored sh < c" using stored_le [of sh] few(1) sh'(3) by simp
  have q: "unat (q_tail (sh_queue sh)) = Suc (stored (w_shared s))"
    using delivery_okD(6) [OF d] few'' st by simp
  have qv: "q_tail (sh_queue sh) = word_of_nat (Suc (stored (w_shared s)))"
    by (rule index_eq [OF q]) (use few'' st few(2) in simp)
  have lk: "learned (popped g) (stored sh) ?k"
  proof -
    have "learned (popped g) (stored (w_shared s)) (producer_knows s)" by (rule w(10)) (simp add: known_by_def)
    with w(5,11) pc st show ?thesis by (auto simp: learned_def producer_ok_def less_Suc_eq)
  qed
  have "weak_ok c ord s' g"
  proof (rule weak_producer [OF ok])
    show "\<And>n. n \<le> stored (w_shared s') \<Longrightarrow> m_value (tails s' ! n) = word_of_nat n \<and> k_tail (m_carries (tails s' ! n)) = n"
      subgoal for n using w(5,8,9) qv st by (cases "n = Suc (stored (w_shared s))") (simp_all add: s' nth_append del: of_nat_Suc)
      done
    show "\<And>k. k \<in> known_by s' \<Longrightarrow> k \<in> known_by s \<or> learned (popped g) (stored (w_shared s')) k"
      using lk by (auto simp: s' known_by_def)
    show "\<And>n. n < c \<Longrightarrow> unwritten (w_shared s') n \<Longrightarrow> versions s' ! n = 0"
      using w(12) by (simp add: s' unwritten_def sh' st pc Suc_le_eq)
    show "\<And>n. n < c \<Longrightarrow> stored (w_shared s) \<le> n \<Longrightarrow> versions s' ! n \<le> 1" using w(13) nw(5) by (simp add: s')
  qed (use d w(3,5) sound_step [OF acc w(2)] st sh' in \<open>simp_all add: s' producer_ok_def\<close>)
  then show ?thesis by blast
qed

lemma weak_inc_size:
  assumes ok: "weak_ok c ord s g" and acc: "weak_step c ord moved WIncSize s = Some (Returns s')"
    and few: "length (started (w_shared s)) < c" "c \<le> 100"
  shows "\<exists>g'. weak_ok c ord s' g'"
proof -
  note w = weak_okD [OF ok] and nw = newest [OF ok few]
  from acc obtain sh where sh: "access c moved IncSize (w_shared s) = Some sh" and s': "s' = s\<lparr>w_shared := sh\<rparr>"
    by (auto simp del: access.simps split: option.splits)
  from sh have pc: "sh_producer (w_shared s) = PStored" and
    sh': "sh_producer sh = PIdle" "sh_consumers sh = sh_consumers (w_shared s)" "started sh = started (w_shared s)"
    by (auto simp: Let_def split: producer.splits)
  have st: "stored sh = stored (w_shared s)" by (simp add: stored_def sh' pc)
  have d: "delivery_ok c sh g" using inc_size_step [OF w(1) sh] by simp
  have "weak_ok c ord s' g"
    by (rule weak_producer [OF ok])
      (use d w(3,5,8,9,11,12,13) sound_step [OF acc w(2)] st sh' pc nw(5) in
        \<open>simp_all add: s' producer_ok_def known_by_def unwritten_def\<close>)
  then show ?thesis by blast
qed

section \<open>What is delivered\<close>

lemma weak_started:
  "weak_step c ord moved a s = Some (Returns s') \<Longrightarrow> \<exists>xs. started (w_shared s') = started (w_shared s) @ xs"
  by (cases a) (auto simp: moves_on_def touch_def Let_def simp del: access.simps
      dest: access_started split: producer.splits option.splits consumer.splits if_splits)

lemma new_shared_facts:
  "stored (new_shared c workers d) = 0" "popped (new_history workers) = 0"
  "sh_producer (new_shared c workers d) = PIdle" "sh_consumers (new_shared c workers d) = replicate workers CIdle"
  by (simp_all add: new_shared_def new_history_def stored_def)

lemma weak_ok_new:
  assumes "0 < c" and "c \<le> 100" and "ord = Acquire \<or> workers = 1"
  shows "weak_ok c ord (new_weak c workers d) (new_history workers)"
  by (rule weak_okI)
    (use assms delivery_ok_new [OF assms(1,2), of workers d] sound_new [of c workers d] in
      \<open>auto simp: new_weak_def known_by_def learned_def producer_ok_def up_to_date_def nothing_known_def knows_def
        new_shared_facts\<close>)

lemma weak_ok_step:
  assumes ok: "weak_ok c ord s g" and acc: "weak_step c ord moved a s = Some (Returns s')"
    and few: "length (started (w_shared s')) < c" "c \<le> 100"
  shows "\<exists>g'. weak_ok c ord s' g'"
proof -
  from few(1) weak_started [OF acc] have few': "length (started (w_shared s)) < c" by auto
  note rules = weak_load_tail [OF ok _ few] weak_write_slot [OF ok _ few' few(2)] weak_store_tail [OF ok _ few' few(2)]
    weak_inc_size [OF ok _ few' few(2)] weak_load_head [OF ok _ few' few(2)] weak_compare_tail [OF ok _ few' few(2)]
    weak_exchange [OF ok _ few' few(2)] weak_exchange_fails [OF ok] weak_move_slot [OF ok _ few' few(2)] weak_dec_size [OF ok]
  show ?thesis using acc by (cases a; hypsubst; elim rules)
qed

lemma weak_run_ok:
  assumes "weak_steps c ord moved (new_weak c workers d) s" and "length (started (w_shared s)) < c"
    and "0 < c" and "c \<le> 100" and "ord = Acquire \<or> workers = 1"
  shows "\<exists>g. weak_ok c ord s g"
  using assms(1,2)
proof (induction rule: weak_steps.induct)
  case refl
  show ?case by (rule exI, rule weak_ok_new [OF assms(3-5)])
next
  case (step s' a s'')
  then have few: "length (started (w_shared s')) < c" using weak_started [OF step.hyps(2)] by auto
  with step.IH obtain g where g: "weak_ok c ord s' g" by blast
  from weak_ok_step [OF g step.hyps(2) step.prems assms(4)] show ?case .
qed

lemma in_flight_idle: "set pcs \<subseteq> {CIdle} \<Longrightarrow> in_flight vals pcs = {#}"
  by (induction pcs) (auto simp: in_flight_def)

text \<open>No access of such a run is undefined.\<close>

lemma no_race:
  assumes ok: "weak_ok c ord s g" and few: "length (started (w_shared s)) < c" "c \<le> 100"
  shows "weak_step c ord moved a s \<noteq> Some Undefined"
proof -
  note w = weak_okD [OF ok] and nw = newest [OF ok few]
  have p: "\<not> races s (producer_knows s) t" if "sh_producer (w_shared s) = PLoaded x t" for x t
  proof -
    have t: "unat t = stored (w_shared s)" using delivery_okD(8) [OF w(1)] that few(1) by (simp add: stored_def)
    moreover have "versions s ! stored (w_shared s) = 0" by (rule w(12) [OF nw(6)]) (simp add: unwritten_def that)
    moreover from this have "k_slots (producer_knows s) (stored (w_shared s)) \<le> 0"
      using soundD(1) [OF w(2)] w(3) nw(6) by (metis bounded_def version_def)
    ultimately show ?thesis using w(3) nw(6) by (simp add: races_def)
  qed
  have q: "\<not> races s (knows i s) h" if "at (w_shared s) i = Some (CWon h)" for i h
  proof -
    have ii: "i < length (sh_consumers (w_shared s))" "sh_consumers (w_shared s) ! i = CWon h" using that by (simp_all add: at_Some)
    obtain m where m: "claims g ! i = Some m" "unat h = m mod c" "m < popped g" by (rule won_claim [OF w(1) ii])
    have hm: "unat h = m" "m < c" using m nw(5,6) by simp_all
    from w(14) [OF ii(1)] ii(2) m(1) have e: "m < k_tail (knows i s)" "versions s ! m \<le> 1" by simp_all
    have "1 \<le> k_slots (knows i s) m" using w(10) [OF knows_known [OF w(2) that]] e(1) by (simp add: learned_def)
    moreover have "k_slots (knows i s) m \<le> versions s ! m"
      using at_knows [OF w(2) that] w(3) hm(2) by (metis bounded_def version_def)
    ultimately show ?thesis using e(2) hm w(3) by (simp add: races_def)
  qed
  show ?thesis
    by (cases a) (use p q in \<open>auto simp: Let_def simp del: access.simps split: producer.splits option.splits consumer.splits if_splits\<close>)
qed

section \<open>The order, with one worker\<close>

fun carried_elem :: "'t list \<Rightarrow> 't consumer \<Rightarrow> 't list" where
  "carried_elem vals (CWon h) = [vals ! unat h]"
| "carried_elem vals (CTaken x) = [x]"
| "carried_elem vals _ = []"

definition in_order :: "'t shared \<Rightarrow> bool" where
  "in_order sh \<longleftrightarrow>
     (\<exists>pc. sh_consumers sh = [pc] \<and> delivered sh @ carried_elem (started sh) pc = take (unat (q_head (sh_queue sh))) (started sh))"

lemma at_one: "sh_consumers sh = [pc] \<Longrightarrow> at sh i = Some pc' \<longleftrightarrow> i = 0 \<and> pc' = pc"
  by (auto simp: at_def)

lemma in_order_step:
  assumes ok: "weak_ok c ord s g" and acc: "weak_step c ord moved a s = Some (Returns s')" and ok': "weak_ok c ord s' g'"
    and few: "length (started (w_shared s')) < c" "c \<le> 100" and ord: "in_order (w_shared s)"
  shows "in_order (w_shared s')"
proof -
  from ord obtain pc where pc: "sh_consumers (w_shared s) = [pc]"
    and del: "delivered (w_shared s) @ carried_elem (started (w_shared s)) pc =
      take (unat (q_head (sh_queue (w_shared s)))) (started (w_shared s))"
    by (auto simp: in_order_def)
  from few(1) weak_started [OF acc] have few': "length (started (w_shared s)) < c" by auto
  note w = weak_okD [OF ok] and nw = newest [OF ok few' few(2)] and nw' = newest [OF ok' few]
  have len: "popped g \<le> length (started (w_shared s))" using nw(5) stored_le [of "w_shared s"] by simp
  show ?thesis
  proof (cases a)
    case (WLoadTail x n)
    with acc have s': "sh_consumers (w_shared s') = [pc]" "delivered (w_shared s') = delivered (w_shared s)"
      "sh_queue (w_shared s') = sh_queue (w_shared s)" "started (w_shared s') = started (w_shared s) @ [x]"
      by (auto simp: pc split: producer.splits option.splits)
    have "carried_elem (started (w_shared s) @ [x]) pc = carried_elem (started (w_shared s)) pc"
    proof (cases pc)
      case (CWon h)
      obtain m where "unat h = m mod c" "m < length (started (w_shared s))"
        by (rule won_claim [OF w(1), of 0 h]) (simp_all add: pc CWon)
      with few' CWon show ?thesis by (simp add: nth_append)
    qed simp_all
    with del s' nw(1) len show ?thesis by (simp add: in_order_def)
  next
    case (WExchange i)
    with acc obtain h sh where at: "at (w_shared s) i = Some (CNonEmpty h)" and v: "m_value (last (heads s)) = h"
      and sh: "access c moved (Exchange i False) (w_shared s) = Some sh" and s': "w_shared s' = sh"
      by (auto simp: Let_def simp del: access.simps split: option.splits consumer.splits if_splits)
    have h: "unat h = popped g"
    proof -
      have "last (heads s) = heads s ! popped g" using w(4) by (simp add: last_conv_nth soundD(5) [OF w(2)])
      with v w(6) nw(4) have "h = q_head (sh_queue (w_shared s))" by simp
      with nw(1) show ?thesis by simp
    qed
    from at pc have i: "i = 0" "pc = CNonEmpty h" by (simp_all add: at_one)
    from delivery_okD(10) [OF w(1), of 0] pc i obtain m where m: "unat h = m mod c" "m < stored (w_shared s)" by auto
    have q: "q_head (sh_queue (w_shared s)) = h" using h nw(1) by (simp only: unat_same [symmetric])
    from sh at q obtain n where sh': "sh_consumers sh = [CWon h]" "delivered sh = delivered (w_shared s)"
      "started sh = started (w_shared s)" "next_index c (sh_queue (w_shared s)) h = Returns n" "q_head (sh_queue sh) = n"
      by (auto simp: Let_def goto_def pc i split: outcome.splits)
    have "popped g < stored (w_shared s)" using m h nw(6) by simp
    moreover from this have "unat n = Suc (popped g)"
      using next_index_ring [OF delivery_okD(1) [OF w(1)], of h] h sh'(4) nw(6) by auto
    ultimately show ?thesis
      using del sh' h nw(1) i stored_le [of "w_shared s"] by (simp add: in_order_def s' take_Suc_conv_app_nth)
  next
    case (WMoveSlot i)
    with acc obtain h sh where at: "at (w_shared s) i = Some (CWon h)"
      and sh: "access c moved (MoveSlot i) (w_shared s) = Some sh" and s': "w_shared s' = sh"
      by (auto simp del: access.simps split: option.splits consumer.splits if_splits)
    from at pc have i: "i = 0" "pc = CWon h" by (simp_all add: at_one)
    obtain m where m: "unat h = m mod c" "m < length (started (w_shared s))"
        "q_arr (sh_queue (w_shared s)) ! unat h = started (w_shared s) ! m"
      by (rule won_claim [OF w(1), of 0 h]) (simp_all add: pc i)
    with few' have "q_arr (sh_queue (w_shared s)) ! unat h = started (w_shared s) ! unat h" by simp
    with sh at del show ?thesis by (auto simp: in_order_def s' goto_def pc i Let_def split: if_splits)
  next
    case (WDecSize i)
    with acc obtain x where "at (w_shared s) i = Some (CTaken x)" "sh_consumers (w_shared s') = (sh_consumers (w_shared s))[i := CIdle]"
      "delivered (w_shared s') = delivered (w_shared s) @ [x]" "started (w_shared s') = started (w_shared s)"
      "q_head (sh_queue (w_shared s')) = q_head (sh_queue (w_shared s))"
      by (auto simp: Let_def goto_def split: option.splits consumer.splits)
    with del pc show ?thesis by (auto simp: in_order_def at_one)
  qed (use acc del pc in \<open>auto simp: in_order_def at_one moves_on_def goto_def Let_def touch_def
      split: producer.splits option.splits consumer.splits outcome.splits if_splits\<close>)
qed

lemma one_worker_in_order:
  assumes "weak_steps c ord moved (new_weak c 1 d) s" and "length (started (w_shared s)) < c" and "0 < c" and "c \<le> 100"
  shows "in_order (w_shared s)"
  using assms(1,2)
proof (induction rule: weak_steps.induct)
  case refl
  show ?case by (simp add: in_order_def new_weak_def new_shared_def new_queue_def)
next
  case (step s' a s'')
  then have few: "length (started (w_shared s')) < c" using weak_started [OF step.hyps(2)] by auto
  obtain g where g: "weak_ok c ord s' g" using weak_run_ok [OF step.hyps(1) few assms(3,4)] by blast
  obtain g' where "weak_ok c ord s'' g'"
    using weak_run_ok [OF weak_steps.step [OF step.hyps] step.prems assms(3,4)] by blast
  from in_order_step [OF g step.hyps(2) this step.prems assms(4) step.IH [OF few]] show ?case .
qed

text \<open>
  C11. The orders are enough for one worker, or would be with an acquire.  In every execution that the memory
  model allows, old messages and exchanges that fail for no reason included, in which fewer elements than slots
  have been pushed in all, and in which either a single consumer works or the head is loaded with acquire
  (the code has relaxed), no access is undefined, the delivered elements together with those claimed and
  not yet delivered are the first pushed ones, as many as the head says, each once, and when no operation is
  under way and the newest head and tail agree, exactly what was pushed has been delivered; a single worker
  delivers in the order of the pushes.
\<close>

theorem weak_delivery:
  assumes "weak_steps c ord moved (new_weak c workers d) s" and "0 < c" and "c \<le> 100"
    and "length (started (w_shared s)) < c" and "ord = Acquire \<or> workers = 1"
  shows "weak_step c ord moved a s \<noteq> Some Undefined \<and>
    mset (delivered (w_shared s)) + in_flight (started (w_shared s)) (sh_consumers (w_shared s)) =
      mset (take (unat (q_head (sh_queue (w_shared s)))) (started (w_shared s))) \<and>
    unat (q_head (sh_queue (w_shared s))) \<le> unat (q_tail (sh_queue (w_shared s))) \<and>
    (set (sh_consumers (w_shared s)) \<subseteq> {CIdle} \<and> sh_producer (w_shared s) = PIdle \<and> empty (sh_queue (w_shared s)) \<longrightarrow>
      mset (delivered (w_shared s)) = mset (started (w_shared s))) \<and>
    (workers = 1 \<longrightarrow> (\<exists>rest. started (w_shared s) = delivered (w_shared s) @ rest))"
proof -
  have "\<exists>rest. started (w_shared s) = delivered (w_shared s) @ rest" if "workers = 1"
  proof -
    from one_worker_in_order [OF _ assms(4,2,3)] assms(1) that have "in_order (w_shared s)" by simp
    then obtain pc where "delivered (w_shared s) @ carried_elem (started (w_shared s)) pc =
        take (unat (q_head (sh_queue (w_shared s)))) (started (w_shared s))"
      by (auto simp: in_order_def)
    then show ?thesis by (metis append.assoc append_take_drop_id)
  qed
  note order = this
  from weak_run_ok [OF assms(1,4,2,3,5)] obtain g where g: "weak_ok c ord s g" by blast
  note nw = newest [OF g assms(4,3)] and ok = weak_okD(1) [OF g]
  have account: "mset (delivered (w_shared s)) + in_flight (started (w_shared s)) (sh_consumers (w_shared s)) =
      mset (take (popped g) (started (w_shared s)))"
    using delivery_okD(12) [OF ok] under_way_in_flight [OF ok assms(4)] by simp
  have "in_flight (started (w_shared s)) (sh_consumers (w_shared s)) = {#}" if "set (sh_consumers (w_shared s)) \<subseteq> {CIdle}"
    by (rule in_flight_idle [OF that])
  moreover have "popped g = length (started (w_shared s))"
    if "sh_producer (w_shared s) = PIdle" "empty (sh_queue (w_shared s))"
  proof -
    from that(2) nw(1,2) have "popped g = stored (w_shared s)" by (simp add: empty_def)
    with that(1) show ?thesis by (simp add: stored_def)
  qed
  ultimately show ?thesis using account nw(1,2,5) no_race [OF g assms(4,3)] order by auto
qed

text \<open>One worker that reads an old tail first and whose exchange fails once.\<close>

theorem weak_delivery_witness:
  "\<exists>s. weak_steps 3 Relaxed (\<lambda>_. '''') (new_weak 3 1 '''') s \<and>
     started (w_shared s) = [''a'', ''b''] \<and> mset (delivered (w_shared s)) = mset (started (w_shared s))"
proof -
  let ?run = "push_weakly ''a'' 0 @ [WLoadHead 0 0, WCompareTail 0 0] @ pop_weakly 0 0 1 @ push_weakly ''b'' 1 @
    [WLoadHead 0 1, WCompareTail 0 2, WExchangeFails 0 1] @ pop_weakly 0 1 2"
  have "\<exists>s. weak_schedule 3 Relaxed (\<lambda>_. '''') ?run (new_weak 3 1 '''') = Some (Returns s) \<and>
      started (w_shared s) = [''a'', ''b''] \<and> sh_consumers (w_shared s) = [CIdle] \<and> sh_producer (w_shared s) = PIdle \<and>
      q_head (sh_queue (w_shared s)) = q_tail (sh_queue (w_shared s))"
    by (simp add: queue_eval Let_def)
  then obtain s where run: "weak_schedule 3 Relaxed (\<lambda>_. '''') ?run (new_weak 3 1 '''') = Some (Returns s)"
    and s: "started (w_shared s) = [''a'', ''b'']" "sh_consumers (w_shared s) = [CIdle]" "sh_producer (w_shared s) = PIdle"
      "q_head (sh_queue (w_shared s)) = q_tail (sh_queue (w_shared s))" by blast
  note steps = weak_schedule_steps [OF weak_steps.refl run]
  from weak_delivery [OF steps] s have "mset (delivered (w_shared s)) = mset (started (w_shared s))"
    by (simp add: empty_def)
  with steps s(1) show ?thesis by blast
qed

end
