(* ===== verification/QueueSequential.thy ===== *)
theory QueueSequential
  imports QueueWeak
begin

text \<open>
  How the queue under the memory model (\<open>QueueWeak\<close>) and the queue under sequential consistency
  (\<open>QueueConcurrent\<close>) hang together: the latter is the former with loads of the newest messages, as long as
  no access races.
\<close>

section \<open>Sequentially consistent executions\<close>

text \<open>The newest messages have the newest values, and no one knows of later ones.\<close>

definition current :: "'t weak \<Rightarrow> bool" where
  "current s \<longleftrightarrow> heads s \<noteq> [] \<and> tails s \<noteq> [] \<and>
     m_value (last (heads s)) = q_head (sh_queue (w_shared s)) \<and>
     m_value (last (tails s)) = q_tail (sh_queue (w_shared s)) \<and>
     length (consumers_know s) = length (sh_consumers (w_shared s)) \<and>
     (\<forall>k \<in> known_by s. k_head k < length (heads s) \<and> k_tail k < length (tails s))"

text \<open>The access with a load of the newest message.\<close>

fun newest_access :: "'t weak \<Rightarrow> 't mem_access \<Rightarrow> 't weak_access" where
  "newest_access s (LoadTail x) = WLoadTail x (length (tails s) - 1)"
| "newest_access s WriteSlot = WWriteSlot"
| "newest_access s StoreTail = WStoreTail"
| "newest_access s IncSize = WIncSize"
| "newest_access s (LoadHead i) = WLoadHead i (length (heads s) - 1)"
| "newest_access s (CompareTail i) = WCompareTail i (length (tails s) - 1)"
| "newest_access s (Exchange i spurious) =
     (if spurious \<or> at (w_shared s) i \<noteq> Some (CNonEmpty (q_head (sh_queue (w_shared s))))
      then WExchangeFails i (length (heads s) - 1) else WExchange i)"
| "newest_access s (MoveSlot i) = WMoveSlot i"
| "newest_access s (DecSize i) = WDecSize i"

fun newest_schedule ::
  "nat \<Rightarrow> memory_order \<Rightarrow> ('t \<Rightarrow> 't) \<Rightarrow> 't mem_access list \<Rightarrow> 't weak \<Rightarrow> 't weak outcome option" where
  "newest_schedule c ord moved [] s = Some (Returns s)"
| "newest_schedule c ord moved (a # as) s =
     (case weak_step c ord moved (newest_access s a) s of
        Some (Returns s') \<Rightarrow> newest_schedule c ord moved as s'
      | r \<Rightarrow> r)"

lemma current_new: "current (new_weak c workers d)"
  by (auto simp: current_def new_weak_def new_shared_def new_queue_def known_by_def nothing_known_def)

lemma learn_below:
  "k_head k < n \<Longrightarrow> k_head l < n \<Longrightarrow> k_head (learn k l) < n" "k_tail k < n \<Longrightarrow> k_tail l < n \<Longrightarrow> k_tail (learn k l) < n"
  by (simp_all add: learn_def)

lemma newest_step:
  assumes cur: "current s" and acc: "access c moved a (w_shared s) = Some sh"
  shows "weak_step c ord moved (newest_access s a) s = Some Undefined \<or>
    (\<exists>s'. weak_step c ord moved (newest_access s a) s = Some (Returns s') \<and> w_shared s' = sh)"
proof -
  from cur have ne: "heads s \<noteq> []" "tails s \<noteq> []"
    and v: "m_value (heads s ! (length (heads s) - 1)) = q_head (sh_queue (w_shared s))"
      "m_value (tails s ! (length (tails s) - 1)) = q_tail (sh_queue (w_shared s))"
      "m_value (last (heads s)) = q_head (sh_queue (w_shared s))"
    by (auto simp: current_def simp flip: last_conv_nth One_nat_def)
  have p: "k_tail (producer_knows s) \<le> length (tails s) - 1"
    using cur by (auto simp: current_def known_by_def)
  have k: "k_head (knows i s) \<le> length (heads s) - 1" "k_tail (knows i s) \<le> length (tails s) - 1"
    if "at (w_shared s) i = Some pc" for i pc
  proof -
    have "knows i s \<in> known_by s" using that cur by (simp add: current_def known_by_def knows_def at_Some)
    with cur have "k_head (knows i s) < length (heads s)" "k_tail (knows i s) < length (tails s)" by (auto simp: current_def)
    then show "k_head (knows i s) \<le> length (heads s) - 1" "k_tail (knows i s) \<le> length (tails s) - 1" by simp_all
  qed
  show ?thesis
  proof (cases a)
    case (LoadTail x)
    with acc p ne v show ?thesis by (auto simp: load_tail_def split: producer.splits)
  next
    case WriteSlot
    with acc show ?thesis by (auto simp: Let_def touch_def split: producer.splits if_splits)
  next
    case StoreTail
    with acc show ?thesis by (simp add: Let_def del: access.simps)
  next
    case IncSize
    with acc show ?thesis by (simp del: access.simps)
  next
    case (LoadHead i)
    with acc k [of i] ne v show ?thesis
      by (auto simp: load_head_def moves_on_def split: option.splits consumer.splits)
  next
    case (CompareTail i)
    with acc k [of i] ne v show ?thesis
      by (auto simp: load_tail_def moves_on_def split: option.splits consumer.splits)
  next
    case (Exchange i spurious)
    with acc obtain h where at: "at (w_shared s) i = Some (CNonEmpty h)"
      by (auto simp: Let_def split: option.splits consumer.splits)
    show ?thesis
    proof (cases "spurious \<or> h \<noteq> q_head (sh_queue (w_shared s))")
      case True
      with Exchange acc at have "sh = goto i CIdle (w_shared s)" by (auto simp: Let_def)
      with Exchange True at k [OF at] ne show ?thesis by (auto simp: load_head_def moves_on_def)
    next
      case False
      then have "spurious = False" "h = q_head (sh_queue (w_shared s))" by simp_all
      with Exchange acc at v(3) show ?thesis by (simp add: Let_def del: access.simps)
    qed
  next
    case (MoveSlot i)
    then obtain h where at: "at (w_shared s) i = Some (CWon h)"
      using acc by (auto simp: Let_def split: option.splits consumer.splits)
    with MoveSlot acc show ?thesis by (simp add: touch_def del: access.simps)
  next
    case (DecSize i)
    with acc show ?thesis by (simp del: access.simps)
  qed
qed

lemma current_moves_on:
  assumes "current s" and "k_head k < length (heads s)" and "k_tail k < length (tails s)"
  shows "current (moves_on i pc k s)"
  using assms by (auto simp: current_def moves_on_def known_by_def goto_def dest!: set_update_subset_insert [THEN subsetD])

lemma current_known:
  assumes "current s"
  shows "at (w_shared s) i = Some pc \<Longrightarrow> k_head (knows i s) < length (heads s) \<and> k_tail (knows i s) < length (tails s)"
    "k_head (producer_knows s) < length (heads s) \<and> k_tail (producer_knows s) < length (tails s)"
    "m \<in> set (heads s) \<union> set (tails s) \<Longrightarrow> k_head (m_carries m) < length (heads s) \<and> k_tail (m_carries m) < length (tails s)"
proof -
  have "knows i s \<in> known_by s" if "at (w_shared s) i = Some pc"
    using that assms by (simp add: current_def known_by_def knows_def at_Some)
  with assms show "at (w_shared s) i = Some pc \<Longrightarrow> k_head (knows i s) < length (heads s) \<and> k_tail (knows i s) < length (tails s)"
    by (auto simp: current_def)
qed (use assms in \<open>auto simp: current_def known_by_def\<close>)

lemma current_load_head:
  assumes "current s" and "load_head ord n (heads s) k = Some (v, k')"
    and "k_head k < length (heads s) \<and> k_tail k < length (tails s)"
  shows "k_head k' < length (heads s) \<and> k_tail k' < length (tails s)"
  using load_head_slots [OF assms(2)] assms(3) current_known(3) [OF assms(1), of "heads s ! n"]
  by (cases ord) (auto simp: learn_below)

lemma current_load_tail:
  assumes "current s" and "load_tail ord n (tails s) k = Some (v, k')"
    and "k_head k < length (heads s) \<and> k_tail k < length (tails s)"
  shows "k_head k' < length (heads s) \<and> k_tail k' < length (tails s)"
  using load_tail_slots [OF assms(2)] assms(3) current_known(3) [OF assms(1), of "tails s ! n"]
  by (cases ord) (auto simp: learn_below)

lemma current_step:
  assumes acc: "weak_step c ord moved a s = Some (Returns s')" and cur: "current s"
  shows "current s'"
proof (cases a)
  case (WLoadTail x n)
  with acc obtain t k where "load_tail Acquire n (tails s) (producer_knows s) = Some (t, k)"
    and s': "s' = s\<lparr>w_shared := (w_shared s)\<lparr>sh_producer := PLoaded x t, started := started (w_shared s) @ [x]\<rparr>, producer_knows := k\<rparr>"
    by (auto split: producer.splits option.splits)
  from current_load_tail [OF cur this(1) current_known(2) [OF cur]] cur show ?thesis
    by (auto simp: s' current_def known_by_def)
next
  case WWriteSlot
  with acc cur current_known(2) [OF cur] show ?thesis
    by (auto simp: current_def known_by_def touch_def touched_def Let_def split: producer.splits option.splits if_splits)
next
  case WStoreTail
  with acc cur current_known(2) [OF cur] show ?thesis
    by (auto simp: current_def known_by_def Let_def less_SucI split: producer.splits option.splits outcome.splits)
next
  case WIncSize
  with acc cur show ?thesis by (auto simp: current_def known_by_def Let_def split: producer.splits option.splits)
next
  case (WLoadHead i n)
  with acc obtain h k where "at (w_shared s) i = Some CIdle" "load_head ord n (heads s) (knows i s) = Some (h, k)"
    "s' = moves_on i (CHead h) k s"
    by (auto split: option.splits consumer.splits)
  with cur show ?thesis using current_load_head current_known(1) current_moves_on by metis
next
  case (WCompareTail i n)
  with acc obtain h t k where "at (w_shared s) i = Some (CHead h)"
    "load_tail Acquire n (tails s) (knows i s) = Some (t, k)" "s' = moves_on i (if h = t then CIdle else CNonEmpty h) k s"
    by (auto split: option.splits consumer.splits)
  with cur show ?thesis using current_load_tail current_known(1) current_moves_on by metis
next
  case (WExchange i)
  with acc obtain h sh where at: "at (w_shared s) i = Some (CNonEmpty h)"
    and sh: "access c moved (Exchange i False) (w_shared s) = Some sh"
    and s': "s' = s\<lparr>w_shared := sh, consumers_know := (consumers_know s)[i := (knows i s)\<lparr>k_head := length (heads s)\<rparr>],
       heads := heads s @ [\<lparr>m_value = q_head (sh_queue sh),
         m_carries = learn ((knows i s)\<lparr>k_head := length (heads s)\<rparr>) (m_carries (last (heads s)))\<rparr>]\<rparr>"
    by (auto simp: Let_def simp del: access.simps split: option.splits consumer.splits if_splits)
  have tail: "q_tail (sh_queue sh) = q_tail (sh_queue (w_shared s))"
    using sh by (auto simp: Let_def goto_def split: option.splits consumer.splits outcome.splits if_splits)
  have "last (heads s) \<in> set (heads s)" using cur by (simp add: current_def)
  with current_known(3) [OF cur, of "last (heads s)"] current_known(1) [OF cur at] cur access_consumers [OF sh] tail
  show ?thesis
    by (auto simp: s' current_def known_by_def learn_def less_SucI dest!: set_update_subset_insert [THEN subsetD])
next
  case (WExchangeFails i n)
  with acc obtain h v k where "at (w_shared s) i = Some (CNonEmpty h)"
    "load_head Relaxed n (heads s) (knows i s) = Some (v, k)" "s' = moves_on i CIdle k s"
    by (auto split: option.splits consumer.splits)
  with cur show ?thesis using current_load_head current_known(1) current_moves_on by metis
next
  case (WMoveSlot i)
  with acc obtain h sh where at: "at (w_shared s) i = Some (CWon h)"
    and sh: "access c moved (MoveSlot i) (w_shared s) = Some sh"
    and s': "s' = (touch h s)\<lparr>w_shared := sh, consumers_know := (consumers_know s)[i := touched h s (knows i s)]\<rparr>"
    by (auto simp del: access.simps split: option.splits consumer.splits if_splits)
  have "q_tail (sh_queue sh) = q_tail (sh_queue (w_shared s))" "q_head (sh_queue sh) = q_head (sh_queue (w_shared s))"
    using sh by (auto simp: Let_def goto_def split: option.splits consumer.splits if_splits)
  with current_known(1) [OF cur at] cur access_consumers [OF sh] show ?thesis
    by (auto simp: s' touch_def touched_def current_def known_by_def dest!: set_update_subset_insert [THEN subsetD])
next
  case (WDecSize i)
  with acc cur show ?thesis
    by (auto simp: current_def known_by_def Let_def goto_def split: option.splits consumer.splits)
qed

text \<open>
  Sequential consistency is one of the possibilities.  Every interleaving of sequentially consistent
  accesses is, with loads of the newest messages, an execution of the queue under the memory model and goes
  through the same states, up to the first access that races, if there is one, which no interleaving shows.
\<close>

theorem sequential_or_race:
  assumes "schedule c moved as (new_shared c workers d) = Some sh"
  shows "newest_schedule c ord moved as (new_weak c workers d) = Some Undefined \<or>
    (\<exists>s. newest_schedule c ord moved as (new_weak c workers d) = Some (Returns s) \<and> w_shared s = sh \<and>
       weak_steps c ord moved (new_weak c workers d) s)"
proof -
  let ?new = "new_weak c workers d"
  have "newest_schedule c ord moved as s = Some Undefined \<or>
      (\<exists>s'. newest_schedule c ord moved as s = Some (Returns s') \<and> w_shared s' = sh \<and> weak_steps c ord moved ?new s')"
    if "current s" "weak_steps c ord moved ?new s" "schedule c moved as (w_shared s) = Some sh" for s
    using that
  proof (induction as arbitrary: s)
    case (Cons a as)
    from Cons.prems(3) obtain sh1 where a: "access c moved a (w_shared s) = Some sh1" "schedule c moved as sh1 = Some sh"
      by (auto split: option.splits)
    from newest_step [OF Cons.prems(1) a(1), of ord] show ?case
    proof (elim disjE exE conjE)
      fix s' assume s': "weak_step c ord moved (newest_access s a) s = Some (Returns s')" "w_shared s' = sh1"
      have "current s'" by (rule current_step [OF s'(1) Cons.prems(1)])
      moreover have "weak_steps c ord moved ?new s'" by (rule weak_steps.step [OF Cons.prems(2) s'(1)])
      ultimately show ?thesis using Cons.IH [of s'] a(2) s' by simp
    qed simp
  qed simp
  moreover have "w_shared ?new = new_shared c workers d" by (simp add: new_weak_def)
  ultimately show ?thesis using current_new weak_steps.refl assms by metis
qed

theorem sequential_or_race_witness:
  "(\<exists>s. newest_schedule 3 Relaxed id (push_accesses ''a'' @ pop_accesses 0) (new_weak 3 1 '''') = Some (Returns s) \<and>
      delivered (w_shared s) = [''a'']) \<and>
   newest_schedule 3 Relaxed id (stale_schedule ''a'' ''b'' ''c'' @ push_accesses ''d'') (new_weak 3 2 '''') = Some Undefined"
proof
  have sc: "\<exists>sh. schedule 3 id (push_accesses ''a'' @ pop_accesses 0) (new_shared 3 1 '''') = Some sh \<and> delivered sh = [''a'']"
    by (simp add: push_accesses_def pop_accesses_def queue_eval)
  then obtain sh where sh: "schedule 3 id (push_accesses ''a'' @ pop_accesses 0) (new_shared 3 1 '''') = Some sh" "delivered sh = [''a'']"
    by blast
  have "newest_schedule 3 Relaxed id (push_accesses ''a'' @ pop_accesses 0) (new_weak 3 1 '''') \<noteq> Some Undefined"
    by (simp add: push_accesses_def pop_accesses_def queue_eval Let_def)
  with sequential_or_race [OF sh(1), of Relaxed] sh(2)
  show "\<exists>s. newest_schedule 3 Relaxed id (push_accesses ''a'' @ pop_accesses 0) (new_weak 3 1 '''') = Some (Returns s) \<and>
      delivered (w_shared s) = [''a'']" by blast
  show "newest_schedule 3 Relaxed id (stale_schedule ''a'' ''b'' ''c'' @ push_accesses ''d'') (new_weak 3 2 '''') = Some Undefined"
    by (simp add: stale_schedule_def push_accesses_def pop_accesses_def queue_eval Let_def)
qed

end
