(* ===== verification/WeakPool.thy ===== *)
theory WeakPool
  imports QueueWeakDelivery QueueSequential Connection
begin

text \<open>
  The thread pool over the queue under the memory model of C++: what \<open>QueueWeak\<close> means for connections.  The
  slots that no push has written hold the objects that the constructor of the array has made.
\<close>

definition default_http_connection :: http_connection where
  "default_http_connection = \<lparr>tcp_fd = -1, tcp_request = ''''\<rparr>"

definition default_https_connection :: "'ssl \<Rightarrow> 'ssl https_connection" where
  "default_https_connection nullptr = \<lparr>tls_fd = -1, tls_ssl = nullptr, tls_request = ''''\<rparr>"

text \<open>The queue of a pool with its threads.\<close>

definition new_weak_pool :: "nat \<Rightarrow> 'c \<Rightarrow> 'c weak" where
  "new_weak_pool num_threads d = new_weak 100 num_threads d"

lemma default_request_throws:
  "tcp_handle (handle files) default_http_connection fm = Throws OutOfRange"
  "tls_handle want_write (handle files) (default_https_connection nullptr) fm = Throws OutOfRange"
proof -
  have "parse_http_request '''' = Throws OutOfRange" by code_simp
  then show "tcp_handle (handle files) default_http_connection fm = Throws OutOfRange"
    "tls_handle want_write (handle files) (default_https_connection nullptr) fm = Throws OutOfRange"
    by (simp_all add: tcp_handle_def tls_handle_def handle_connection_def default_http_connection_def
        default_https_connection_def handle_def)
qed

text \<open>
  C12. One connection can end the server.  After the first connection that is accepted, whatever its request,
  the memory model lets a second worker of the pool of four pop again from the queue that the first has
  emptied: it loads the head that the first has advanced, relaxed, and a tail from before the push.  What it
  gets is an object that was never pushed, with an empty request, on which the handler throws out of the
  thread, for the plain and for the TLS server.
\<close>

theorem one_connection_ends_server:
  "(\<exists>s. weak_schedule 100 Relaxed moved (stale_tail_run c) (new_weak_pool 4 default_http_connection) = Some (Returns s) \<and>
      QueueConcurrent.started (w_shared s) = [c] \<and> delivered (w_shared s) = [c, default_http_connection]) \<and>
   tcp_handle (handle files) default_http_connection fm = Throws OutOfRange \<and>
   (\<exists>s. weak_schedule 100 Relaxed moved' (stale_tail_run t) (new_weak_pool 4 (default_https_connection nullptr)) = Some (Returns s) \<and>
      QueueConcurrent.started (w_shared s) = [t] \<and> delivered (w_shared s) = [t, default_https_connection nullptr]) \<and>
   tls_handle want_write (handle files) (default_https_connection nullptr) fm = Throws OutOfRange"
  using old_tail_delivers [of 100 4 moved c default_http_connection]
    old_tail_delivers [of 100 4 moved' t "default_https_connection nullptr"]
  by (auto simp: new_weak_pool_def default_request_throws)

end
