(* ===== verification/RepoTests.thy ===== *)
theory RepoTests
  imports Request_Roundtrip Url
begin

text \<open>
  The tests of the repository (\<^verbatim>\<open>tests/parser_test.cpp\<close>, \<^verbatim>\<open>tests/url_test.cpp\<close>) on the model: what each input is
  parsed to, from which the requirements of the tests can be read off.
\<close>

definition test_request_line :: string where
  "test_request_line = ''GET / HTTP/1.1'' @ CRLF"

definition two_headers :: string where
  "two_headers = ''Content-Type: text/html'' @ CRLF @ ''Content-Length: 100'' @ CRLF @ CRLF"

definition parsed :: "string \<Rightarrow> (strmap \<times> string) option" where
  "parsed s = (case parse_http_request s of Returns (Inr r) \<Rightarrow> Some (msg_headers r, msg_body r) | _ \<Rightarrow> None)"

lemma parse_message_header:
  "parsed (test_request_line @ ''Content-Type: text/html'' @ CRLF @ CRLF) = Some ([(''Content-Type'', ''text/html'')], [])"
  by code_simp

text \<open>The map is in the order of the keys.\<close>

lemma parse_message_headers:
  "parsed (test_request_line @ two_headers) =
     Some ([(''Content-Length'', ''100''), (''Content-Type'', ''text/html'')], [])"
  by code_simp

text \<open>The body is the rest of the text, whatever the length in the header is.\<close>

lemma parse_message_with_body:
  "parsed (test_request_line @ two_headers @ ''<html><body>Hello, world!</body></html>'') =
     Some ([(''Content-Length'', ''100''), (''Content-Type'', ''text/html'')], ''<html><body>Hello, world!</body></html>'')"
  by code_simp

lemma parse_message_with_body_and_extra:
  "parsed (test_request_line @ two_headers @ ''<html><body>Hello, world!</body></html>'' @ CRLF @ CRLF) =
     Some ([(''Content-Length'', ''100''), (''Content-Type'', ''text/html'')],
       ''<html><body>Hello, world!</body></html>'' @ CRLF @ CRLF)"
  by code_simp

lemma parse_no_headers: "parsed (test_request_line @ CRLF) = Some ([], [])"
  by code_simp

text \<open>
  Two tests require an error.  The second has one; the first is undefined behaviour, as for every header line
  without a space.
\<close>

lemma parse_malformed_header:
  "parse_http_request (test_request_line @ ''Content'' @ CRLF @ ''-Type: text/html'' @ CRLF) = Undefined"
  by code_simp

lemma parse_empty_input:
  "parse_http_request test_request_line =
     Returns (Inl (parser_error_at ''Could not find the terminating characters of the header.''))"
  by code_simp

definition test_url :: string where
  "test_url = ''/hello/world'' @ ''?'' @ ''foo=bar&baz=qux''"

lemma url_path_and_query:
  "from_string test_url = Returns (Inr \<lparr>url_path = ''/hello/world'', url_query = [(''baz'', ''qux''), (''foo'', ''bar'')]\<rparr>)"
  by code_simp

end
