(* ===== verification/Spec2Isabelle.thy ===== *)
theory Spec2Isabelle
  imports Process ErrnoLoops Shutdown Logging ManagerRuns Url Headers RequestHandlers CacheStore Expected ExpectedTraits
    ExpectedSwap ExpectedOverloads ExpectedLifetime WeakPool RepoTests
begin

text \<open>
  A verification library of SimpleServ, an HTTP server in C++ that serves the files of one
  directory over TCP and TLS.

  \<^bold>\<open>The program.\<close>  \<^verbatim>\<open>src/serverexec/main.cpp\<close> scans the web directory
  (\<^verbatim>\<open>http::file_manager.construct_file_descriptors\<close>), compresses the text files
  (\<^verbatim>\<open>generate_encoded_files\<close>) and builds a \<^verbatim>\<open>ServerManager\<close> with an HTTP and an HTTPS server.  Each
  server has a thread that accepts connections, reads one request from each and adds it to the
  lock-free queue of a pool of four threads.  A worker pops a connection, has \<^verbatim>\<open>HTTPHandler::handle\<close>
  parse the request and make the response, sends it and closes the connection.

  \<^bold>\<open>Theories and sources\<close> (paths below \<^verbatim>\<open>include/simpleserv\<close> and \<^verbatim>\<open>src/simpleserv\<close>).

  \<^item> \<open>Prelude\<close>: outcomes of a C++ call (a value, an exception, undefined behaviour), the operations
    of the standard library's strings and maps that the sources call.
  \<^item> \<open>StringParser\<close> (\<^verbatim>\<open>utility/string_parser.hpp\<close>), \<open>Http\<close> (\<^verbatim>\<open>http/http.hpp\<close>), \<open>Message\<close>
    (\<^verbatim>\<open>http/message.hpp\<close>), \<open>Parser\<close> (\<^verbatim>\<open>http/parser.cpp\<close>): the cursor over the text of a request, the
    protocol constants, messages and their printers, the request parser.  \<open>Request_Roundtrip\<close> has
    the facts about them together: printing and parsing are inverse on well-formed requests, the
    shape of every accepted text, and what happens to truncated and HTTP/1.0 requests.
  \<^item> \<open>Filesystem\<close>, \<open>ContentCoding\<close> (\<^verbatim>\<open>utility/content_coding.cpp\<close>): directory trees as
    \<^verbatim>\<open>std::filesystem\<close> lists them, any of which may not open, and graphs of directories with symbolic links;
    a disk as a map from paths to contents, and the encoder.
  \<^item> \<open>FileFetcher\<close>, \<open>FileManager\<close> (\<^verbatim>\<open>utility/file_manager.hpp\<close>, \<^verbatim>\<open>.cpp\<close>): the cache in front of a
    fetcher as a locale, interpreted on the disk fetcher; descriptors and the encoded files.
  \<^item> \<open>HttpHandler\<close> (\<^verbatim>\<open>http/http_handler.cpp\<close>): the answer to a request, over the parser and the file
    manager.  \<open>SharedFiles\<close>: the handler as several workers call it, undefined where their uses of the
    unlocked cache conflict.  \<open>ManagerRuns\<close>: any sequence of uses of the file manager, and the form its state keeps.
    \<open>Logging\<close> (\<^verbatim>\<open>debug_flags.hpp\<close>, \<^verbatim>\<open>utility/logger.hpp\<close>): the same functions with the lines they log;
    the handler is what is left when the log is erased.
  \<^item> \<open>LockFreeQueue\<close> (\<^verbatim>\<open>utility/lock_free_queue.hpp\<close>): the ring buffer, each operation by itself, as an
    interpretation of a locale of bounded queues.  \<open>QueueConcurrent\<close>: the same operations as
    sequences of atomic accesses, interleaved between threads by an inductive step relation.
    \<open>QueueDelivery\<close>: the invariant of that relation, over counters of which the indices of the ring
    are residues, and exactly-once delivery in runs of any length.
    \<open>QueueWeak\<close>: the accesses with the memory orders of the code, as an operational model of histories,
    knowledge and data races; \<open>QueueSequential\<close>: the interleavings are those of its executions that load the
    newest; \<open>QueueWeakDelivery\<close>: what the orders are enough for; \<open>WeakPool\<close>: what they mean for the pool.
  \<^item> \<open>RepoTests\<close> (\<^verbatim>\<open>tests/\<close>): the repository's tests, evaluated on the model.
  \<^item> \<open>Connection\<close> (\<^verbatim>\<open>request_processing\<close>): senders and closers for TCP and TLS as two interpretations
    of one locale, workers and the pool.
  \<^item> \<open>AcceptLoop\<close> (\<^verbatim>\<open>server/tcp_server.hpp\<close>, \<^verbatim>\<open>tls_server.hpp\<close>), \<open>ServerManager\<close>
    (\<^verbatim>\<open>server/server_manager.hpp\<close>, \<^verbatim>\<open>main.cpp\<close>): the accept loops, how the servers are configured and
    started.  \<open>ErrnoLoops\<close>: what the loops hear on a system that sets \<^verbatim>\<open>errno\<close> as Linux does, as a locale
    interpreted for both loops.  \<open>Shutdown\<close>: destructors, signal handler and the end of \<^verbatim>\<open>main\<close>.
  \<^item> \<open>Service\<close>: the workers and the queue together.  A step is an access to the queue, the handler's call
    for a connection that was popped, or one call to the outside; the contract of a handler is a locale,
    interpreted for plain and for TLS connections.  \<open>LiveServer\<close>: the accept loop beside them.
    \<open>Network\<close>: the tables of open descriptors and TLS handles beside that, and on whose connection each call is made.
    \<open>Process\<close>: both servers in one process, over one file cache and one table of descriptors.
  \<^item> \<open>Url\<close> (\<^verbatim>\<open>utility/url.cpp\<close>), \<open>Headers\<close> (\<^verbatim>\<open>http/headers.hpp\<close>), \<open>RequestHandlers\<close>
    (\<^verbatim>\<open>http/request_handler.cpp\<close>), \<open>CacheStore\<close> (\<^verbatim>\<open>cache.hpp\<close>): library code that the server binary
    does not call yet.
  \<^item> \<open>ExpectedStorage\<close>, \<open>Expected\<close> (\<^verbatim>\<open>utility/expected.hpp\<close>): the result type of the parser and the
    file manager; first the lifetime of its member objects, then its combinators and comparisons.
    \<open>ExpectedTraits\<close>: which copies, moves and destructors the class has, through the chain of its bases,
    for any traits of the two types; the bodies they run are those of \<open>ExpectedStorage\<close>.
    \<open>ExpectedSwap\<close>: the traits of swapping and what \<^verbatim>\<open>noexcept(swap)\<close> is worth.  \<open>ExpectedOverloads\<close>: the constraints
    of the constructors and which of them takes one argument.  \<open>ExpectedLifetime\<close>: the specialisations of the
    storage, each built and destroyed.

  \<^bold>\<open>How the code appears.\<close>  Classes are records and their member functions are functions on the
  record; a function that can fail yields a sum or an option as in the code; exceptions and
  undefined behaviour are values of type \<open>outcome\<close> (in \<open>ExpectedStorage\<close>, where the state after an
  exception matters, exits of an action).  Strings are lists of characters, the queue's counters
  are 32-bit words.  The disk, the answers of system calls, wolfSSL and the Brotli compressor are
  arguments.

  \<^bold>\<open>What the lemmas show.\<close>  Parser and printer: round trips and the exact shape of accepted texts.
  File manager and handler: which files are described and encoded, that only they are served, and
  the text of every response.  Queue: refinement of a list while there is room; in interleavings
  of any length, that nothing is lost, duplicated or invented while no push laps a consumer; and what
  goes wrong beyond; under the memory orders of the code, delivery for one worker, and that two workers or a
  second round of the ring break it.  Workers, accept loops and manager: in every sequentially consistent
  interleaving in which no push laps a consumer, the file cache does not race and no handler throws, every connection
  heard (those up to the first wait, as \<^verbatim>\<open>errno\<close> is not reset) is taken, written its own answer and no other, and closed once,
  with both servers at work and descriptors reused; the pool can then always finish; and the ways in which an
  exception, a stale \<^verbatim>\<open>errno\<close>, a race on the cache, a silent client or a failed read ends the service; the end of the
  program is never orderly.
  Expected: refinement of a sum under assignment, swap and emplace, which constructor takes an argument
  and whether it makes a value or an error.  Theorems about behaviour that differs from what comments, names
  or tests say are stated as such in their text.

  \<^bold>\<open>Bounds.\<close>  The loop of a worker never ends in the code; the model runs it for a number of rounds,
  and a queue of \<open>n\<close> connections is served by \<open>n\<close> rounds.  The accept loops consume one answer of
  the system per round and stop when the list of answers is empty.  The TLS write loop is a partial
  function with a theorem that it returns.  Every other loop terminates by a measure.

  \<^bold>\<open>Not modelled.\<close>  Log lines and output other than those of a request; memory orders in
  the theories of the service and the process, which are sequentially consistent (\<open>WeakPool\<close> has the pool's queue
  alone, and shows that the orders of the code allow more); pushes that lap a consumer, beyond the theorem that
  they break the queue; what the system and the TLS library deliver of what the program writes;
  in \<^verbatim>\<open>expected.hpp\<close> the workarounds for old compilers, arrays and builds without exceptions; \<^verbatim>\<open>FileStore::remove\<close> and \<^verbatim>\<open>clear\<close>,
  \<^verbatim>\<open>Threadpool::add_connection\<close> and \<^verbatim>\<open>LockFreeQueue::createRef\<close>, which do not compile when
  instantiated.
\<close>

section \<open>From accepting to answering\<close>

lemma serve_list_calls:
  "cache_agrees files fm \<Longrightarrow> \<forall>c \<in> set cs. parses (tcp_request c) \<Longrightarrow>
   \<exists>fm'. serve_list (tcp_handle (handle files)) (replicate (length cs) False) cs fm =
     (concat (map (calls_for files (fm_descriptors fm)) cs) :: unit io list, Going [] fm')"
proof (induction cs arbitrary: fm)
  case (Cons c cs)
  then have "parses (tcp_request c)" "\<forall>c \<in> set cs. parses (tcp_request c)" by simp_all
  from handle_connection_calls [OF Cons.prems(1) this(1)] obtain fm1 where
    c: "tcp_handle (handle files) c fm = Returns (Some (calls_for files (fm_descriptors fm) c :: unit io list), fm1)"
      "cache_agrees files fm1" "fm_descriptors fm1 = fm_descriptors fm" by blast
  from Cons.IH [OF c(2)] \<open>\<forall>c \<in> set cs. parses (tcp_request c)\<close> obtain fm2 where
    "serve_list (tcp_handle (handle files)) (replicate (length cs) False) cs fm1 =
      (concat (map (calls_for files (fm_descriptors fm1)) cs) :: unit io list, Going [] fm2)" by blast
  with c show ?case by simp
qed simp

lemma seen_Going: "seen_as_list r = (io, Going rest s) \<Longrightarrow> \<exists>q. r = (io, Going q s) \<and> LockFreeQueue.contents 100 q = rest"
  by (cases r; cases "snd r") auto

text \<open>
  C7.  From connections to answers.  On a system that leaves \<^verbatim>\<open>errno\<close> alone when a call succeeds, an idle TCP
  server (nothing pending, its thread has not met \<open>EAGAIN\<close>) makes any number of rounds of accepting, of which at
  most 99 connections are heard, each with a request on which the parser neither throws nor is undefined.  When
  one worker then makes as many undisturbed rounds as connections were heard, with nobody else at work, it sends, for
  each of them in the order of acceptance, the answer to the text read, if the parser accepts it, and closes the
  connection; the answer is the one for the files the manager has descriptors of; nothing is left in the
  queue.
\<close>

theorem tcp_service:
  assumes "\<forall>r \<in> set rounds. linux_round r" and "srv_errno srv \<noteq> EAGAIN" and "server_ok srv" and "pending srv = []"
    and "length (concat (map task_of (heard finds_nothing rounds))) \<le> 99"
    and "w_ready w" and "w_queue w = ToQueue" and "cache_agrees files fm"
    and "\<forall>c \<in> set (concat (map task_of (heard finds_nothing rounds))). parses (tcp_request c)"
  shows "\<exists>srv' q fm'. tcp_AcceptIncoming rounds srv = Returns (Running, srv') \<and>
    worker_Start ndebug (tcp_handle (handle files)) moved
        (replicate (length (concat (map task_of (heard finds_nothing rounds)))) False) w (tp_queue (srv_pool srv')) fm =
      (concat (map (calls_for files (fm_descriptors fm)) (concat (map task_of (heard finds_nothing rounds)))) :: unit io list,
       Going q fm') \<and>
    LockFreeQueue.contents 100 q = []"
proof -
  let ?cs = "concat (map task_of (heard finds_nothing rounds))"
  let ?h = "tcp_handle (handle files) :: http_connection \<Rightarrow> file_manager \<Rightarrow> (unit io list option \<times> file_manager) outcome"
  from tcp_errno.heard_rounds [OF assms(1-3)] assms(4,5) obtain srv' where
    srv': "tcp_AcceptIncoming rounds srv = Returns (Running, srv')" "pending srv' = ?cs" by auto
  have sized: "queue_sized 100 (tp_queue (srv_pool srv'))"
    using tcp_errno.heard_rounds_ok [OF assms(1-3)] assms(4,5) srv'(1) by (auto simp: server_ok_def)
  from serve_list_calls [OF assms(8,9)] obtain fm' where
    "serve_list ?h (replicate (length ?cs) False) ?cs fm =
      (concat (map (calls_for files (fm_descriptors fm)) ?cs) :: unit io list, Going [] fm')" by blast
  with worker_refines [OF sized, of ?h moved "replicate (length ?cs) False" fm] srv'(2)
  have "seen_as_list (worker_rounds ?h moved (replicate (length ?cs) False) (tp_queue (srv_pool srv')) fm) =
      (concat (map (calls_for files (fm_descriptors fm)) ?cs), Going [] fm')" by simp
  from seen_Going [OF this] srv'(1) assms(6,7) show ?thesis by (auto simp: worker_Start_def)
qed

theorem tcp_service_witness:
  "\<exists>srv q fm. tcp_AcceptIncoming live_rounds (TCPServer HTTP_PORT) = Returns (Running, srv) \<and>
     worker_Start False (tcp_handle (handle [''../webdir/a.css'' \<mapsto> ''body { }''])) id [False, False]
         (new_worker ToQueue) (tp_queue (srv_pool srv)) sample_manager =
       ([Send 5 (''HTTP/1.1 200 OK'' @ CRLF @ ''Content-Type: text/css'' @ CRLF @ CRLF @ ''body { }'') :: unit io, Close 5,
         Close 6], Going q fm)"
proof -
  have tasks: "concat (map task_of (heard finds_nothing live_rounds)) =
      [\<lparr>tcp_fd = 5, tcp_request = ''GET /a.css HTTP/1.1'' @ CRLF @ CRLF\<rparr>,
       \<lparr>tcp_fd = 6, tcp_request = ''BREW / HTTP/1.1''\<rparr>]"
    by code_simp
  have parse: "\<forall>c \<in> set (concat (map task_of (heard finds_nothing live_rounds))). parses (tcp_request c)"
    unfolding tasks by code_simp
  have calls: "concat (map (calls_for [''../webdir/a.css'' \<mapsto> ''body { }''] (fm_descriptors sample_manager))
      (concat (map task_of (heard finds_nothing live_rounds)))) =
      [Send 5 (''HTTP/1.1 200 OK'' @ CRLF @ ''Content-Type: text/css'' @ CRLF @ CRLF @ ''body { }'') :: unit io, Close 5,
       Close 6]"
    unfolding tasks by code_simp
  have two: "replicate (length (concat (map task_of (heard finds_nothing live_rounds)))) False = [False, False]"
    unfolding tasks by (simp add: eval_nat_numeral)
  have "srv_errno (TCPServer HTTP_PORT) \<noteq> EAGAIN" by (simp add: TCPServer_def EAGAIN_def)
  moreover have "length (concat (map task_of (heard finds_nothing live_rounds))) \<le> 99" unfolding tasks by simp
  moreover have "w_ready (new_worker ToQueue)" "w_queue (new_worker ToQueue) = ToQueue" by (simp_all add: new_worker_def)
  ultimately show ?thesis
    using tcp_service [where moved = id and files = "[''../webdir/a.css'' \<mapsto> ''body { }'']" and ndebug = False,
      OF live_rounds_linux _ server_ok_new [of HTTP_PORT] _ _ _ sample_manager_agrees parse]
    unfolding calls two by blast
qed

end
